(* ===== verification/Prelude.thy ===== *)
theory Prelude
  imports Main "HOL-Library.Word" "HOL-Library.Finite_Map"
begin

text \<open>
  Shared vocabulary of the development: the machine integers and byte strings of the
  crate, the value of a fallible Rust expression (\<open>Ok\<close>, \<open>Err\<close> or a panic), the
  combinators that stand for the \<open>?\<close> operator, the entropy source, decimal printing as
  \<open>format!\<close> does it, and the generic lemmas on words, lists and finite maps that the
  component theories use.
\<close>

named_theorems outcome_simps \<open>unfolding of the error-propagation combinators\<close>
named_theorems length_simps \<open>lengths of keys, tags and drawn bytes\<close>

section \<open>Machine integers and bytes\<close>

type_synonym u8 = "8 word"
type_synonym u32 = "32 word"
type_synonym u64 = "64 word"
type_synonym bytes = "u8 list"

lemma unat_Suc_less:
  fixes i j :: u32
  assumes "i < j"
  shows "unat (i + 1) = Suc (unat i)"
proof -
  from assms have "unat i < unat j" by (simp add: word_less_nat_alt)
  moreover have "unat j < 2 ^ 32" using unsigned_less [of j, where ?'a = nat] by simp
  ultimately show ?thesis by (simp add: unat_word_ariths)
qed

lemma unat_Suc_not_max:
  fixes i :: u32
  assumes "i \<noteq> - 1"
  shows "unat (i + 1) = Suc (unat i)"
proof -
  from assms have "i < - 1"
    using word_order.not_eq_extremum by blast
  then show ?thesis by (rule unat_Suc_less)
qed

section \<open>Fallible values\<close>

text \<open>
  The value of a Rust expression of type \<open>Result<T, E>\<close> whose evaluation may also panic
  (\<open>copy_from_slice\<close> on slices of different lengths, \<open>expect\<close>, \<open>from_slice\<close> on a
  fixed-size array). A panic is a value of the model, never an unspecified result.
\<close>

datatype ('e, 'a) outcome = Ok 'a | Err 'e | Panic

primrec is_ok :: "('e, 'a) outcome \<Rightarrow> bool" where
  "is_ok (Ok _) = True"
| "is_ok (Err _) = False"
| "is_ok Panic = False"

text \<open>The \<open>?\<close> operator on a value that carries no state.\<close>

primrec and_then :: "('e, 'a) outcome \<Rightarrow> ('a \<Rightarrow> ('e, 'b) outcome) \<Rightarrow> ('e, 'b) outcome" where
  "and_then (Ok a) f = f a"
| "and_then (Err e) f = Err e"
| "and_then Panic f = Panic"

text \<open>
  The \<open>?\<close> operator inside a method that takes \<open>&mut self\<close>: the state reached when the
  error is returned is the state the caller keeps.
\<close>

fun and_then_st ::
  "('e, 'a) outcome \<times> 's \<Rightarrow> ('a \<Rightarrow> 's \<Rightarrow> ('e, 'b) outcome \<times> 's) \<Rightarrow> ('e, 'b) outcome \<times> 's"
where
  "and_then_st (Ok a, s) f = f a s"
| "and_then_st (Err e, s) f = (Err e, s)"
| "and_then_st (Panic, s) f = (Panic, s)"

primrec map_err :: "('e \<Rightarrow> 'f) \<Rightarrow> ('e, 'a) outcome \<Rightarrow> ('f, 'a) outcome" where
  "map_err f (Ok a) = Ok a"
| "map_err f (Err e) = Err (f e)"
| "map_err f Panic = Panic"

primrec ok_or :: "'e \<Rightarrow> 'a option \<Rightarrow> ('e, 'a) outcome" where
  "ok_or e (Some a) = Ok a"
| "ok_or e None = Err e"

lemma is_ok_iff: "is_ok x \<longleftrightarrow> (\<exists>a. x = Ok a)"
  by (cases x) auto

lemma and_then_eq_Ok [outcome_simps]:
  "and_then x f = Ok b \<longleftrightarrow> (\<exists>a. x = Ok a \<and> f a = Ok b)"
  by (cases x) auto

lemma and_then_eq_Panic [outcome_simps]:
  "and_then x f = Panic \<longleftrightarrow> x = Panic \<or> (\<exists>a. x = Ok a \<and> f a = Panic)"
  by (cases x) auto

lemma and_then_eq_Err [outcome_simps]:
  "and_then x f = Err e \<longleftrightarrow> x = Err e \<or> (\<exists>a. x = Ok a \<and> f a = Err e)"
  by (cases x) auto

lemma map_err_eq_iffs [outcome_simps]:
  "map_err f x = Ok a \<longleftrightarrow> x = Ok a"
  "map_err f x = Panic \<longleftrightarrow> x = Panic"
  "map_err f x = Err e' \<longleftrightarrow> (\<exists>e. x = Err e \<and> e' = f e)"
  by (cases x; auto)+

lemma ok_or_eq_iffs [outcome_simps]:
  "ok_or e x = Ok a \<longleftrightarrow> x = Some a"
  "ok_or e x \<noteq> Panic"
  "ok_or e x = Err e' \<longleftrightarrow> x = None \<and> e' = e"
  by (cases x; auto)+

lemma and_then_st_eq_Ok [outcome_simps]:
  "and_then_st p f = (Ok b, t) \<longleftrightarrow> (\<exists>a s. p = (Ok a, s) \<and> f a s = (Ok b, t))"
  by (cases p; cases "fst p") auto

lemma and_then_st_eq_Panic [outcome_simps]:
  "and_then_st p f = (Panic, t) \<longleftrightarrow> p = (Panic, t) \<or> (\<exists>a s. p = (Ok a, s) \<and> f a s = (Panic, t))"
  by (cases p; cases "fst p") auto

lemma and_then_st_eq_Err [outcome_simps]:
  "and_then_st p f = (Err e, t) \<longleftrightarrow> p = (Err e, t) \<or> (\<exists>a s. p = (Ok a, s) \<and> f a s = (Err e, t))"
  by (cases p; cases "fst p") auto

section \<open>Entropy\<close>

text \<open>
  \<open>OsRng\<close> is an unbounded supply of bytes, passed and returned explicitly;
  \<open>draw_bytes n r\<close> is \<open>fill_bytes\<close> on a buffer of \<open>n\<close> bytes. No theorem assumes
  anything of the bytes unless it names the assumption.
\<close>

type_synonym rng = "nat \<Rightarrow> u8"

definition draw_bytes :: "nat \<Rightarrow> rng \<Rightarrow> bytes \<times> rng" where
  "draw_bytes n r = (map r [0..<n], (\<lambda>i. r (n + i)))"

lemma length_draw_bytes [simp, length_simps]: "length (fst (draw_bytes n r)) = n"
  by (simp add: draw_bytes_def)

lemma draw_bytes_length [length_simps]: "draw_bytes n r = (b, r') \<Longrightarrow> length b = n"
  by (auto simp: draw_bytes_def)

lemma map_shift_upt: "map (\<lambda>i. r (n + i)) [0..<k] = map r [n..<n + k]"
  by (rule nth_equalityI) simp_all

section \<open>Decimal printing\<close>

text \<open>\<open>format!("{}", n)\<close> on an unsigned integer, and \<open>format!("{:?}", bytes)\<close> on a slice.\<close>

definition digit_char :: "nat \<Rightarrow> char" where
  "digit_char d = char_of (48 + d)"

fun show_nat :: "nat \<Rightarrow> string" where
  "show_nat n = (if n < 10 then [digit_char n] else show_nat (n div 10) @ [digit_char (n mod 10)])"

declare show_nat.simps [simp del]

definition read_digit :: "char \<Rightarrow> nat" where
  "read_digit c = of_char c - 48"

definition read_nat :: "string \<Rightarrow> nat" where
  "read_nat = foldl (\<lambda>acc c. 10 * acc + read_digit c) 0"

lemma read_digit_char: "d < 10 \<Longrightarrow> read_digit (digit_char d) = d"
  by (simp add: read_digit_def digit_char_def of_char_of)

lemma read_show_nat: "read_nat (show_nat n) = n"
proof (induction n rule: show_nat.induct)
  case (1 n)
  show ?case
  proof (cases "n < 10")
    case True
    then show ?thesis
      by (subst show_nat.simps) (simp add: read_nat_def read_digit_char)
  next
    case False
    with 1 have "read_nat (show_nat (n div 10)) = n div 10" by simp
    with False show ?thesis
      by (subst show_nat.simps) (simp add: read_nat_def read_digit_char)
  qed
qed

lemma show_nat_inject [simp]: "show_nat m = show_nat n \<longleftrightarrow> m = n"
  by (metis read_show_nat)

fun join_comma :: "string list \<Rightarrow> string" where
  "join_comma [] = []"
| "join_comma [x] = x"
| "join_comma (x # xs) = x @ '', '' @ join_comma xs"

definition show_bytes_debug :: "bytes \<Rightarrow> string" where
  "show_bytes_debug b = ''['' @ join_comma (map (\<lambda>x. show_nat (unat x)) b) @ '']''"

section \<open>Finite maps: the number of entries\<close>

abbreviation map_len :: "('k, 'v) fmap \<Rightarrow> nat" where
  "map_len m \<equiv> fcard (fmdom m)"

lemma fcard_fempty [simp]: "fcard {||} = 0"
  by (simp add: fcard.rep_eq)

lemma map_len_fmupd:
  "map_len (fmupd k v m) = (if k |\<in>| fmdom m then map_len m else Suc (map_len m))"
  by (simp add: fcard_finsert_if)

lemma map_len_fmupd_new: "fmlookup m k = None \<Longrightarrow> map_len (fmupd k v m) = Suc (map_len m)"
  by (simp add: fcard_finsert_if fmlookup_dom_iff)

lemma map_len_fmupd_le: "map_len (fmupd k v m) \<le> Suc (map_len m)"
  by (simp add: fcard_finsert_if)

lemma map_len_mono_fmupd: "map_len m \<le> map_len (fmupd k v m)"
  by (simp add: fcard_finsert_if)

lemma map_len_fmdrop_le: "map_len (fmdrop k m) \<le> map_len m"
  by (auto intro: fcard_mono)

section \<open>The two ends of a conversation\<close>

datatype party = Alice | Bob

fun peer :: "party \<Rightarrow> party" where
  "peer Alice = Bob"
| "peer Bob = Alice"

lemma peer_peer [simp]: "peer (peer a) = a"
  by (cases a) simp_all

lemma peer_neq [simp]: "peer a \<noteq> a" "a \<noteq> peer a"
  by (cases a; simp)+

lemma neq_imp_peer: "a \<noteq> b \<Longrightarrow> a = peer b"
  by (cases a; cases b) simp_all

end
