(* ===== verification/Errors.thy ===== *)
theory Errors
  imports Prelude
begin

text \<open>
  The crate's error type (\<open>src/error.rs\<close>): the enum \<open>CryptoError\<close> with the message each
  variant carries, and the \<open>Display\<close> text its \<open>#[error(..)]\<close> attributes give it, which is
  what both binding layers hand to their callers.
\<close>

datatype CryptoError =
    KeyGeneration string
  | KeyExchange string
  | Encryption string
  | Decryption string
  | InvalidSignature string
  | InvalidKey string
  | Ratchet string
  | Serialization string
  | Mls string
  | MlsGroupNotFound string

fun error_display :: "CryptoError \<Rightarrow> string" where
  "error_display (KeyGeneration m) = ''Key generation failed: '' @ m"
| "error_display (KeyExchange m) = ''Key exchange failed: '' @ m"
| "error_display (Encryption m) = ''Encryption failed: '' @ m"
| "error_display (Decryption m) = ''Decryption failed: '' @ m"
| "error_display (InvalidSignature m) = ''Invalid signature: '' @ m"
| "error_display (InvalidKey m) = ''Invalid key: '' @ m"
| "error_display (Ratchet m) = ''Ratchet error: '' @ m"
| "error_display (Serialization m) = ''Serialization error: '' @ m"
| "error_display (Mls m) = ''MLS error: '' @ m"
| "error_display (MlsGroupNotFound m) = ''MLS group not found: '' @ m"

text \<open>\<open>pub type Result<T> = std::result::Result<T, CryptoError>\<close>\<close>

type_synonym 'a result = "(CryptoError, 'a) outcome"

end
