(* ===== verification/Primitives.thy ===== *)
theory Primitives
  imports Errors
begin

text \<open>
  The cryptographic and serialisation crates the program calls (x25519-dalek,
  ed25519-dalek, aes-gcm, hkdf, hmac with sha2, serde_json on the message header). Their
  code is not part of the repository, so they are one record of functions, the first
  argument of every definition that calls them, and what the program relies on is the list
  of named laws below, each a documented behaviour of one crate. No law speaks of the
  program's own functions.

  The last section gives a concrete provider that satisfies every law. It computes
  something simple and is in no way secure: it exists so that each theorem with a law
  among its hypotheses can be applied to concrete values.
\<close>

section \<open>The interface\<close>

text \<open>
  An error of a crate is the text its \<open>Display\<close> gives, since the program only ever formats
  it. \<open>x_public\<close> is \<open>PublicKey::from(&StaticSecret)\<close>, \<open>x_dh\<close> is \<open>diffie_hellman\<close>;
  \<open>ed_vk_error\<close> is the error \<open>VerifyingKey::from_bytes\<close> returns, if it does;
  \<open>aes_key_check\<close> and \<open>hmac_key_check\<close> are the two \<open>new_from_slice\<close> constructors;
  \<open>json_header\<close> is \<open>serde_json::to_vec\<close> on the three fields of a message header.
\<close>

record provider =
  x_public :: "bytes \<Rightarrow> bytes"
  x_dh :: "bytes \<Rightarrow> bytes \<Rightarrow> bytes"
  ed_public :: "bytes \<Rightarrow> bytes"
  ed_sign :: "bytes \<Rightarrow> bytes \<Rightarrow> bytes"
  ed_verify :: "bytes \<Rightarrow> bytes \<Rightarrow> bytes \<Rightarrow> bool"
  ed_vk_error :: "bytes \<Rightarrow> string option"
  aes_key_check :: "bytes \<Rightarrow> (string, unit) outcome"
  aes_encrypt :: "bytes \<Rightarrow> bytes \<Rightarrow> bytes \<Rightarrow> bytes \<Rightarrow> (string, bytes) outcome"
  aes_decrypt :: "bytes \<Rightarrow> bytes \<Rightarrow> bytes \<Rightarrow> bytes \<Rightarrow> (string, bytes) outcome"
  hkdf_expand :: "bytes \<Rightarrow> bytes \<Rightarrow> bytes \<Rightarrow> nat \<Rightarrow> (string, bytes) outcome"
  hmac_key_check :: "bytes \<Rightarrow> (string, unit) outcome"
  hmac_tag :: "bytes \<Rightarrow> bytes \<Rightarrow> bytes"
  json_header :: "bytes \<Rightarrow> u32 \<Rightarrow> u32 \<Rightarrow> (string, bytes) outcome"

section \<open>The laws\<close>

text \<open>X25519: both parties of an exchange compute the same point; keys and points have 32 bytes.\<close>

definition dh_commutes :: "provider \<Rightarrow> bool" where
  "dh_commutes P \<longleftrightarrow> (\<forall>a b. x_dh P a (x_public P b) = x_dh P b (x_public P a))"

definition x25519_sizes :: "provider \<Rightarrow> bool" where
  "x25519_sizes P \<longleftrightarrow> (\<forall>a. length (x_public P a) = 32) \<and> (\<forall>a p. length (x_dh P a p) = 32)"

text \<open>Ed25519: a signature verifies under the signer's key and has 64 bytes; a key has 32.\<close>

definition ed25519_signs :: "provider \<Rightarrow> bool" where
  "ed25519_signs P \<longleftrightarrow>
     (\<forall>k m. length (ed_sign P k m) = 64 \<and> ed_verify P (ed_public P k) m (ed_sign P k m))"

definition ed25519_keys :: "provider \<Rightarrow> bool" where
  "ed25519_keys P \<longleftrightarrow> (\<forall>k. length (ed_public P k) = 32 \<and> ed_vk_error P (ed_public P k) = None)"

text \<open>
  AES-256-GCM: a 32-byte key is accepted; what was sealed opens under the same key, nonce
  and associated data; sealing succeeds up to the limit \<open>2 ^ 36\<close> of the crate; none of the
  three calls panics.
\<close>

definition aes_accepts_keys :: "provider \<Rightarrow> bool" where
  "aes_accepts_keys P \<longleftrightarrow> (\<forall>k. length k = 32 \<longrightarrow> aes_key_check P k = Ok ())"

definition aes_roundtrip :: "provider \<Rightarrow> bool" where
  "aes_roundtrip P \<longleftrightarrow>
     (\<forall>k n ad m c. aes_encrypt P k n ad m = Ok c \<longrightarrow> aes_decrypt P k n ad c = Ok m)"

definition aes_limit :: nat where
  "aes_limit = 2 ^ 36"

definition aes_seals :: "provider \<Rightarrow> bool" where
  "aes_seals P \<longleftrightarrow>
     (\<forall>k n ad m. length ad \<le> aes_limit \<longrightarrow> length m \<le> aes_limit \<longrightarrow> is_ok (aes_encrypt P k n ad m))"

definition aes_no_panic :: "provider \<Rightarrow> bool" where
  "aes_no_panic P \<longleftrightarrow>
     (\<forall>k. aes_key_check P k \<noteq> Panic) \<and> (\<forall>k n ad m. aes_encrypt P k n ad m \<noteq> Panic) \<and>
     (\<forall>k n ad c. aes_decrypt P k n ad c \<noteq> Panic)"

text \<open>
  HKDF-SHA-256: \<open>expand\<close> fills the buffer for every length up to 255 blocks of 32 bytes and
  fails for a longer one. HMAC-SHA-256: every key is accepted and a tag has 32 bytes.
\<close>

definition hkdf_max :: nat where
  "hkdf_max = 255 * 32"

definition hkdf_total :: "provider \<Rightarrow> bool" where
  "hkdf_total P \<longleftrightarrow>
     (\<forall>salt ikm info n. n \<le> hkdf_max \<longrightarrow>
        (\<exists>okm. hkdf_expand P salt ikm info n = Ok okm \<and> length okm = n))"

definition hkdf_rejects_long :: "provider \<Rightarrow> bool" where
  "hkdf_rejects_long P \<longleftrightarrow>
     (\<forall>salt ikm info n. hkdf_max < n \<longrightarrow> (\<exists>e. hkdf_expand P salt ikm info n = Err e))"

definition hmac_total :: "provider \<Rightarrow> bool" where
  "hmac_total P \<longleftrightarrow> (\<forall>k. hmac_key_check P k = Ok ()) \<and> (\<forall>k d. length (hmac_tag P k d) = 32)"

text \<open>serde_json: a header with a 32-byte key serialises, to fewer than 1024 bytes.\<close>

definition json_header_ok :: "provider \<Rightarrow> bool" where
  "json_header_ok P \<longleftrightarrow>
     (\<forall>k n l. length k = 32 \<longrightarrow> (\<exists>b. json_header P k n l = Ok b \<and> length b < 1024))"

text \<open>What the ratchet needs of its primitives, bundled.\<close>

definition ratchet_laws :: "provider \<Rightarrow> bool" where
  "ratchet_laws P \<longleftrightarrow> dh_commutes P \<and> x25519_sizes P \<and> hkdf_total P \<and> hmac_total P \<and>
     aes_accepts_keys P \<and> aes_roundtrip P \<and> aes_seals P \<and> aes_no_panic P \<and> json_header_ok P"

lemma ratchet_lawsD:
  assumes "ratchet_laws P"
  shows "dh_commutes P" "x25519_sizes P" "hkdf_total P" "hmac_total P" "aes_accepts_keys P"
    "aes_roundtrip P" "aes_seals P" "aes_no_panic P" "json_header_ok P"
  using assms by (auto simp: ratchet_laws_def)

lemma x_public_length [length_simps]: "x25519_sizes P \<Longrightarrow> length (x_public P a) = 32"
  by (simp add: x25519_sizes_def)

lemma x_dh_length [length_simps]: "x25519_sizes P \<Longrightarrow> length (x_dh P a p) = 32"
  by (simp add: x25519_sizes_def)

lemma hkdf_expand_Ok:
  assumes "hkdf_total P" and "n \<le> hkdf_max"
  obtains okm where "hkdf_expand P salt ikm info n = Ok okm" and "length okm = n"
  using assms unfolding hkdf_total_def by blast

section \<open>A concrete provider\<close>

text \<open>
  A secret is its own public key and two keys are combined byte by byte with addition,
  which commutes. A ciphertext is the nonce, the associated data and the message behind
  the key, and opening it compares everything but the message; a tag or a derived key
  starts with the input it was derived from.
\<close>

definition pad_to :: "nat \<Rightarrow> bytes \<Rightarrow> bytes" where
  "pad_to n b = take n (b @ replicate n 0)"

lemma length_pad_to [simp]: "length (pad_to n b) = n"
  by (simp add: pad_to_def)

definition demo_provider :: provider where
  "demo_provider = \<lparr>
     x_public = pad_to 32,
     x_dh = (\<lambda>a p. map2 (+) (pad_to 32 a) (pad_to 32 p)),
     ed_public = pad_to 32,
     ed_sign = (\<lambda>k m. pad_to 64 (pad_to 32 k @ m)),
     ed_verify = (\<lambda>vk m s. s = pad_to 64 (pad_to 32 vk @ m)),
     ed_vk_error = (\<lambda>b. None),
     aes_key_check = (\<lambda>k. if length k = 32 then Ok () else Err ''Invalid Length''),
     aes_encrypt = (\<lambda>k n ad m. if aes_limit < length ad \<or> aes_limit < length m
                               then Err ''aead::Error'' else Ok ((k @ n @ ad) @ m)),
     aes_decrypt = (\<lambda>k n ad c. if take (length (k @ n @ ad)) c = k @ n @ ad
                               then Ok (drop (length (k @ n @ ad)) c) else Err ''aead::Error''),
     hkdf_expand = (\<lambda>salt ikm info n. if hkdf_max < n then Err ''invalid number of blocks''
                                      else Ok (pad_to n (ikm @ salt @ info))),
     hmac_key_check = (\<lambda>k. Ok ()),
     hmac_tag = (\<lambda>k d. pad_to 32 (d @ k)),
     json_header = (\<lambda>k n l. if length k = 32 then Ok (k @ [ucast n, ucast l]) else Ok k)\<rparr>"

lemma map2_plus_commute: "map2 (+) (xs :: bytes) ys = map2 (+) ys xs"
  by (induction xs ys rule: list_induct2') (auto simp: add.commute)

lemma pad_to_idem [simp]: "pad_to n (pad_to n b) = pad_to n b"
  by (simp add: pad_to_def)

lemma demo_ratchet_laws: "ratchet_laws demo_provider"
  unfolding ratchet_laws_def
proof (intro conjI)
  show "dh_commutes demo_provider"
    by (simp add: dh_commutes_def demo_provider_def map2_plus_commute)
  show "x25519_sizes demo_provider"
    by (simp add: x25519_sizes_def demo_provider_def)
  show "hkdf_total demo_provider"
    by (simp add: hkdf_total_def demo_provider_def)
  show "hmac_total demo_provider"
    by (simp add: hmac_total_def demo_provider_def)
  show "aes_accepts_keys demo_provider"
    by (simp add: aes_accepts_keys_def demo_provider_def)
  show "aes_roundtrip demo_provider"
    by (auto simp: aes_roundtrip_def demo_provider_def split: if_splits)
  show "aes_seals demo_provider"
    by (simp add: aes_seals_def demo_provider_def)
  show "aes_no_panic demo_provider"
    by (simp add: aes_no_panic_def demo_provider_def)
  show "json_header_ok demo_provider"
    by (simp add: json_header_ok_def demo_provider_def)
qed

lemma demo_ed25519_laws: "ed25519_signs demo_provider" "ed25519_keys demo_provider"
  by (simp_all add: ed25519_signs_def ed25519_keys_def demo_provider_def)

lemma demo_hkdf_rejects_long: "hkdf_rejects_long demo_provider"
  by (simp add: hkdf_rejects_long_def demo_provider_def)

end
