(* ===== verification/Kdf.thy ===== *)
theory Kdf
  imports Primitives
begin

text \<open>
  Key derivation (\<open>src/kdf/mod.rs\<close>): HKDF-SHA-256 with an output length, and the two
  HMAC-SHA-256 calls that advance a symmetric chain.
\<close>

definition derive :: "provider \<Rightarrow> bytes \<Rightarrow> bytes \<Rightarrow> bytes \<Rightarrow> nat \<Rightarrow> bytes result" where
  "derive P ikm salt info len =
     map_err (\<lambda>e. KeyGeneration (''HKDF expand failed: '' @ e)) (hkdf_expand P salt ikm info len)"

definition hmac_sha256 :: "provider \<Rightarrow> bytes \<Rightarrow> bytes \<Rightarrow> bytes result" where
  "hmac_sha256 P key data =
     and_then (map_err (\<lambda>e. KeyGeneration (''HMAC key error: '' @ e)) (hmac_key_check P key))
       (\<lambda>_. Ok (hmac_tag P key data))"

definition derive_chain_and_message_key :: "provider \<Rightarrow> bytes \<Rightarrow> (bytes \<times> bytes) result" where
  "derive_chain_and_message_key P chain_key =
     and_then (hmac_sha256 P chain_key [1]) (\<lambda>new_chain_key.
     and_then (hmac_sha256 P chain_key [2]) (\<lambda>message_key.
     Ok (new_chain_key, message_key)))"

lemma derive_Ok:
  assumes "hkdf_total P" and "n \<le> hkdf_max"
  shows "\<exists>okm. derive P ikm salt info n = Ok okm \<and> length okm = n"
proof -
  from assms obtain okm where "hkdf_expand P salt ikm info n = Ok okm" "length okm = n"
    by (rule hkdf_expand_Ok)
  then show ?thesis by (simp add: derive_def)
qed

lemma hmac_sha256_total: "hmac_total P \<Longrightarrow> hmac_sha256 P k d = Ok (hmac_tag P k d)"
  by (simp add: hmac_sha256_def hmac_total_def)

lemma derive_chain_total:
  "hmac_total P \<Longrightarrow> derive_chain_and_message_key P k = Ok (hmac_tag P k [1], hmac_tag P k [2])"
  by (simp add: derive_chain_and_message_key_def hmac_sha256_total)

lemma hmac_tag_length [length_simps]: "hmac_total P \<Longrightarrow> length (hmac_tag P k d) = 32"
  by (simp add: hmac_total_def)

section \<open>Properties\<close>

text \<open>
  \<open>derive\<close> returns exactly as many bytes as were asked for, for every length up to 255 blocks
  of 32 bytes, and an error of the key-generation kind for every longer one.
\<close>
theorem derive_length:
  assumes "hkdf_total P" and "hkdf_rejects_long P"
  shows "if len \<le> 8160 then \<exists>okm. derive P ikm salt info len = Ok okm \<and> length okm = len
    else \<exists>e. derive P ikm salt info len = Err (KeyGeneration (''HKDF expand failed: '' @ e))"
proof (cases "len \<le> 8160")
  case True
  then have "len \<le> hkdf_max" by (simp add: hkdf_max_def)
  with True derive_Ok [OF assms(1)] show ?thesis by simp
next
  case False
  then have "hkdf_max < len" by (simp add: hkdf_max_def)
  with assms(2) obtain e where "hkdf_expand P salt ikm info len = Err e"
    unfolding hkdf_rejects_long_def by blast
  with False show ?thesis by (simp add: derive_def)
qed

lemma derive_length_witness:
  "(\<exists>okm. derive demo_provider [1, 2] [3] [4] 64 = Ok okm \<and> length okm = 64) \<and>
   (\<exists>e. derive demo_provider [1, 2] [3] [4] 8161 = Err (KeyGeneration (''HKDF expand failed: '' @ e)))"
proof -
  note d = derive_length [OF ratchet_lawsD(3) [OF demo_ratchet_laws] demo_hkdf_rejects_long]
  from d [of 64 "[1, 2]" "[3]" "[4]"] d [of 8161 "[1, 2]" "[3]" "[4]"] show ?thesis by simp
qed

end
