(* ===== verification/Aead.thy ===== *)
theory Aead
  imports Primitives
begin

text \<open>
  Authenticated encryption (\<open>src/aead/mod.rs\<close>): AES-256-GCM under a random 12-byte nonce.
  \<open>Nonce::from_slice\<close> panics on a slice that has not 12 bytes, so \<open>aead_decrypt\<close> has a
  panicking branch: the nonce comes with the message and nothing checks its length before.
\<close>

record encrypted =
  nonce :: bytes
  ciphertext :: bytes

definition aead_encrypt ::
  "provider \<Rightarrow> bytes \<Rightarrow> bytes \<Rightarrow> bytes \<Rightarrow> rng \<Rightarrow> encrypted result \<times> rng"
where
  "aead_encrypt P key plaintext ad r =
     and_then_st (map_err (\<lambda>e. Encryption (''Invalid key: '' @ e)) (aes_key_check P key), r) (\<lambda>_ r.
       let (n, r') = draw_bytes 12 r in
       and_then_st
         (map_err (\<lambda>e. Encryption (''Encryption failed: '' @ e)) (aes_encrypt P key n ad plaintext), r')
         (\<lambda>c r'. (Ok \<lparr>nonce = n, ciphertext = c\<rparr>, r')))"

definition aead_decrypt :: "provider \<Rightarrow> bytes \<Rightarrow> encrypted \<Rightarrow> bytes \<Rightarrow> bytes result" where
  "aead_decrypt P key enc ad =
     and_then (map_err (\<lambda>e. Decryption (''Invalid key: '' @ e)) (aes_key_check P key)) (\<lambda>_.
       if length (nonce enc) \<noteq> 12 then Panic
       else map_err (\<lambda>e. Decryption (''Decryption failed: '' @ e))
              (aes_decrypt P key (nonce enc) ad (ciphertext enc)))"

lemma aead_encrypt_Ok_iff:
  "aead_encrypt P k m ad r = (Ok e, r') \<longleftrightarrow>
     aes_key_check P k = Ok () \<and> nonce e = map r [0..<12] \<and> r' = (\<lambda>i. r (12 + i)) \<and>
     aes_encrypt P k (nonce e) ad m = Ok (ciphertext e)"
  unfolding aead_encrypt_def draw_bytes_def
  by (cases e) (auto simp: outcome_simps)

lemma aead_encrypt_total:
  assumes "aes_accepts_keys P" "aes_seals P"
    and "length k = 32" "length ad \<le> aes_limit" "length m \<le> aes_limit"
  shows "\<exists>e r'. aead_encrypt P k m ad r = (Ok e, r')"
proof -
  from assms obtain c where "aes_encrypt P k (map r [0..<12]) ad m = Ok c"
    unfolding aes_seals_def is_ok_iff by blast
  moreover have "aes_key_check P k = Ok ()"
    using assms by (simp add: aes_accepts_keys_def)
  ultimately show ?thesis
    by (simp add: aead_encrypt_def draw_bytes_def)
qed

lemma aead_opens_sealed:
  assumes "aes_roundtrip P" and "aead_encrypt P k m ad r = (Ok e, r')"
  shows "aead_decrypt P k e ad = Ok m" and "length (nonce e) = 12"
  using assms by (auto simp: aead_encrypt_Ok_iff aead_decrypt_def aes_roundtrip_def)

text \<open>Decryption panics for no reason but the length of the nonce.\<close>

lemma aead_decrypt_Panic_iff:
  assumes "aes_accepts_keys P" "aes_no_panic P" "length k = 32"
  shows "aead_decrypt P k e ad = Panic \<longleftrightarrow> length (nonce e) \<noteq> 12"
  using assms by (auto simp: aead_decrypt_def aes_accepts_keys_def aes_no_panic_def outcome_simps)

section \<open>Properties\<close>

text \<open>
  Under a 32-byte key every plaintext and associated data within the limits of AES-GCM is
  sealed, under twelve fresh bytes as nonce, and opening the result with the same key and
  associated data returns the plaintext.
\<close>
theorem aead_roundtrip:
  assumes "aes_accepts_keys P" and "aes_seals P" and "aes_roundtrip P"
    and "length k = 32" and "length ad \<le> aes_limit" and "length m \<le> aes_limit"
  shows "\<exists>e. aead_encrypt P k m ad r = (Ok e, \<lambda>i. r (12 + i)) \<and> nonce e = map r [0..<12] \<and>
    aead_decrypt P k e ad = Ok m"
proof -
  from aead_encrypt_total [OF assms(1,2,4-6)] obtain e r' where
    run: "aead_encrypt P k m ad r = (Ok e, r')" by blast
  with aead_opens_sealed(1) [OF assms(3) run] show ?thesis
    by (auto simp: aead_encrypt_Ok_iff)
qed

lemma aead_roundtrip_witness:
  "\<exists>e. fst (aead_encrypt demo_provider (replicate 32 7) [1, 2, 3] [4] (\<lambda>i. of_nat i)) = Ok e \<and>
     aead_decrypt demo_provider (replicate 32 7) e [4] = Ok [1, 2, 3]"
proof -
  note l = ratchet_lawsD [OF demo_ratchet_laws]
  from aead_roundtrip [OF l(5,7,6), of "replicate 32 7" "[4]" "[1, 2, 3]" "\<lambda>i. of_nat i"]
  show ?thesis by (auto simp: aes_limit_def)
qed

text \<open>
  Under an accepted key, decryption panics on every nonce that has not exactly 12 bytes,
  although its signature promises an error value.
\<close>
theorem aead_bad_nonce_panics:
  assumes "aes_accepts_keys P" and "length k = 32" and "length (nonce e) \<noteq> 12"
  shows "aead_decrypt P k e ad = Panic"
  using assms by (simp add: aead_decrypt_def aes_accepts_keys_def)

lemma aead_bad_nonce_panics_witness:
  "aead_decrypt demo_provider (replicate 32 7) \<lparr>nonce = [1, 2, 3], ciphertext = []\<rparr> [] = Panic"
  by (rule aead_bad_nonce_panics [OF ratchet_lawsD(5) [OF demo_ratchet_laws]]) simp_all

end
