(* ===== verification/Interfaces.thy ===== *)
theory Interfaces
  imports Prelude
begin

text \<open>
  The interfaces between the parts of the program, as locales: a component whose operations
  keep an invariant, a pair of algorithms that agree on a secret, a codec, and a store of
  values under numeric handles. Each is interpreted on the definitions of the component that
  provides it, in that component's theory.
\<close>

section \<open>Runs of a component\<close>

text \<open>The states and results of a sequence of calls, each made on the state the last one left.\<close>

fun run_calls :: "('op \<Rightarrow> 's \<Rightarrow> 'r \<times> 's) \<Rightarrow> 'op list \<Rightarrow> 's \<Rightarrow> 'r list \<times> 's" where
  "run_calls f [] s = ([], s)"
| "run_calls f (x # xs) s = (let (r, s') = f x s; (rs, s'') = run_calls f xs s' in (r # rs, s''))"

lemma run_calls_append:
  "run_calls f (xs @ ys) s =
     (let (rs, s') = run_calls f xs s; (rs', s'') = run_calls f ys s' in (rs @ rs', s''))"
  by (induction xs arbitrary: s) (simp_all add: Let_def case_prod_beta)

locale component =
  fixes call :: "'op \<Rightarrow> 's \<Rightarrow> 'r \<times> 's"
    and inv :: "'s \<Rightarrow> bool"
  assumes call_inv: "inv s \<Longrightarrow> call x s = (r, s') \<Longrightarrow> inv s'"
begin

lemma run_inv: "inv s \<Longrightarrow> run_calls call xs s = (rs, s') \<Longrightarrow> inv s'"
proof (induction xs arbitrary: s rs)
  case (Cons x xs)
  obtain r t where "call x s = (r, t)" by fastforce
  moreover from Cons.prems(1) this have "inv t" by (rule call_inv)
  ultimately show ?case using Cons.IH Cons.prems(2) by (auto simp: Let_def split: prod.splits)
qed simp

end

text \<open>A component whose calls raise some measure by at most one: a bound after \<open>n\<close> calls.\<close>

locale metered_component = component +
  fixes size_of :: "'s \<Rightarrow> nat" and base :: nat
  assumes call_grows: "inv s \<Longrightarrow> call x s = (r, s') \<Longrightarrow> size_of s' \<le> max base (Suc (size_of s))"
begin

lemma run_bounded:
  "inv s \<Longrightarrow> size_of s + 1 \<le> base \<Longrightarrow> run_calls call xs s = (rs, s') \<Longrightarrow>
     size_of s' + 1 \<le> base + length xs"
proof (induction xs arbitrary: rs s' rule: rev_induct)
  case (snoc x xs)
  obtain rs1 t where t: "run_calls call xs s = (rs1, t)" by fastforce
  then have "size_of t + 1 \<le> base + length xs" "inv t"
    using snoc run_inv by blast+
  moreover obtain r where "call x t = (r, s')"
    using snoc.prems(3) t by (auto simp: run_calls_append Let_def split: prod.splits)
  ultimately have "size_of s' \<le> max base (Suc (size_of t))"
    by (intro call_grows)
  with \<open>size_of t + 1 \<le> base + length xs\<close> show ?case by simp
qed simp

end

section \<open>Two components with the same behaviour\<close>

text \<open>
  Corresponding calls made in corresponding states give corresponding results and leave
  corresponding states; then so do corresponding sequences of calls.
\<close>

locale simulation =
  fixes call1 :: "'op1 \<Rightarrow> 's1 \<Rightarrow> 'r1 \<times> 's1" and call2 :: "'op2 \<Rightarrow> 's2 \<Rightarrow> 'r2 \<times> 's2"
    and ops :: "'op1 \<Rightarrow> 'op2 \<Rightarrow> bool" and replies :: "'r1 \<Rightarrow> 'r2 \<Rightarrow> bool" and states :: "'s1 \<Rightarrow> 's2 \<Rightarrow> bool"
  assumes simulates: "ops x y \<Longrightarrow> states s t \<Longrightarrow> call1 x s = (p, s') \<Longrightarrow> call2 y t = (q, t') \<Longrightarrow>
    replies p q \<and> states s' t'"
begin

lemma run_simulates:
  "list_all2 ops xs ys \<Longrightarrow> states s t \<Longrightarrow> run_calls call1 xs s = (ps, s') \<Longrightarrow>
     run_calls call2 ys t = (qs, t') \<Longrightarrow> list_all2 replies ps qs \<and> states s' t'"
proof (induction xs ys arbitrary: s t ps qs rule: list_all2_induct)
  case (Cons x xs y ys)
  obtain p u where p: "call1 x s = (p, u)" by (cases "call1 x s")
  obtain q v where q: "call2 y t = (q, v)" by (cases "call2 y t")
  from simulates [OF Cons.hyps(1) Cons.prems(1) p q] have "replies p q" "states u v" by simp_all
  with Cons.IH [OF this(2)] Cons.prems(2,3) p q show ?case
    by (auto simp: Let_def split: prod.splits)
qed simp

end

section \<open>Agreement on a secret\<close>

text \<open>
  \<open>offer\<close> is what the initiator computes, a secret and the message for the other party;
  \<open>accept\<close> is what the responder makes of that message; \<open>ok\<close> says which secret material
  belongs to which public material.
\<close>

locale agreement =
  fixes ok :: "'priv \<Rightarrow> 'pub \<Rightarrow> bool" and good :: "'seed \<Rightarrow> bool"
    and offer :: "'pub \<Rightarrow> 'seed \<Rightarrow> 'secret \<times> 'msg"
    and accept :: "'priv \<Rightarrow> 'msg \<Rightarrow> 'secret"
  assumes agree: "ok k p \<Longrightarrow> good r \<Longrightarrow> offer p r = (s, m) \<Longrightarrow> accept k m = s"
begin

text \<open>Offers made to one holder: every one is understood, whatever the others were.\<close>

lemma all_agree:
  "ok k p \<Longrightarrow> list_all good rs \<Longrightarrow>
     map (\<lambda>r. accept k (snd (offer p r))) rs = map (\<lambda>r. fst (offer p r)) rs"
proof (induction rs)
  case (Cons r rs)
  obtain s m where "offer p r = (s, m)" by fastforce
  with Cons agree [of k p r s m] show ?case by simp
qed simp

text \<open>The message and the holder's secret material determine the secret.\<close>

lemma secret_determined:
  assumes "ok k p" "ok k p'" "good r" "good r'" "offer p r = (s, m)" "offer p' r' = (s', m)"
  shows "s = s'"
  using agree [OF assms(1,3,5)] agree [OF assms(2,4,6)] by simp

end

section \<open>Codecs\<close>

locale codec =
  fixes enc :: "'a \<Rightarrow> 'b" and dec :: "'b \<Rightarrow> 'a option" and good :: "'a \<Rightarrow> bool"
  assumes dec_enc: "good x \<Longrightarrow> dec (enc x) = Some x"
begin

lemma enc_inject: "good x \<Longrightarrow> good y \<Longrightarrow> enc x = enc y \<longleftrightarrow> x = y"
  by (metis dec_enc option.inject)

lemma dec_all: "list_all good xs \<Longrightarrow> map (\<lambda>x. dec (enc x)) xs = map Some xs"
  by (induction xs) (simp_all add: dec_enc)

end

text \<open>The decimal text of a number is a codec: \<open>format!\<close> tells any two numbers apart.\<close>

interpretation decimal: codec show_nat "\<lambda>s. Some (read_nat s)" "\<lambda>_. True"
  by unfold_locales (simp add: read_show_nat)

section \<open>A store of values under handles\<close>

text \<open>
  \<open>insert_new\<close> returns the handle under which it put the value, \<open>get\<close> and \<open>put\<close> read and
  replace, \<open>delete\<close> removes; \<open>full\<close> says that the next handle is already taken, which
  happens when the counter has wrapped around.
\<close>

locale handle_store =
  fixes insert_new :: "'v \<Rightarrow> 'st \<Rightarrow> u32 \<times> 'st"
    and get :: "u32 \<Rightarrow> 'st \<Rightarrow> 'v option"
    and put :: "u32 \<Rightarrow> 'v \<Rightarrow> 'st \<Rightarrow> 'st"
    and delete :: "u32 \<Rightarrow> 'st \<Rightarrow> 'st"
    and full :: "'st \<Rightarrow> bool"
  assumes get_insert: "insert_new v st = (i, st') \<Longrightarrow> get j st' = (if j = i then Some v else get j st)"
    and insert_fresh: "insert_new v st = (i, st') \<Longrightarrow> \<not> full st \<Longrightarrow> get i st = None"
    and get_put: "get j (put i v st) = (if j = i then Some v else get j st)"
    and get_delete: "get j (delete i st) = (if j = i then None else get j st)"
begin

lemma insert_keeps:
  "insert_new v st = (i, st') \<Longrightarrow> \<not> full st \<Longrightarrow> get j st = Some w \<Longrightarrow> get j st' = Some w"
  using get_insert insert_fresh by fastforce

lemma put_other: "i \<noteq> j \<Longrightarrow> get j (put i v st) = get j st"
  by (simp add: get_put)

lemma delete_other: "i \<noteq> j \<Longrightarrow> get j (delete i st) = get j st"
  by (simp add: get_delete)

lemma insert_delete:
  "insert_new v st = (i, st') \<Longrightarrow> \<not> full st \<Longrightarrow> get j (delete i st') = get j st"
  using get_insert insert_fresh by (simp add: get_delete)

end

end
