(* ===== verification/Ratchet_Parts.thy ===== *)
theory Ratchet_Parts
  imports Kdf Aead Interfaces
begin

text \<open>
  The parts of the Double Ratchet: the symmetric chain (\<open>src/ratchet/chain.rs\<close>), the
  Diffie-Hellman step (\<open>src/ratchet/dh_ratchet.rs\<close>) and the message header
  (\<open>src/ratchet/header.rs\<close>). The chain index is a \<open>u32\<close> whose \<open>+= 1\<close> wraps, as it does
  in the release profile the crate ships (\<open>Cargo.toml\<close> does not turn overflow checks on).
\<close>

section \<open>The symmetric chain\<close>

record ChainKey =
  ck_key :: bytes
  ck_index :: u32

definition chain_new :: "bytes \<Rightarrow> u32 \<Rightarrow> ChainKey" where
  "chain_new key index = \<lparr>ck_key = key, ck_index = index\<rparr>"

text \<open>Returns the message key and the advanced chain; on an error the chain stays as it was.\<close>

definition chain_advance :: "provider \<Rightarrow> ChainKey \<Rightarrow> bytes result \<times> ChainKey" where
  "chain_advance P c =
     and_then_st (derive_chain_and_message_key P (ck_key c), c) (\<lambda>(new_chain_key, message_key) c.
       (Ok message_key, \<lparr>ck_key = new_chain_key, ck_index = ck_index c + 1\<rparr>))"

lemma chain_advance_index:
  "chain_advance P c = (Ok mk, c') \<Longrightarrow> ck_index c' = ck_index c + 1"
  by (auto simp: chain_advance_def outcome_simps)

lemma chain_advance_error: "chain_advance P c = (x, c') \<Longrightarrow> \<not> is_ok x \<Longrightarrow> c' = c"
  by (cases "derive_chain_and_message_key P (ck_key c)") (auto simp: chain_advance_def)

lemma chain_advance_total:
  "hmac_total P \<Longrightarrow> chain_advance P c =
     (Ok (hmac_tag P (ck_key c) [2]), \<lparr>ck_key = hmac_tag P (ck_key c) [1], ck_index = ck_index c + 1\<rparr>)"
  by (simp add: chain_advance_def derive_chain_total)

text \<open>
  The closed form of the chain: \<open>chain_key P k n\<close> is the chain key after \<open>n\<close> advances from
  \<open>k\<close>, and \<open>message_key P k n\<close> the key of the message with number \<open>n\<close>.
\<close>

fun chain_key :: "provider \<Rightarrow> bytes \<Rightarrow> nat \<Rightarrow> bytes" where
  "chain_key P k 0 = k"
| "chain_key P k (Suc n) = hmac_tag P (chain_key P k n) [1]"

definition message_key :: "provider \<Rightarrow> bytes \<Rightarrow> nat \<Rightarrow> bytes" where
  "message_key P k n = hmac_tag P (chain_key P k n) [2]"

lemma chain_key_add: "chain_key P (chain_key P k m) n = chain_key P k (m + n)"
  by (induction n) simp_all

lemma message_key_shift: "message_key P (chain_key P k m) n = message_key P k (m + n)"
  by (simp add: message_key_def chain_key_add)

lemma message_key_length [length_simps]: "hmac_total P \<Longrightarrow> length (message_key P k n) = 32"
  by (simp add: message_key_def length_simps)

section \<open>The Diffie-Hellman step\<close>

definition RATCHET_INFO :: bytes where
  "RATCHET_INFO = map of_char ''GhostCrypt_Ratchet''"

text \<open>The two slices \<open>[..32]\<close> and \<open>[32..]\<close> panic when fewer than 32 bytes were derived.\<close>

definition dh_ratchet_step :: "provider \<Rightarrow> bytes \<Rightarrow> bytes \<Rightarrow> (bytes \<times> bytes) result" where
  "dh_ratchet_step P root_key dh_output =
     and_then (derive P dh_output root_key RATCHET_INFO 64) (\<lambda>derived.
       if length derived < 32 then Panic else Ok (take 32 derived, drop 32 derived))"

definition generate_dh_keypair :: "provider \<Rightarrow> rng \<Rightarrow> (bytes \<times> bytes) \<times> rng" where
  "generate_dh_keypair P r = (let (secret, r') = draw_bytes 32 r in ((secret, x_public P secret), r'))"

definition dh :: "provider \<Rightarrow> bytes \<Rightarrow> bytes \<Rightarrow> bytes" where
  "dh P our_secret their_public = x_dh P our_secret their_public"

text \<open>The step as a total function, for a provider whose HKDF does not fail.\<close>

definition root_step :: "provider \<Rightarrow> bytes \<Rightarrow> bytes \<Rightarrow> bytes \<times> bytes" where
  "root_step P rk out =
     (case dh_ratchet_step P rk out of Ok p \<Rightarrow> p | Err _ \<Rightarrow> ([], []) | Panic \<Rightarrow> ([], []))"

lemma dh_ratchet_step_total:
  assumes "hkdf_total P"
  shows "dh_ratchet_step P rk out = Ok (root_step P rk out)"
    and "length (fst (root_step P rk out)) = 32" and "length (snd (root_step P rk out)) = 32"
proof -
  have "64 \<le> hkdf_max" by (simp add: hkdf_max_def)
  with assms obtain okm where "derive P out rk RATCHET_INFO 64 = Ok okm" "length okm = 64"
    using derive_Ok by blast
  then show "dh_ratchet_step P rk out = Ok (root_step P rk out)"
    and "length (fst (root_step P rk out)) = 32" and "length (snd (root_step P rk out)) = 32"
    by (simp_all add: root_step_def dh_ratchet_step_def)
qed

section \<open>The header\<close>

record MessageHeader =
  mh_dh_public_key :: bytes
  mh_message_number :: u32
  mh_previous_chain_length :: u32

definition header_new :: "bytes \<Rightarrow> u32 \<Rightarrow> u32 \<Rightarrow> MessageHeader" where
  "header_new dh_key msg_num prev_chain_len =
     \<lparr>mh_dh_public_key = dh_key, mh_message_number = msg_num,
      mh_previous_chain_length = prev_chain_len\<rparr>"

text \<open>\<open>copy_from_slice\<close> into a 32-byte array panics on a slice of another length.\<close>

definition header_to_public_key :: "MessageHeader \<Rightarrow> ('e, bytes) outcome" where
  "header_to_public_key h =
     (if length (mh_dh_public_key h) \<noteq> 32 then Panic else Ok (mh_dh_public_key h))"

text \<open>\<open>serde_json::to_vec(self).unwrap_or_default()\<close>: an error becomes the empty vector.\<close>

definition header_to_bytes :: "provider \<Rightarrow> MessageHeader \<Rightarrow> bytes" where
  "header_to_bytes P h =
     (case json_header P (mh_dh_public_key h) (mh_message_number h) (mh_previous_chain_length h) of
        Ok b \<Rightarrow> b | Err _ \<Rightarrow> [] | Panic \<Rightarrow> [])"

lemma header_new_simps [simp]:
  "mh_dh_public_key (header_new k n l) = k"
  "mh_message_number (header_new k n l) = n"
  "mh_previous_chain_length (header_new k n l) = l"
  by (simp_all add: header_new_def)

lemma header_bytes_bounded:
  assumes "json_header_ok P" and "length (mh_dh_public_key h) = 32"
  shows "length (header_to_bytes P h) \<le> aes_limit"
proof -
  from assms obtain b where
    "json_header P (mh_dh_public_key h) (mh_message_number h) (mh_previous_chain_length h) = Ok b"
    "length b < 1024"
    unfolding json_header_ok_def by blast
  then show ?thesis by (simp add: header_to_bytes_def aes_limit_def)
qed

section \<open>Properties\<close>

text \<open>
  Advancing a chain \<open>n\<close> times returns the \<open>n\<close> message keys of its closed form in order, leaves
  the chain key after \<open>n\<close> steps, and adds \<open>n\<close> to the index modulo \<open>2 ^ 32\<close>.
\<close>
theorem chain_advances:
  assumes "hmac_total P"
  shows "run_calls (\<lambda>_. chain_advance P) (replicate n ()) c =
    (map (\<lambda>i. Ok (message_key P (ck_key c) i)) [0..<n],
     \<lparr>ck_key = chain_key P (ck_key c) n, ck_index = ck_index c + of_nat n\<rparr>)"
proof (induction n arbitrary: c)
  case (Suc n)
  define c1 where "c1 = \<lparr>ck_key = hmac_tag P (ck_key c) [1], ck_index = ck_index c + 1\<rparr>"
  have adv: "chain_advance P c = (Ok (message_key P (ck_key c) 0), c1)"
    using assms by (simp add: chain_advance_total c1_def message_key_def)
  have "message_key P (ck_key c1) i = message_key P (ck_key c) (Suc i)" for i
    using message_key_shift [of P "ck_key c" 1 i] by (simp add: c1_def)
  moreover have "chain_key P (ck_key c1) n = chain_key P (ck_key c) (Suc n)"
    using chain_key_add [of P "ck_key c" 1 n] by (simp add: c1_def)
  moreover have "[0..<Suc n] = 0 # map Suc [0..<n]"
    by (metis map_Suc_upt upt_conv_Cons zero_less_Suc)
  moreover have "ck_index c1 + of_nat n = ck_index c + of_nat (Suc n)"
    by (simp add: c1_def)
  ultimately show ?case
    by (simp add: Suc.IH adv o_def del: upt_Suc chain_key.simps(2) of_nat_Suc)
qed simp

lemma chain_advances_witness:
  "snd (run_calls (\<lambda>_. chain_advance demo_provider) (replicate 5 ()) (chain_new (replicate 32 1) 4294967294)) =
     \<lparr>ck_key = chain_key demo_provider (replicate 32 1) 5, ck_index = 3\<rparr>"
  using chain_advances [OF ratchet_lawsD(4) [OF demo_ratchet_laws], of 5 "chain_new (replicate 32 1) 4294967294"]
  by (simp add: chain_new_def del: chain_key.simps)

end
