(* ===== verification/Identity.thy ===== *)
theory Identity
  imports Primitives
begin

text \<open>
  Identity keys, signed pre-keys and one-time pre-keys (\<open>src/identity/keys.rs\<close>). A
  \<open>StaticSecret\<close> is built from its seed and remembers nothing else, so the record holds the
  32 seed bytes twice as the Rust struct does; a \<open>SigningKey\<close> is its 32 seed bytes.
\<close>

section \<open>Identity key pairs\<close>

record IdentityKeyPair =
  ik_secret_seed :: bytes
  ik_x25519_secret :: bytes
  ik_x25519_public :: bytes
  ik_signing_key :: bytes

definition ik_generate :: "provider \<Rightarrow> rng \<Rightarrow> IdentityKeyPair \<times> rng" where
  "ik_generate P r =
     (let (seed, r1) = draw_bytes 32 r; (sk, r2) = draw_bytes 32 r1 in
      (\<lparr>ik_secret_seed = seed, ik_x25519_secret = seed, ik_x25519_public = x_public P seed,
        ik_signing_key = sk\<rparr>, r2))"

definition ik_secret_bytes :: "IdentityKeyPair \<Rightarrow> bytes" where
  "ik_secret_bytes k = ik_secret_seed k"

definition ik_signing_secret_bytes :: "IdentityKeyPair \<Rightarrow> bytes" where
  "ik_signing_secret_bytes k = ik_signing_key k"

definition ik_from_bytes :: "provider \<Rightarrow> bytes \<Rightarrow> bytes \<Rightarrow> IdentityKeyPair result" where
  "ik_from_bytes P identity_secret signing_secret =
     (if length identity_secret \<noteq> 32 then
        Err (InvalidKey (''identity secret must be 32 bytes, got '' @ show_nat (length identity_secret)))
      else if length signing_secret \<noteq> 32 then
        Err (InvalidKey (''signing secret must be 32 bytes, got '' @ show_nat (length signing_secret)))
      else Ok \<lparr>ik_secret_seed = identity_secret, ik_x25519_secret = identity_secret,
               ik_x25519_public = x_public P identity_secret, ik_signing_key = signing_secret\<rparr>)"

definition ik_verifying_key :: "provider \<Rightarrow> IdentityKeyPair \<Rightarrow> bytes" where
  "ik_verifying_key P k = ed_public P (ik_signing_key k)"

definition ik_dh :: "provider \<Rightarrow> IdentityKeyPair \<Rightarrow> bytes \<Rightarrow> bytes" where
  "ik_dh P k their_public = x_dh P (ik_x25519_secret k) their_public"

definition ik_sign :: "provider \<Rightarrow> IdentityKeyPair \<Rightarrow> bytes \<Rightarrow> bytes" where
  "ik_sign P k message = ed_sign P (ik_signing_key k) message"

definition ik_verify :: "provider \<Rightarrow> bytes \<Rightarrow> bytes \<Rightarrow> bytes \<Rightarrow> bool" where
  "ik_verify P verifying_key message signature =
     (if length signature \<noteq> 64 then False else ed_verify P verifying_key message signature)"

text \<open>What every operation above establishes: the four fields belong together.\<close>

definition ik_wf :: "provider \<Rightarrow> IdentityKeyPair \<Rightarrow> bool" where
  "ik_wf P k \<longleftrightarrow> length (ik_secret_seed k) = 32 \<and> length (ik_signing_key k) = 32 \<and>
     ik_x25519_secret k = ik_secret_seed k \<and> ik_x25519_public k = x_public P (ik_secret_seed k)"

lemma ik_generate_wf: "ik_generate P r = (k, r') \<Longrightarrow> ik_wf P k"
  by (auto simp: ik_generate_def ik_wf_def draw_bytes_def)

lemma ik_from_bytes_wf: "ik_from_bytes P a b = Ok k \<Longrightarrow> ik_wf P k"
  by (auto simp: ik_from_bytes_def ik_wf_def split: if_splits)

section \<open>Signed pre-keys\<close>

record SignedPreKey =
  spk_secret_seed :: bytes
  spk_x25519_secret :: bytes
  spk_x25519_public :: bytes
  spk_signature :: bytes

definition spk_generate :: "provider \<Rightarrow> IdentityKeyPair \<Rightarrow> rng \<Rightarrow> SignedPreKey \<times> rng" where
  "spk_generate P identity r =
     (let (seed, r') = draw_bytes 32 r; pub = x_public P seed in
      (\<lparr>spk_secret_seed = seed, spk_x25519_secret = seed, spk_x25519_public = pub,
        spk_signature = ik_sign P identity pub\<rparr>, r'))"

text \<open>The public key is taken as given: it is not compared with the secret it comes with.\<close>

definition spk_from_bytes :: "bytes \<Rightarrow> bytes \<Rightarrow> bytes \<Rightarrow> SignedPreKey result" where
  "spk_from_bytes secret public signature =
     (if length secret \<noteq> 32 then
        Err (InvalidKey (''secret must be 32 bytes, got '' @ show_nat (length secret)))
      else if length public \<noteq> 32 then
        Err (InvalidKey (''public key must be 32 bytes, got '' @ show_nat (length public)))
      else if length signature \<noteq> 64 then
        Err (InvalidKey (''signature must be 64 bytes, got '' @ show_nat (length signature)))
      else Ok \<lparr>spk_secret_seed = secret, spk_x25519_secret = secret, spk_x25519_public = public,
               spk_signature = signature\<rparr>)"

definition spk_verify_signature :: "provider \<Rightarrow> SignedPreKey \<Rightarrow> IdentityKeyPair \<Rightarrow> bool" where
  "spk_verify_signature P spk identity =
     ik_verify P (ik_verifying_key P identity) (spk_x25519_public spk) (spk_signature spk)"

definition spk_dh :: "provider \<Rightarrow> SignedPreKey \<Rightarrow> bytes \<Rightarrow> bytes" where
  "spk_dh P spk their_public = x_dh P (spk_x25519_secret spk) their_public"

definition spk_secret_bytes :: "SignedPreKey \<Rightarrow> bytes" where
  "spk_secret_bytes spk = spk_secret_seed spk"

text \<open>A pre-key whose parts belong together, as a generated one is.\<close>

definition spk_wf :: "provider \<Rightarrow> SignedPreKey \<Rightarrow> bool" where
  "spk_wf P spk \<longleftrightarrow> length (spk_secret_seed spk) = 32 \<and>
     spk_x25519_secret spk = spk_secret_seed spk \<and>
     spk_x25519_public spk = x_public P (spk_secret_seed spk)"

lemma spk_generate_wf: "spk_generate P k r = (spk, r') \<Longrightarrow> spk_wf P spk"
  by (auto simp: spk_generate_def spk_wf_def draw_bytes_def Let_def)

section \<open>One-time pre-keys\<close>

record OneTimePreKey =
  opk_id :: u32
  opk_secret_seed :: bytes
  opk_x25519_secret :: bytes
  opk_x25519_public :: bytes

definition opk_make :: "provider \<Rightarrow> nat \<Rightarrow> rng \<Rightarrow> OneTimePreKey \<times> rng" where
  "opk_make P i r =
     (let (seed, r') = draw_bytes 32 r in
      (\<lparr>opk_id = of_nat i, opk_secret_seed = seed, opk_x25519_secret = seed,
        opk_x25519_public = x_public P seed\<rparr>, r'))"

text \<open>The iterator \<open>(0..count).map(..).collect()\<close>: the closure runs once for each index, in order.\<close>

fun opk_generate_from :: "provider \<Rightarrow> nat list \<Rightarrow> rng \<Rightarrow> OneTimePreKey list \<times> rng" where
  "opk_generate_from P [] r = ([], r)"
| "opk_generate_from P (i # is) r =
     (let (k, r1) = opk_make P i r; (ks, r2) = opk_generate_from P is r1 in (k # ks, r2))"

definition opk_generate_batch :: "provider \<Rightarrow> nat \<Rightarrow> rng \<Rightarrow> OneTimePreKey list \<times> rng" where
  "opk_generate_batch P count r = opk_generate_from P [0..<count] r"

definition opk_dh :: "provider \<Rightarrow> OneTimePreKey \<Rightarrow> bytes \<Rightarrow> bytes" where
  "opk_dh P k their_public = x_dh P (opk_x25519_secret k) their_public"

definition opk_secret_bytes :: "OneTimePreKey \<Rightarrow> bytes" where
  "opk_secret_bytes k = opk_secret_seed k"

definition opk_wf :: "provider \<Rightarrow> OneTimePreKey \<Rightarrow> bool" where
  "opk_wf P k \<longleftrightarrow> length (opk_secret_seed k) = 32 \<and> opk_x25519_secret k = opk_secret_seed k \<and>
     opk_x25519_public k = x_public P (opk_secret_seed k)"

lemma opk_generate_from_props:
  "opk_generate_from P is r = (ks, r') \<Longrightarrow>
     map opk_id ks = map of_nat is \<and> list_all (opk_wf P) ks"
proof (induction "is" arbitrary: ks r)
  case (Cons i "is")
  then show ?case
    by (auto simp: opk_make_def opk_wf_def draw_bytes_def Let_def split: prod.splits)
qed simp

section \<open>The uploaded bundle\<close>

record KeyBundle =
  kb_identity_key :: bytes
  kb_signed_pre_key :: bytes
  kb_signature :: bytes
  kb_one_time_pre_keys :: "bytes list"

definition kb_new :: "bytes \<Rightarrow> bytes \<Rightarrow> bytes \<Rightarrow> bytes list \<Rightarrow> KeyBundle" where
  "kb_new identity_key signed_pre_key signature one_time_pre_keys =
     \<lparr>kb_identity_key = identity_key, kb_signed_pre_key = signed_pre_key,
      kb_signature = signature, kb_one_time_pre_keys = one_time_pre_keys\<rparr>"

section \<open>Properties\<close>

text \<open>
  The exported secrets restore the identity: \<open>from_bytes\<close> on the two 32-byte secrets of an
  identity key pair that was generated or restored gives the same key pair back.
\<close>
theorem identity_export_restores:
  assumes "ik_wf P k"
  shows "ik_from_bytes P (ik_secret_bytes k) (ik_signing_secret_bytes k) = Ok k"
  using assms by (simp add: ik_from_bytes_def ik_secret_bytes_def ik_signing_secret_bytes_def ik_wf_def)

lemma identity_export_restores_witness:
  "ik_from_bytes demo_provider (ik_secret_bytes (fst (ik_generate demo_provider (\<lambda>_. 5))))
     (ik_signing_secret_bytes (fst (ik_generate demo_provider (\<lambda>_. 5)))) =
   Ok (fst (ik_generate demo_provider (\<lambda>_. 5)))"
  by (rule identity_export_restores, rule ik_generate_wf, rule prod.collapse [symmetric])

text \<open>
  A generated signed pre-key survives export and import, and its signature verifies under
  the identity that signed it, before and after.
\<close>
theorem signed_pre_key_export_restores:
  assumes "ed25519_signs P" and "x25519_sizes P" and "spk_generate P identity r = (spk, r')"
  shows "spk_from_bytes (spk_secret_bytes spk) (spk_x25519_public spk) (spk_signature spk) = Ok spk \<and>
    spk_verify_signature P spk identity"
  using assms
  by (auto simp: spk_generate_def spk_from_bytes_def spk_secret_bytes_def spk_verify_signature_def
      ik_verify_def ik_sign_def ik_verifying_key_def draw_bytes_def Let_def ed25519_signs_def
      x25519_sizes_def)

lemma signed_pre_key_export_restores_witness:
  "spk_verify_signature demo_provider
     (fst (spk_generate demo_provider (fst (ik_generate demo_provider (\<lambda>_. 5))) (\<lambda>_. 6)))
     (fst (ik_generate demo_provider (\<lambda>_. 5)))"
  using signed_pre_key_export_restores [OF demo_ed25519_laws(1) ratchet_lawsD(2) [OF demo_ratchet_laws]
      prod.collapse [symmetric]]
  by blast

text \<open>
  \<open>from_bytes\<close> checks three lengths and nothing else: it accepts any 32-byte public key
  beside any 32-byte secret, and the result is a well-formed pre-key only when the public key
  happens to be the one of the secret.
\<close>
theorem signed_pre_key_import_unchecked:
  "(\<exists>spk. spk_from_bytes secret public signature = Ok spk \<and>
      (spk_wf P spk \<longleftrightarrow> public = x_public P secret)) \<longleftrightarrow>
   length secret = 32 \<and> length public = 32 \<and> length signature = 64"
  by (auto simp: spk_from_bytes_def spk_wf_def)

text \<open>
  A batch of up to \<open>2 ^ 32\<close> one-time pre-keys has the identifiers 0, 1, 2, \<open>...\<close> in order,
  all different, and every key in it has a 32-byte secret and the public key of that secret.
\<close>
theorem one_time_batch:
  assumes "count \<le> 2 ^ 32" and "opk_generate_batch P count r = (ks, r')"
  shows "length ks = count \<and> map (\<lambda>k. unat (opk_id k)) ks = [0..<count] \<and>
    distinct (map opk_id ks) \<and> list_all (opk_wf P) ks"
proof -
  from assms(2) have ks: "map opk_id ks = map of_nat [0..<count]" "list_all (opk_wf P) ks"
    using opk_generate_from_props unfolding opk_generate_batch_def by blast+
  have val: "unat (of_nat i :: u32) = i" if "i < count" for i
    using that assms(1) by (simp add: unat_of_nat take_bit_nat_eq_self)
  have "map (\<lambda>k. unat (opk_id k)) ks = map unat (map opk_id ks)" by simp
  also have "\<dots> = [0..<count]"
    unfolding ks(1) using val by (intro nth_equalityI) simp_all
  finally have num: "map (\<lambda>k. unat (opk_id k)) ks = [0..<count]" .
  then have "distinct (map unat (map opk_id ks))" by (simp add: o_def)
  then have "distinct (map opk_id ks)" using distinct_map by blast
  moreover have "length ks = count" using arg_cong [OF num, of length] by simp
  ultimately show ?thesis using num ks(2) by blast
qed

lemma one_time_batch_witness:
  "map (\<lambda>k. unat (opk_id k)) (fst (opk_generate_batch demo_provider 3 (\<lambda>i. of_nat i))) = [0..<3]"
  using one_time_batch [OF _ prod.collapse [symmetric], of 3 demo_provider "\<lambda>i. of_nat i"] by simp

end
