(* ===== verification/Ratchet_Session.thy ===== *)
theory Ratchet_Session
  imports Ratchet_Parts Identity
begin

text \<open>
  The Double Ratchet session (\<open>src/ratchet/state.rs\<close>): \<open>init_alice\<close>, \<open>init_bob\<close>, \<open>encrypt\<close>,
  \<open>decrypt\<close> and \<open>skip_current_receiving_chain\<close>, each with the session it leaves behind on every
  path, an error or a panic included. The facts about them are in \<open>Ratchet_Facts\<close>.
\<close>

section \<open>The session\<close>

type_synonym skipped = "(bytes \<times> u32, bytes) fmap"

record Session =
  root_key :: bytes
  dh_secret :: bytes
  dh_public :: bytes
  remote_dh_public :: "bytes option"
  sending_chain :: "ChainKey option"
  receiving_chain :: "ChainKey option"
  previous_sending_chain_length :: u32
  skipped_keys :: skipped

definition MAX_SKIP :: u32 where
  "MAX_SKIP = 100"

text \<open>\<open>.expect("Initial DH ratchet step failed")\<close> turns an error of the step into a panic.\<close>

definition init_alice :: "provider \<Rightarrow> bytes \<Rightarrow> bytes \<Rightarrow> rng \<Rightarrow> ('e, Session) outcome \<times> rng" where
  "init_alice P shared_secret bob_spk_public r =
     (let ((secret, public), r') = generate_dh_keypair P r;
          dh_output = dh P secret bob_spk_public
      in (case dh_ratchet_step P shared_secret dh_output of
            Ok (rk, chain) \<Rightarrow>
              Ok \<lparr>root_key = rk, dh_secret = secret, dh_public = public,
                  remote_dh_public = Some bob_spk_public,
                  sending_chain = Some (chain_new chain 0), receiving_chain = None,
                  previous_sending_chain_length = 0, skipped_keys = fmempty\<rparr>
          | Err _ \<Rightarrow> Panic | Panic \<Rightarrow> Panic, r'))"

definition init_bob :: "bytes \<Rightarrow> SignedPreKey \<Rightarrow> Session" where
  "init_bob shared_secret our_spk =
     \<lparr>root_key = shared_secret, dh_secret = spk_secret_bytes our_spk,
      dh_public = spk_x25519_public our_spk, remote_dh_public = None,
      sending_chain = None, receiving_chain = None,
      previous_sending_chain_length = 0, skipped_keys = fmempty\<rparr>"

section \<open>Encryption\<close>

definition ratchet_encrypt ::
  "provider \<Rightarrow> bytes \<Rightarrow> Session \<times> rng \<Rightarrow> (MessageHeader \<times> encrypted) result \<times> (Session \<times> rng)"
where
  "ratchet_encrypt P plaintext = (\<lambda>(s, r).
     case sending_chain s of
       None \<Rightarrow> (Err (Ratchet ''No sending chain established''), (s, r))
     | Some chain \<Rightarrow>
         (let (adv, chain') = chain_advance P chain; s' = s\<lparr>sending_chain := Some chain'\<rparr> in
          and_then_st (adv, (s', r)) (\<lambda>message_key (s', r).
            let msg_num = ck_index chain' - 1;
                header = header_new (dh_public s') msg_num (previous_sending_chain_length s')
            in if length message_key \<noteq> 32
               then (Err (Ratchet ''Invalid message key length''), (s', r))
               else (let (enc, r') = aead_encrypt P message_key plaintext (header_to_bytes P header) r
                     in and_then_st (enc, (s', r')) (\<lambda>e st. (Ok (header, e), st))))))"

section \<open>Skipping\<close>

text \<open>
  The loop \<open>while chain.index() < until\<close> that stores a key for each message not yet seen.
  It appears twice in the source, with the same body over the key of the chain's sender; the
  number of stored keys is compared with \<open>MAX_SKIP\<close> after each insertion.
\<close>

function skip_loop ::
  "provider \<Rightarrow> bytes \<Rightarrow> u32 \<Rightarrow> ChainKey \<times> skipped \<Rightarrow> unit result \<times> (ChainKey \<times> skipped)"
where
  "skip_loop P dh_bytes until (chain, sk) =
     (if ck_index chain < until then
        case chain_advance P chain of
          (Ok mk, chain') \<Rightarrow>
            (let sk' = fmupd (dh_bytes, ck_index chain' - 1) mk sk in
             if unat MAX_SKIP < map_len sk'
             then (Err (Ratchet ''Too many skipped messages''), (chain', sk'))
             else skip_loop P dh_bytes until (chain', sk'))
        | (Err e, chain') \<Rightarrow> (Err e, (chain', sk))
        | (Panic, chain') \<Rightarrow> (Panic, (chain', sk))
      else (Ok (), (chain, sk)))"
  by pat_completeness auto
termination
proof (relation "measure (\<lambda>(P, b, until, c, sk). unat until - unat (ck_index c))", goal_cases)
  case (2 P dh_bytes until chain sk x chain' mk sk')
  then have i: "ck_index chain' = ck_index chain + 1"
    by (metis chain_advance_index)
  with 2 show ?case
    by (simp add: unat_Suc_less word_less_nat_alt)
qed simp

declare skip_loop.simps [simp del]

text \<open>\<open>skip_current_receiving_chain\<close> does nothing without a receiving chain and a remote key.\<close>

definition skip_current_receiving_chain :: "provider \<Rightarrow> u32 \<Rightarrow> Session \<Rightarrow> unit result \<times> Session" where
  "skip_current_receiving_chain P until s =
     (case (receiving_chain s, remote_dh_public s) of
        (Some chain, Some remote) \<Rightarrow>
          (let (x, (chain', sk')) = skip_loop P remote until (chain, skipped_keys s)
           in (x, s\<lparr>receiving_chain := Some chain', skipped_keys := sk'\<rparr>))
      | _ \<Rightarrow> (Ok (), s))"

section \<open>Decryption\<close>

definition need_ratchet :: "Session \<Rightarrow> bytes \<Rightarrow> bool" where
  "need_ratchet s header_dh_public =
     (case remote_dh_public s of None \<Rightarrow> True | Some remote \<Rightarrow> remote \<noteq> header_dh_public)"

text \<open>
  The body of \<open>if need_ratchet { .. }\<close>: the fields are assigned in the order of the source,
  so an error of the second derivation leaves the first half in place.
\<close>

definition dh_ratchet :: "provider \<Rightarrow> MessageHeader \<Rightarrow> bytes \<Rightarrow> Session \<times> rng \<Rightarrow> unit result \<times> (Session \<times> rng)" where
  "dh_ratchet P header header_dh_public = (\<lambda>(s, r).
     let (skip, s) = skip_current_receiving_chain P (mh_previous_chain_length header) s in
     and_then_st (skip, (s, r)) (\<lambda>_ (s, r).
     and_then_st (dh_ratchet_step P (root_key s) (dh P (dh_secret s) header_dh_public), (s, r))
       (\<lambda>(rk, recv_chain_key) (s, r).
     let s = s\<lparr>root_key := rk, receiving_chain := Some (chain_new recv_chain_key 0),
               remote_dh_public := Some header_dh_public,
               previous_sending_chain_length :=
                 (case sending_chain s of Some c \<Rightarrow> ck_index c | None \<Rightarrow> 0)\<rparr>;
         ((new_secret, new_public), r) = generate_dh_keypair P r
     in and_then_st (dh_ratchet_step P (root_key s) (dh P new_secret header_dh_public), (s, r))
          (\<lambda>(rk, send_chain_key) (s, r).
             (Ok (), (s\<lparr>root_key := rk, dh_secret := new_secret, dh_public := new_public,
                        sending_chain := Some (chain_new send_chain_key 0)\<rparr>, r))))))"

text \<open>Steps 3 and 4: skip ahead in the receiving chain, derive the key and open the message.\<close>

definition receive_on_chain :: "provider \<Rightarrow> MessageHeader \<Rightarrow> encrypted \<Rightarrow> Session \<Rightarrow> bytes result \<times> Session" where
  "receive_on_chain P header enc s =
     (case receiving_chain s of
        None \<Rightarrow> (Err (Ratchet ''No receiving chain established''), s)
      | Some chain \<Rightarrow>
          (let (skip, (chain, sk)) =
                 skip_loop P (mh_dh_public_key header) (mh_message_number header) (chain, skipped_keys s);
               s = s\<lparr>receiving_chain := Some chain, skipped_keys := sk\<rparr>
           in and_then_st (skip, s) (\<lambda>_ s.
              let (adv, chain') = chain_advance P chain; s = s\<lparr>receiving_chain := Some chain'\<rparr> in
              and_then_st (adv, s) (\<lambda>message_key s.
                if length message_key \<noteq> 32 then (Err (Ratchet ''Invalid message key length''), s)
                else (aead_decrypt P message_key enc (header_to_bytes P header), s)))))"

definition ratchet_decrypt ::
  "provider \<Rightarrow> MessageHeader \<Rightarrow> encrypted \<Rightarrow> Session \<times> rng \<Rightarrow> bytes result \<times> (Session \<times> rng)"
where
  "ratchet_decrypt P header enc = (\<lambda>(s, r).
     case fmlookup (skipped_keys s) (mh_dh_public_key header, mh_message_number header) of
       Some mk \<Rightarrow>
         (let s = s\<lparr>skipped_keys :=
                fmdrop (mh_dh_public_key header, mh_message_number header) (skipped_keys s)\<rparr>
          in (if length mk \<noteq> 32 then Err (Ratchet ''Invalid skipped key length'')
              else aead_decrypt P mk enc (header_to_bytes P header), (s, r)))
     | None \<Rightarrow>
         and_then_st (header_to_public_key header, (s, r)) (\<lambda>header_dh_public (s, r).
         and_then_st
           (if need_ratchet s header_dh_public then dh_ratchet P header header_dh_public (s, r)
            else (Ok (), (s, r))) (\<lambda>_ (s, r).
         let (x, s) = receive_on_chain P header enc s in (x, (s, r)))))"

end
