(* ===== verification/Ratchet_Facts.thy ===== *)
theory Ratchet_Facts
  imports Ratchet_Session
begin

text \<open>
  Facts of single session operations: the closed form of the skipping loop with its bounds,
  well-formed sessions and their preservation, and the branches of decryption for a provider
  that obeys its laws.
\<close>

section \<open>The skipping loop in closed form\<close>

abbreviation too_many :: CryptoError where
  "too_many \<equiv> Ratchet ''Too many skipped messages''"

text \<open>
  \<open>sk'\<close> is \<open>sk\<close> with the keys of the messages \<open>i, .., i + n - 1\<close> of the chain that stood at
  \<open>k\<close> when its index was \<open>i\<close>.
\<close>

definition stores_range ::
  "provider \<Rightarrow> bytes \<Rightarrow> bytes \<Rightarrow> nat \<Rightarrow> nat \<Rightarrow> skipped \<Rightarrow> skipped \<Rightarrow> bool"
where
  "stores_range P b k i n sk sk' \<longleftrightarrow>
     (\<forall>b' m. fmlookup sk' (b', m) =
        (if b' = b \<and> i \<le> unat m \<and> unat m < i + n then Some (message_key P k (unat m - i))
         else fmlookup sk (b', m)))"

lemma stores_range_0: "stores_range P b k i 0 sk sk"
  by (auto simp: stores_range_def)

lemma message_key_Suc: "message_key P (hmac_tag P k [1]) n = message_key P k (Suc n)"
  using message_key_shift [of P k 1 n] by simp

lemma stores_range_step:
  assumes "stores_range P b (hmac_tag P k [1]) (Suc i) n (fmupd (b, j) (message_key P k 0) sk) sk'"
    and "unat j = i"
  shows "stores_range P b k i (Suc n) sk sk'"
  unfolding stores_range_def
proof (intro allI)
  fix b' m
  have eq: "m = j \<longleftrightarrow> unat m = i"
    using assms(2) by (metis word_unat_eq_iff)
  have "Suc (unat m - Suc i) = unat m - i" if "Suc i \<le> unat m"
    using that by simp
  then show "fmlookup sk' (b', m) =
      (if b' = b \<and> i \<le> unat m \<and> unat m < i + Suc n then Some (message_key P k (unat m - i))
       else fmlookup sk (b', m))"
    using assms(1) eq by (auto simp: stores_range_def message_key_Suc not_less_eq_eq)
qed

text \<open>What a run of the loop leaves, whether it completes or stops at the limit.\<close>

definition skip_result ::
  "provider \<Rightarrow> bytes \<Rightarrow> u32 \<Rightarrow> ChainKey \<times> skipped \<Rightarrow> unit result \<Rightarrow> ChainKey \<times> skipped \<Rightarrow> bool"
where
  "skip_result P b until st x st' \<longleftrightarrow>
     (case (st, st') of ((c, sk), (c', sk')) \<Rightarrow>
        \<exists>n. ck_key c' = chain_key P (ck_key c) n \<and>
            unat (ck_index c') = unat (ck_index c) + n \<and>
            stores_range P b (ck_key c) (unat (ck_index c)) n sk sk' \<and>
            map_len sk' \<le> map_len sk + n \<and>
            (x = Ok () \<and> n = unat until - unat (ck_index c) \<and> (0 < n \<longrightarrow> map_len sk' \<le> 100) \<or>
             x = Err too_many \<and> 0 < n \<and> n \<le> unat until - unat (ck_index c) \<and>
               100 < map_len sk' \<and> map_len sk' \<le> max 101 (Suc (map_len sk))))"

lemma skip_result_stop: "\<not> ck_index c < until \<Longrightarrow> skip_result P b until (c, sk) (Ok ()) (c, sk)"
  by (auto simp: skip_result_def stores_range_0 word_less_nat_alt intro!: exI [of _ 0])

lemma skip_result_limit:
  assumes "ck_index c < until"
    and "sk' = fmupd (b, ck_index c) (message_key P (ck_key c) 0) sk" and "100 < map_len sk'"
  shows "skip_result P b until (c, sk) (Err too_many)
           (\<lparr>ck_key = hmac_tag P (ck_key c) [1], ck_index = ck_index c + 1\<rparr>, sk')"
proof -
  have "stores_range P b (ck_key c) (unat (ck_index c)) (Suc 0) sk sk'"
    by (rule stores_range_step [where j = "ck_index c"]) (simp_all add: assms(2) stores_range_0)
  moreover have "map_len sk' \<le> Suc (map_len sk)"
    unfolding assms(2) by (rule map_len_fmupd_le)
  moreover have "unat (ck_index c + 1) = Suc (unat (ck_index c))"
    using assms(1) by (rule unat_Suc_less)
  ultimately show ?thesis
    using assms(1,3) by (auto simp: skip_result_def word_less_nat_alt intro!: exI [of _ "Suc 0"])
qed

lemma skip_result_step:
  assumes lt: "ck_index c < until"
    and sk': "sk' = fmupd (b, ck_index c) (message_key P (ck_key c) 0) sk"
    and le: "map_len sk' \<le> 100"
    and rest: "skip_result P b until
      (\<lparr>ck_key = hmac_tag P (ck_key c) [1], ck_index = ck_index c + 1\<rparr>, sk') x st"
  shows "skip_result P b until (c, sk) x st"
proof -
  obtain c'' sk'' where st: "st = (c'', sk'')" by fastforce
  have idx: "unat (ck_index c + 1) = Suc (unat (ck_index c))"
    using lt by (rule unat_Suc_less)
  from rest st obtain n where n:
    "ck_key c'' = chain_key P (hmac_tag P (ck_key c) [1]) n"
    "unat (ck_index c'') = Suc (unat (ck_index c)) + n"
    "stores_range P b (hmac_tag P (ck_key c) [1]) (Suc (unat (ck_index c))) n sk' sk''"
    "map_len sk'' \<le> map_len sk' + n"
    "x = Ok () \<and> n = unat until - Suc (unat (ck_index c)) \<and> (0 < n \<longrightarrow> map_len sk'' \<le> 100) \<or>
     x = Err too_many \<and> 0 < n \<and> n \<le> unat until - Suc (unat (ck_index c)) \<and>
       100 < map_len sk'' \<and> map_len sk'' \<le> max 101 (Suc (map_len sk'))"
    by (auto simp: skip_result_def idx)
  have "ck_key c'' = chain_key P (ck_key c) (Suc n)"
    using n(1) chain_key_add [of P "ck_key c" 1 n] by simp
  moreover have "stores_range P b (ck_key c) (unat (ck_index c)) (Suc n) sk sk''"
    using n(3) sk' by (intro stores_range_step [where j = "ck_index c"]) simp_all
  moreover have "map_len sk' \<le> Suc (map_len sk)"
    unfolding sk' by (rule map_len_fmupd_le)
  moreover have "unat (ck_index c) < unat until"
    using lt by (simp add: word_less_nat_alt)
  moreover have "map_len sk'' \<le> 100" if "n = 0"
    using that n(4) le by simp
  ultimately show ?thesis
    using n(2,4,5) le st by (auto simp: skip_result_def intro!: exI [of _ "Suc n"])
qed

lemma unat_MAX_SKIP [simp]: "unat MAX_SKIP = 100"
  by (simp add: MAX_SKIP_def)

lemma skip_loop_result:
  "skip_loop P b until st = (x, st') \<Longrightarrow> hmac_total P \<Longrightarrow> skip_result P b until st x st'"
proof (induction P b until st rule: skip_loop.induct)
  case (1 P b until c sk)
  define c' where "c' = \<lparr>ck_key = hmac_tag P (ck_key c) [1], ck_index = ck_index c + 1\<rparr>"
  define sk' where "sk' = fmupd (b, ck_index c) (message_key P (ck_key c) 0) sk"
  have adv: "chain_advance P c = (Ok (message_key P (ck_key c) 0), c')"
    using "1.prems"(2) by (simp add: chain_advance_total c'_def message_key_def)
  have idx: "ck_index c' - 1 = ck_index c" by (simp add: c'_def)
  show ?case
  proof (cases "ck_index c < until")
    case False
    with "1.prems" show ?thesis
      by (auto simp: skip_loop.simps [of P b until c sk] intro: skip_result_stop)
  next
    case lt: True
    show ?thesis
    proof (cases "100 < map_len sk'")
      case True
      with "1.prems" lt adv idx have "x = Err too_many" "st' = (c', sk')"
        by (auto simp: skip_loop.simps [of P b until c sk] sk'_def Let_def)
      with lt True show ?thesis
        unfolding c'_def by (auto intro: skip_result_limit simp: sk'_def)
    next
      case False
      with "1.prems"(1) lt adv idx have "skip_loop P b until (c', sk') = (x, st')"
        by (simp add: skip_loop.simps [of P b until c sk] sk'_def Let_def)
      moreover have "sk' = fmupd (b, ck_index c' - 1) (message_key P (ck_key c) 0) sk"
        by (simp add: sk'_def idx)
      moreover have "\<not> unat MAX_SKIP < map_len sk'"
        using False by simp
      ultimately have rest: "skip_result P b until (c', sk') x st'"
        using "1.prems"(2) by (intro "1.IH" [OF lt adv [symmetric] refl])
      show ?thesis
      proof (rule skip_result_step [OF lt sk'_def])
        show "map_len sk' \<le> 100" using False by simp
        show "skip_result P b until
            (\<lparr>ck_key = hmac_tag P (ck_key c) [1], ck_index = ck_index c + 1\<rparr>, sk') x st'"
          using rest by (simp only: c'_def)
      qed
    qed
  qed
qed


lemma skip_loop_enough:
  assumes "hmac_total P" and "map_len sk + (unat until - unat (ck_index c)) \<le> 100"
  shows "\<exists>st'. skip_loop P b until (c, sk) = (Ok (), st')"
proof -
  obtain x c' sk' where run: "skip_loop P b until (c, sk) = (x, (c', sk'))"
    by (metis surj_pair)
  then have "skip_result P b until (c, sk) x (c', sk')"
    using assms(1) by (rule skip_loop_result)
  with assms(2) have "x = Ok ()"
    by (auto simp: skip_result_def)
  with run show ?thesis by blast
qed

section \<open>Well-formed sessions\<close>

text \<open>
  Public keys are 32 bytes (the type \<open>PublicKey\<close>), a session without a remote key has no
  chain, and every stored message key has the length of an AES key under a 32-byte sender
  key. Sessions with a remote key have a sending chain: Alice's from the start, Bob's from
  the first message on.
\<close>

definition session_wf :: "Session \<Rightarrow> bool" where
  "session_wf s \<longleftrightarrow>
     length (dh_public s) = 32 \<and>
     (\<forall>p. remote_dh_public s = Some p \<longrightarrow> length p = 32) \<and>
     (remote_dh_public s = None \<longleftrightarrow> sending_chain s = None) \<and>
     (remote_dh_public s = None \<longrightarrow> receiving_chain s = None) \<and>
     (\<forall>b n mk. fmlookup (skipped_keys s) (b, n) = Some mk \<longrightarrow> length b = 32 \<and> length mk = 32)"

lemma init_alice_total:
  assumes "hkdf_total P"
  shows "init_alice P ss spk_pub r =
    (let secret = map r [0..<32]; (rk, ck) = root_step P ss (x_dh P secret spk_pub) in
     Ok \<lparr>root_key = rk, dh_secret = secret, dh_public = x_public P secret,
         remote_dh_public = Some spk_pub, sending_chain = Some (chain_new ck 0),
         receiving_chain = None, previous_sending_chain_length = 0, skipped_keys = fmempty\<rparr>,
     \<lambda>i. r (32 + i))"
  using dh_ratchet_step_total(1) [OF assms, of ss "x_dh P (map r [0..<32]) spk_pub"]
  by (simp add: init_alice_def generate_dh_keypair_def draw_bytes_def dh_def Let_def split: prod.split)

lemma init_alice_wf:
  assumes "hkdf_total P" "x25519_sizes P" "length spk_pub = 32"
    and "init_alice P ss spk_pub r = (Ok s, r')"
  shows "session_wf s"
  using assms by (auto simp: init_alice_total session_wf_def x25519_sizes_def Let_def split: prod.splits)

lemma init_bob_wf: "length (spk_x25519_public spk) = 32 \<Longrightarrow> session_wf (init_bob ss spk)"
  by (simp add: init_bob_def session_wf_def)

section \<open>Encryption\<close>

lemma ratchet_encrypt_no_chain:
  "sending_chain s = None \<Longrightarrow>
     ratchet_encrypt P m (s, r) = (Err (Ratchet ''No sending chain established''), (s, r))"
  by (simp add: ratchet_encrypt_def)

text \<open>With a sending chain at index \<open>i\<close>, encryption uses message key \<open>i\<close> and header number \<open>i\<close>.\<close>

lemma ratchet_encrypt_chain:
  assumes "hmac_total P" and "sending_chain s = Some c"
  shows "ratchet_encrypt P m (s, r) =
    (let c' = \<lparr>ck_key = hmac_tag P (ck_key c) [1], ck_index = ck_index c + 1\<rparr>;
         h = header_new (dh_public s) (ck_index c) (previous_sending_chain_length s);
         (enc, r') = aead_encrypt P (message_key P (ck_key c) 0) m (header_to_bytes P h) r
     in and_then_st (enc, (s\<lparr>sending_chain := Some c'\<rparr>, r')) (\<lambda>e st. (Ok (h, e), st)))"
  using assms
  by (simp add: ratchet_encrypt_def chain_advance_total message_key_def Let_def hmac_tag_length)

lemma ratchet_encrypt_Ok:
  assumes "hmac_total P" and "ratchet_encrypt P m (s, r) = (Ok (h, e), (s', r'))"
  obtains c where "sending_chain s = Some c"
    and "h = header_new (dh_public s) (ck_index c) (previous_sending_chain_length s)"
    and "s' = s\<lparr>sending_chain :=
           Some \<lparr>ck_key = hmac_tag P (ck_key c) [1], ck_index = ck_index c + 1\<rparr>\<rparr>"
    and "aead_encrypt P (message_key P (ck_key c) 0) m (header_to_bytes P h) r = (Ok e, r')"
proof (cases "sending_chain s")
  case None
  with assms(2) show ?thesis by (simp add: ratchet_encrypt_no_chain)
next
  case (Some c)
  with assms show ?thesis
    by (intro that [of c])
      (auto simp: ratchet_encrypt_chain Let_def outcome_simps split: prod.splits)
qed


section \<open>Decryption, in parts\<close>

text \<open>The Diffie-Hellman ratchet as a total function on the session left by skipping.\<close>

definition ratcheted :: "provider \<Rightarrow> bytes \<Rightarrow> bytes \<Rightarrow> Session \<Rightarrow> Session" where
  "ratcheted P p secret s =
     (let (rk1, recv) = root_step P (root_key s) (x_dh P (dh_secret s) p);
          (rk2, send) = root_step P rk1 (x_dh P secret p)
      in s\<lparr>root_key := rk2, dh_secret := secret, dh_public := x_public P secret,
           remote_dh_public := Some p, sending_chain := Some (chain_new send 0),
           receiving_chain := Some (chain_new recv 0),
           previous_sending_chain_length :=
             (case sending_chain s of Some c \<Rightarrow> ck_index c | None \<Rightarrow> 0)\<rparr>)"

lemma dh_ratchet_total:
  assumes "hkdf_total P"
    and "skip_current_receiving_chain P (mh_previous_chain_length h) s = (x, s1)"
  shows "dh_ratchet P h p (s, r) =
    (case x of Ok _ \<Rightarrow> (Ok (), (ratcheted P p (map r [0..<32]) s1, \<lambda>i. r (32 + i)))
     | Err e \<Rightarrow> (Err e, (s1, r)) | Panic \<Rightarrow> (Panic, (s1, r)))"
  using assms(2) dh_ratchet_step_total(1) [OF assms(1)]
  by (cases x; simp add: dh_ratchet_def generate_dh_keypair_def draw_bytes_def dh_def Let_def
      ratcheted_def split: prod.splits)

lemma ratcheted_fields [simp]:
  "remote_dh_public (ratcheted P p secret s) = Some p"
  "skipped_keys (ratcheted P p secret s) = skipped_keys s"
  "dh_public (ratcheted P p secret s) = x_public P secret"
  "dh_secret (ratcheted P p secret s) = secret"
  by (simp_all add: ratcheted_def Let_def split: prod.split)

text \<open>Skipping on the current chain: nothing without a chain, one run of the loop with one.\<close>

lemma skip_current_none:
  "receiving_chain s = None \<Longrightarrow> skip_current_receiving_chain P u s = (Ok (), s)"
  by (simp add: skip_current_receiving_chain_def)

lemma skip_current_some:
  assumes "hmac_total P" "receiving_chain s = Some c" "remote_dh_public s = Some p"
  obtains x c' sk' where
    "skip_current_receiving_chain P u s = (x, s\<lparr>receiving_chain := Some c', skipped_keys := sk'\<rparr>)"
    and "skip_result P p u (c, skipped_keys s) x (c', sk')"
proof -
  obtain x c' sk' where run: "skip_loop P p u (c, skipped_keys s) = (x, (c', sk'))"
    by (metis surj_pair)
  then have "skip_result P p u (c, skipped_keys s) x (c', sk')"
    using assms(1) by (rule skip_loop_result)
  with run assms(2,3) show ?thesis
    by (intro that [where x = x and c' = c' and sk' = sk'])
      (simp_all add: skip_current_receiving_chain_def)
qed

lemma skip_result_not_Panic: "skip_result P b u st x st' \<Longrightarrow> x \<noteq> Panic"
  by (auto simp: skip_result_def split: prod.splits)

lemma skip_result_Err: "skip_result P b u st (Err e) st' \<Longrightarrow> e = too_many"
  by (auto simp: skip_result_def split: prod.splits)

lemma stores_range_lengths:
  assumes "hmac_total P" "stores_range P b k i n sk sk'" "length b = 32"
    and "\<And>b n mk. fmlookup sk (b, n) = Some mk \<Longrightarrow> length b = 32 \<and> length mk = 32"
    and "fmlookup sk' (b', m) = Some mk"
  shows "length b' = 32 \<and> length mk = 32"
  using assms(2,3,5) assms(4) [of b' m mk] message_key_length [OF assms(1)]
  by (auto simp: stores_range_def split: if_splits)

lemma skip_current_wf:
  assumes "hmac_total P" "session_wf s" "skip_current_receiving_chain P u s = (x, s')"
  shows "session_wf s'"
proof (cases "receiving_chain s")
  case None
  with assms(2,3) show ?thesis by (simp add: skip_current_none)
next
  case (Some c)
  with assms(2) obtain p where p: "remote_dh_public s = Some p" "length p = 32"
    by (auto simp: session_wf_def)
  from skip_current_some [OF assms(1) Some p(1), of u] assms(3) obtain c' sk' where
    s': "s' = s\<lparr>receiving_chain := Some c', skipped_keys := sk'\<rparr>"
    and "skip_result P p u (c, skipped_keys s) x (c', sk')"
    by (metis prod.inject)
  then obtain n where "stores_range P p (ck_key c) (unat (ck_index c)) n (skipped_keys s) sk'"
    by (auto simp: skip_result_def)
  from stores_range_lengths [OF assms(1) this p(2)] assms(2) p s' show ?thesis
    unfolding session_wf_def by fastforce
qed

lemma ratcheted_wf:
  assumes "x25519_sizes P" "session_wf s" "length p = 32"
  shows "session_wf (ratcheted P p secret s)"
  using assms by (auto simp: session_wf_def ratcheted_def x25519_sizes_def Let_def split: prod.splits)

text \<open>Steps 3 and 4 of decryption on a session with a receiving chain.\<close>

lemma receive_on_chain_some:
  assumes "hmac_total P" "receiving_chain s = Some c"
  obtains x c' sk' where
    "skip_result P (mh_dh_public_key h) (mh_message_number h) (c, skipped_keys s) x (c', sk')"
    and "receive_on_chain P h e s =
      (case x of
         Ok _ \<Rightarrow> (aead_decrypt P (message_key P (ck_key c') 0) e (header_to_bytes P h),
                 s\<lparr>receiving_chain := Some \<lparr>ck_key = chain_key P (ck_key c') 1,
                                             ck_index = ck_index c' + 1\<rparr>,
                   skipped_keys := sk'\<rparr>)
       | Err er \<Rightarrow> (Err er, s\<lparr>receiving_chain := Some c', skipped_keys := sk'\<rparr>)
       | Panic \<Rightarrow> (Panic, s\<lparr>receiving_chain := Some c', skipped_keys := sk'\<rparr>))"
proof -
  obtain x c' sk' where
    run: "skip_loop P (mh_dh_public_key h) (mh_message_number h) (c, skipped_keys s) = (x, (c', sk'))"
    by (metis surj_pair)
  then have "skip_result P (mh_dh_public_key h) (mh_message_number h) (c, skipped_keys s) x (c', sk')"
    using assms(1) by (rule skip_loop_result)
  with run assms show ?thesis
    by (intro that [of x c' sk'])
      (cases x; simp add: receive_on_chain_def chain_advance_total message_key_def Let_def hmac_tag_length)+
qed

lemma receive_on_chain_wf:
  assumes "hmac_total P" "session_wf s" "length (mh_dh_public_key h) = 32"
    and "receive_on_chain P h e s = (x, s')"
  shows "session_wf s'"
proof (cases "receiving_chain s")
  case None
  with assms(2,4) show ?thesis by (simp add: receive_on_chain_def)
next
  case (Some c)
  obtain y c' sk' where res:
    "skip_result P (mh_dh_public_key h) (mh_message_number h) (c, skipped_keys s) y (c', sk')"
    and eq: "receive_on_chain P h e s =
      (case y of
         Ok _ \<Rightarrow> (aead_decrypt P (message_key P (ck_key c') 0) e (header_to_bytes P h),
                 s\<lparr>receiving_chain := Some \<lparr>ck_key = chain_key P (ck_key c') 1,
                                             ck_index = ck_index c' + 1\<rparr>,
                   skipped_keys := sk'\<rparr>)
       | Err er \<Rightarrow> (Err er, s\<lparr>receiving_chain := Some c', skipped_keys := sk'\<rparr>)
       | Panic \<Rightarrow> (Panic, s\<lparr>receiving_chain := Some c', skipped_keys := sk'\<rparr>))"
    by (rule receive_on_chain_some [OF assms(1) Some, of h e])
  obtain c'' where "s' = s\<lparr>receiving_chain := Some c'', skipped_keys := sk'\<rparr>"
    using eq assms(4) by (cases y) auto
  moreover obtain n where
    st: "stores_range P (mh_dh_public_key h) (ck_key c) (unat (ck_index c)) n (skipped_keys s) sk'"
    using res by (auto simp: skip_result_def)
  moreover have "\<forall>b n mk. fmlookup sk' (b, n) = Some mk \<longrightarrow> length b = 32 \<and> length mk = 32"
    using stores_range_lengths [OF assms(1) st assms(3)] assms(2)
    unfolding session_wf_def by blast
  ultimately show ?thesis
    using assms(2) Some by (auto simp: session_wf_def)
qed


section \<open>The branches of decryption\<close>

abbreviation header_id :: "MessageHeader \<Rightarrow> bytes \<times> u32" where
  "header_id h \<equiv> (mh_dh_public_key h, mh_message_number h)"

text \<open>A stored key is taken out of the map before the ciphertext is looked at.\<close>

lemma decrypt_stored:
  assumes "fmlookup (skipped_keys s) (header_id h) = Some mk" "length mk = 32"
  shows "ratchet_decrypt P h e (s, r) =
    (aead_decrypt P mk e (header_to_bytes P h),
     (s\<lparr>skipped_keys := fmdrop (header_id h) (skipped_keys s)\<rparr>, r))"
  using assms by (simp add: ratchet_decrypt_def Let_def)

lemma decrypt_bad_key:
  assumes "fmlookup (skipped_keys s) (header_id h) = None" "length (mh_dh_public_key h) \<noteq> 32"
  shows "ratchet_decrypt P h e (s, r) = (Panic, (s, r))"
  using assms by (simp add: ratchet_decrypt_def header_to_public_key_def)

lemma need_ratchet_iff: "need_ratchet s p \<longleftrightarrow> remote_dh_public s \<noteq> Some p"
  by (simp add: need_ratchet_def split: option.split)

lemma decrypt_same_chain:
  assumes "fmlookup (skipped_keys s) (header_id h) = None" "length (mh_dh_public_key h) = 32"
    and "remote_dh_public s = Some (mh_dh_public_key h)"
  shows "ratchet_decrypt P h e (s, r) = (let (x, s') = receive_on_chain P h e s in (x, (s', r)))"
  using assms by (simp add: ratchet_decrypt_def header_to_public_key_def need_ratchet_iff)

lemma decrypt_ratchet_Ok:
  assumes "hkdf_total P"
    and "fmlookup (skipped_keys s) (header_id h) = None" "length (mh_dh_public_key h) = 32"
    and "remote_dh_public s \<noteq> Some (mh_dh_public_key h)"
    and "skip_current_receiving_chain P (mh_previous_chain_length h) s = (Ok u, s1)"
  shows "ratchet_decrypt P h e (s, r) =
    (let (x, s') = receive_on_chain P h e (ratcheted P (mh_dh_public_key h) (map r [0..<32]) s1)
     in (x, (s', \<lambda>i. r (32 + i))))"
  using assms
  by (simp add: ratchet_decrypt_def header_to_public_key_def need_ratchet_iff dh_ratchet_total)

lemma decrypt_ratchet_Err:
  assumes "hkdf_total P"
    and "fmlookup (skipped_keys s) (header_id h) = None" "length (mh_dh_public_key h) = 32"
    and "remote_dh_public s \<noteq> Some (mh_dh_public_key h)"
    and "skip_current_receiving_chain P (mh_previous_chain_length h) s = (Err er, s1)"
  shows "ratchet_decrypt P h e (s, r) = (Err er, (s1, r))"
  using assms
  by (simp add: ratchet_decrypt_def header_to_public_key_def need_ratchet_iff dh_ratchet_total)

lemma skip_current_outcome:
  assumes "hmac_total P" "session_wf s" "skip_current_receiving_chain P u s = (x, s')"
  shows "x = Ok () \<or> x = Err too_many"
proof (cases "receiving_chain s")
  case None
  with assms(3) show ?thesis by (simp add: skip_current_none)
next
  case (Some c)
  with assms(2) obtain p where p: "remote_dh_public s = Some p"
    by (auto simp: session_wf_def)
  from skip_current_some [OF assms(1) Some p, of u] assms(3) obtain c' sk' where
    "skip_result P p u (c, skipped_keys s) x (c', sk')"
    by (metis prod.inject)
  then show ?thesis by (auto simp: skip_result_def)
qed

text \<open>
  The case distinction every proof about decryption starts from: a stored key, a header
  that panics, the chain at hand, a ratchet step that completes, one that is cut short.
\<close>

lemma decrypt_cases:
  assumes laws: "hkdf_total P" "hmac_total P" and wf: "session_wf s"
  obtains
    (stored) mk where "fmlookup (skipped_keys s) (header_id h) = Some mk" "length mk = 32"
      "ratchet_decrypt P h e (s, r) = (aead_decrypt P mk e (header_to_bytes P h),
         (s\<lparr>skipped_keys := fmdrop (header_id h) (skipped_keys s)\<rparr>, r))"
  | (bad_key) "fmlookup (skipped_keys s) (header_id h) = None" "length (mh_dh_public_key h) \<noteq> 32"
      "ratchet_decrypt P h e (s, r) = (Panic, (s, r))"
  | (chain) x s' where "fmlookup (skipped_keys s) (header_id h) = None"
      "length (mh_dh_public_key h) = 32" "remote_dh_public s = Some (mh_dh_public_key h)"
      "receive_on_chain P h e s = (x, s')" "ratchet_decrypt P h e (s, r) = (x, (s', r))"
  | (ratchet) s1 x s' where "fmlookup (skipped_keys s) (header_id h) = None"
      "length (mh_dh_public_key h) = 32" "remote_dh_public s \<noteq> Some (mh_dh_public_key h)"
      "skip_current_receiving_chain P (mh_previous_chain_length h) s = (Ok (), s1)"
      "receive_on_chain P h e (ratcheted P (mh_dh_public_key h) (map r [0..<32]) s1) = (x, s')"
      "ratchet_decrypt P h e (s, r) = (x, (s', \<lambda>i. r (32 + i)))"
  | (cut) s1 where "fmlookup (skipped_keys s) (header_id h) = None"
      "length (mh_dh_public_key h) = 32" "remote_dh_public s \<noteq> Some (mh_dh_public_key h)"
      "skip_current_receiving_chain P (mh_previous_chain_length h) s = (Err too_many, s1)"
      "ratchet_decrypt P h e (s, r) = (Err too_many, (s1, r))"
proof (cases "fmlookup (skipped_keys s) (header_id h)")
  case (Some mk)
  moreover from Some wf have "length mk = 32"
    unfolding session_wf_def by blast
  ultimately show thesis
    by (intro stored decrypt_stored)
next
  case None
  consider "length (mh_dh_public_key h) \<noteq> 32"
    | "length (mh_dh_public_key h) = 32" "remote_dh_public s = Some (mh_dh_public_key h)"
    | "length (mh_dh_public_key h) = 32" "remote_dh_public s \<noteq> Some (mh_dh_public_key h)"
    by blast
  then show thesis
  proof cases
    case 1
    with None show thesis by (intro bad_key decrypt_bad_key)
  next
    case 2
    obtain x s' where "receive_on_chain P h e s = (x, s')" by fastforce
    with None 2 show thesis
      by (intro chain) (simp_all add: decrypt_same_chain)
  next
    case 3
    obtain y s1 where sk: "skip_current_receiving_chain P (mh_previous_chain_length h) s = (y, s1)"
      by fastforce
    obtain x s' where "receive_on_chain P h e
        (ratcheted P (mh_dh_public_key h) (map r [0..<32]) s1) = (x, s')" by fastforce
    with None 3 sk laws skip_current_outcome [OF laws(2) wf sk] show thesis
      by (elim disjE) (auto intro: ratchet cut simp: decrypt_ratchet_Ok decrypt_ratchet_Err)
  qed
qed

section \<open>Preservation\<close>

lemma ratchet_encrypt_wf:
  assumes "session_wf s" "ratchet_encrypt P m (s, r) = (x, (s', r'))"
  shows "session_wf s'"
proof (cases "sending_chain s")
  case None
  with assms show ?thesis by (simp add: ratchet_encrypt_no_chain)
next
  case (Some c)
  obtain a c' where adv: "chain_advance P c = (a, c')" by fastforce
  have "s' = s\<lparr>sending_chain := Some c'\<rparr>"
    using assms(2) Some adv
    by (cases a) (auto simp: ratchet_encrypt_def Let_def and_then_st.simps
        split: prod.splits if_splits elim!: and_then_st.elims)
  with assms(1) Some show ?thesis by (simp add: session_wf_def)
qed

lemma ratchet_decrypt_wf:
  assumes laws: "hkdf_total P" "hmac_total P" "x25519_sizes P" and wf: "session_wf s"
    and run: "ratchet_decrypt P h e (s, r) = (x, (s', r'))"
  shows "session_wf s'"
  using laws(1,2) wf
proof (cases rule: decrypt_cases [where h = h and e = e and r = r])
  case (stored mk)
  with run have "s' = s\<lparr>skipped_keys := fmdrop (header_id h) (skipped_keys s)\<rparr>" by simp
  with wf show ?thesis by (auto simp: session_wf_def split: if_splits)
next
  case bad_key
  with run wf show ?thesis by simp
next
  case (chain y s'')
  with run wf laws show ?thesis by (auto intro: receive_on_chain_wf)
next
  case (ratchet s1 y s'')
  have "session_wf s1"
    using laws(2) wf ratchet(4) by (rule skip_current_wf)
  then have "session_wf (ratcheted P (mh_dh_public_key h) (map r [0..<32]) s1)"
    using laws(3) ratchet(2) by (intro ratcheted_wf)
  from receive_on_chain_wf [OF laws(2) this ratchet(2,5)] ratchet(6) run show ?thesis by simp
next
  case (cut s1)
  with run laws wf skip_current_wf show ?thesis by fastforce
qed

end
