(* ===== verification/Ratchet_Channels.thy ===== *)
theory Ratchet_Channels
  imports Ratchet_Facts
begin

text \<open>
  Two sessions that talk to each other, and the packets under way between them. What a session
  can open is stated for a packet (\<open>deliverable\<close>), then what skipping, receiving and ratcheting
  do to it, and last the invariant \<open>pair_inv\<close> of the pair: one party is ahead of the other. The
  party behind has not yet seen the public key of the party ahead; the root key of the party
  ahead is the next step of the root key of the party behind. When the party behind receives
  under the new key, it ratchets twice and is ahead. Sending, receiving and losing a packet on
  either side keep the invariant.
\<close>

section \<open>Packets and what a receiver can open\<close>

text \<open>A packet carries the plaintext it was made from; no session ever reads that field.\<close>

record packet =
  pk_header :: MessageHeader
  pk_body :: encrypted
  pk_plain :: bytes

abbreviation pk_id :: "packet \<Rightarrow> bytes \<times> u32" where
  "pk_id p \<equiv> header_id (pk_header p)"

abbreviation pk_dh :: "packet \<Rightarrow> bytes" where
  "pk_dh p \<equiv> mh_dh_public_key (pk_header p)"

abbreviation pk_num :: "packet \<Rightarrow> nat" where
  "pk_num p \<equiv> unat (mh_message_number (pk_header p))"

abbreviation pos :: "ChainKey \<Rightarrow> nat" where
  "pos c \<equiv> unat (ck_index c)"

definition opens :: "provider \<Rightarrow> bytes \<Rightarrow> packet \<Rightarrow> bool" where
  "opens P mk p \<longleftrightarrow>
     aead_decrypt P mk (pk_body p) (header_to_bytes P (pk_header p)) = Ok (pk_plain p)"

text \<open>The receiver holds the key of the packet, or its current chain will produce it.\<close>

definition deliverable :: "provider \<Rightarrow> Session \<Rightarrow> packet \<Rightarrow> bool" where
  "deliverable P R p \<longleftrightarrow>
     (case fmlookup (skipped_keys R) (pk_id p) of
        Some mk \<Rightarrow> opens P mk p
      | None \<Rightarrow> remote_dh_public R = Some (pk_dh p) \<and>
          (case receiving_chain R of
             None \<Rightarrow> False
           | Some c \<Rightarrow> pos c \<le> pk_num p \<and> opens P (message_key P (ck_key c) (pk_num p - pos c)) p))"

text \<open>No key is stored for a message the current chain has not reached.\<close>

definition no_future :: "Session \<Rightarrow> bool" where
  "no_future R \<longleftrightarrow>
     (\<forall>b c m. remote_dh_public R = Some b \<longrightarrow> receiving_chain R = Some c \<longrightarrow> pos c \<le> unat m \<longrightarrow>
        fmlookup (skipped_keys R) (b, m) = None)"

abbreviation moved :: "Session \<Rightarrow> ChainKey \<Rightarrow> skipped \<Rightarrow> Session" where
  "moved R c sk \<equiv> R\<lparr>receiving_chain := Some c, skipped_keys := sk\<rparr>"

section \<open>Skipping and popping keep what is deliverable\<close>

lemma skip_keeps_no_future:
  assumes "no_future R" "remote_dh_public R = Some b" "receiving_chain R = Some c"
    and "skip_result P b u (c, skipped_keys R) x (c', sk')"
  shows "no_future (moved R c' sk')"
  using assms by (auto simp: no_future_def skip_result_def stores_range_def)

lemma skip_keeps_deliverable:
  assumes nf: "no_future R" "remote_dh_public R = Some b" "receiving_chain R = Some c"
    and res: "skip_result P b u (c, skipped_keys R) x (c', sk')"
    and q: "deliverable P R q"
  shows "deliverable P (moved R c' sk') q"
proof -
  from res obtain n where n: "ck_key c' = chain_key P (ck_key c) n" "pos c' = pos c + n"
    "stores_range P b (ck_key c) (pos c) n (skipped_keys R) sk'"
    by (auto simp: skip_result_def)
  show ?thesis
  proof (cases "fmlookup (skipped_keys R) (pk_id q)")
    case (Some mk)
    with nf have "\<not> (pk_dh q = b \<and> pos c \<le> pk_num q)"
      unfolding no_future_def by (metis option.distinct(1))
    with n(3) Some have "fmlookup sk' (pk_id q) = Some mk"
      by (auto simp: stores_range_def)
    with q Some show ?thesis by (simp add: deliverable_def)
  next
    case None
    with q nf have cur: "pk_dh q = b" "pos c \<le> pk_num q"
      "opens P (message_key P (ck_key c) (pk_num q - pos c)) q"
      by (auto simp: deliverable_def)
    show ?thesis
    proof (cases "pk_num q < pos c + n")
      case True
      with n(3) cur have "fmlookup sk' (pk_id q) = Some (message_key P (ck_key c) (pk_num q - pos c))"
        by (simp add: stores_range_def)
      with cur show ?thesis by (simp add: deliverable_def)
    next
      case False
      with n(3) cur None have "fmlookup sk' (pk_id q) = None"
        by (simp add: stores_range_def)
      moreover have "message_key P (ck_key c') (pk_num q - pos c') = message_key P (ck_key c) (pk_num q - pos c)"
        using False n(1,2) by (simp add: message_key_shift)
      ultimately show ?thesis
        using cur nf False n(2) by (simp add: deliverable_def)
    qed
  qed
qed

text \<open>Taking the key of the next message off the chain leaves the other packets deliverable.\<close>

definition popped :: "provider \<Rightarrow> ChainKey \<Rightarrow> ChainKey" where
  "popped P c = \<lparr>ck_key = chain_key P (ck_key c) 1, ck_index = ck_index c + 1\<rparr>"

lemma popped_simps:
  assumes "ck_index c \<noteq> - 1"
  shows "pos (popped P c) = Suc (pos c)" "ck_key (popped P c) = chain_key P (ck_key c) 1"
  using assms by (simp_all add: popped_def unat_Suc_not_max)

lemma pop_keeps:
  assumes "no_future R" "remote_dh_public R = Some b" "receiving_chain R = Some c"
    and "ck_index c \<noteq> - 1"
  shows "no_future (R\<lparr>receiving_chain := Some (popped P c)\<rparr>)"
    and "deliverable P R q \<Longrightarrow> pk_id q \<noteq> (b, ck_index c) \<Longrightarrow>
      deliverable P (R\<lparr>receiving_chain := Some (popped P c)\<rparr>) q"
proof -
  show "no_future (R\<lparr>receiving_chain := Some (popped P c)\<rparr>)"
    using assms by (auto simp: no_future_def popped_simps)
next
  assume q: "deliverable P R q" "pk_id q \<noteq> (b, ck_index c)"
  show "deliverable P (R\<lparr>receiving_chain := Some (popped P c)\<rparr>) q"
  proof (cases "fmlookup (skipped_keys R) (pk_id q)")
    case (Some mk)
    with q show ?thesis by (simp add: deliverable_def)
  next
    case None
    with q assms have cur: "pk_dh q = b" "pos c \<le> pk_num q"
      "opens P (message_key P (ck_key c) (pk_num q - pos c)) q"
      by (auto simp: deliverable_def)
    with q(2) have "pos c \<noteq> pk_num q" by (auto simp: word_unat_eq_iff)
    with cur(2) have "Suc (pos c) \<le> pk_num q" by simp
    moreover from this have "message_key P (chain_key P (ck_key c) 1) (pk_num q - Suc (pos c)) =
        message_key P (ck_key c) (pk_num q - pos c)"
      by (simp add: message_key_shift Suc_le_eq Suc_diff_Suc del: chain_key.simps)
    ultimately show ?thesis
      using None assms cur by (simp add: deliverable_def popped_simps del: chain_key.simps)
  qed
qed


section \<open>Receiving on the chain at hand\<close>

text \<open>
  What one attempt to receive packet \<open>p\<close> leaves of the receiver: its keys other than the
  chain and the store, and the fact that everything else in flight stays deliverable.
\<close>

definition received ::
  "provider \<Rightarrow> Session \<Rightarrow> packet \<Rightarrow> bytes result \<Rightarrow> Session \<Rightarrow> bool"
where
  "received P R p x R' \<longleftrightarrow>
     (x = Ok (pk_plain p) \<or> x = Err too_many) \<and> no_future R' \<and>
     (\<exists>rc sk. R' = R\<lparr>receiving_chain := rc, skipped_keys := sk\<rparr> \<and>
        (\<forall>b m. fmlookup sk (b, m) \<noteq> None \<longrightarrow>
           fmlookup (skipped_keys R) (b, m) \<noteq> None \<or> remote_dh_public R = Some b) \<and>
        (rc = receiving_chain R \<or>
          (\<exists>c c' j. receiving_chain R = Some c \<and> rc = Some c' \<and> pos c' = pos c + j \<and>
             ck_key c' = chain_key P (ck_key c) j \<and> pos c' \<le> Suc (pk_num p) \<and>
             remote_dh_public R = Some (pk_dh p)))) \<and>
     (\<forall>q. deliverable P R q \<longrightarrow> pk_id q \<noteq> pk_id p \<longrightarrow> deliverable P R' q)"

text \<open>How many new keys the receiver has to store to reach the packet on its current chain.\<close>

definition chain_gap :: "Session \<Rightarrow> nat \<Rightarrow> nat" where
  "chain_gap R n = (case receiving_chain R of None \<Rightarrow> 0 | Some c \<Rightarrow> n - pos c)"

lemma drop_stored:
  assumes "no_future R" "fmlookup (skipped_keys R) (pk_id p) = Some mk" "opens P mk p"
  shows "received P R p (aead_decrypt P mk (pk_body p) (header_to_bytes P (pk_header p)))
           (R\<lparr>skipped_keys := fmdrop (pk_id p) (skipped_keys R)\<rparr>)"
  unfolding received_def
proof (intro conjI exI)
  show "R\<lparr>skipped_keys := fmdrop (pk_id p) (skipped_keys R)\<rparr> =
      R\<lparr>receiving_chain := receiving_chain R, skipped_keys := fmdrop (pk_id p) (skipped_keys R)\<rparr>"
    by simp
qed (use assms in \<open>auto simp: opens_def no_future_def deliverable_def split: if_splits option.splits\<close>)

lemma receive_current:
  assumes laws: "hmac_total P" and nf: "no_future R"
    and cur: "fmlookup (skipped_keys R) (pk_id p) = None" "deliverable P R p"
    and num: "mh_message_number (pk_header p) \<noteq> - 1"
    and run: "receive_on_chain P (pk_header p) (pk_body p) R = (x, R')"
  shows "received P R p x R'"
    and "map_len (skipped_keys R) + chain_gap R (pk_num p) \<le> 100 \<Longrightarrow> x = Ok (pk_plain p)"
proof -
  from cur obtain c where c: "receiving_chain R = Some c" "remote_dh_public R = Some (pk_dh p)"
    "pos c \<le> pk_num p" "opens P (message_key P (ck_key c) (pk_num p - pos c)) p"
    by (auto simp: deliverable_def split: option.splits)
  obtain y c' sk' where res:
    "skip_result P (pk_dh p) (mh_message_number (pk_header p)) (c, skipped_keys R) y (c', sk')"
    and eq: "receive_on_chain P (pk_header p) (pk_body p) R =
      (case y of
         Ok _ \<Rightarrow> (aead_decrypt P (message_key P (ck_key c') 0) (pk_body p) (header_to_bytes P (pk_header p)),
                 R\<lparr>receiving_chain := Some \<lparr>ck_key = chain_key P (ck_key c') 1,
                                             ck_index = ck_index c' + 1\<rparr>,
                   skipped_keys := sk'\<rparr>)
       | Err er \<Rightarrow> (Err er, R\<lparr>receiving_chain := Some c', skipped_keys := sk'\<rparr>)
       | Panic \<Rightarrow> (Panic, R\<lparr>receiving_chain := Some c', skipped_keys := sk'\<rparr>))"
    by (rule receive_on_chain_some [OF laws c(1), of "pk_header p" "pk_body p"])
  from res obtain n where n: "ck_key c' = chain_key P (ck_key c) n" "pos c' = pos c + n"
    "stores_range P (pk_dh p) (ck_key c) (pos c) n (skipped_keys R) sk'"
    "y = Ok () \<and> n = pk_num p - pos c \<or>
     y = Err too_many \<and> n \<le> pk_num p - pos c \<and> 100 < map_len sk'"
    "map_len sk' \<le> map_len (skipped_keys R) + n"
    by (auto simp: skip_result_def)
  have nf': "no_future (moved R c' sk')"
    using nf c(2,1) res by (rule skip_keeps_no_future)
  have keep: "deliverable P (moved R c' sk') q" if "deliverable P R q" for q
    using nf c(2,1) res that by (rule skip_keeps_deliverable)
  have keys: "fmlookup (skipped_keys R) (b, m) \<noteq> None \<or> remote_dh_public R = Some b"
    if "fmlookup sk' (b, m) \<noteq> None" for b m
    using that n(3) c(2) by (auto simp: stores_range_def split: if_splits)
  from n(4) show "received P R p x R'"
  proof (elim disjE conjE)
    assume y: "y = Err too_many" and le: "n \<le> pk_num p - pos c"
    have R': "R' = moved R c' sk'" "x = Err too_many"
      using y eq run by simp_all
    have "pos c' \<le> Suc (pk_num p)" using n(2) le c(3) by simp
    then show ?thesis
      unfolding received_def R' using nf' keep keys c(1,2) n(1,2) by blast
  next
    assume y: "y = Ok ()" and k: "n = pk_num p - pos c"
    have idx: "ck_index c' = mh_message_number (pk_header p)"
      using n(2) k c(3) by (simp add: word_unat_eq_iff)
    have R': "R' = (moved R c' sk')\<lparr>receiving_chain := Some (popped P c')\<rparr>"
      "x = aead_decrypt P (message_key P (ck_key c') 0) (pk_body p) (header_to_bytes P (pk_header p))"
      using y eq run by (simp_all add: popped_def)
    have x: "x = Ok (pk_plain p)"
      using c(4) k R'(2) n(1) by (simp add: opens_def message_key_shift)
    have R'': "R' = R\<lparr>receiving_chain := Some (popped P c'), skipped_keys := sk'\<rparr>"
      using R'(1) by simp
    have ne: "ck_index c' \<noteq> - 1" using num idx by simp
    have pop: "pos (popped P c') = pos c + Suc n"
      "ck_key (popped P c') = chain_key P (ck_key c) (Suc n)"
      using popped_simps [OF ne] n(1,2) by simp_all
    have "no_future R'" and "\<And>q. deliverable P R q \<Longrightarrow> pk_id q \<noteq> pk_id p \<Longrightarrow> deliverable P R' q"
      unfolding R'(1) using pop_keeps [OF nf', of "pk_dh p" c'] ne c(2) idx keep by auto
    moreover have "pos (popped P c') \<le> Suc (pk_num p)" using pop k c(3) by simp
    ultimately show ?thesis
      unfolding received_def using x R'' keys c(1,2) pop by blast
  qed
  assume "map_len (skipped_keys R) + chain_gap R (pk_num p) \<le> 100"
  with n(4,5) c(1) have "y = Ok ()" "n = pk_num p - pos c"
    by (auto simp: chain_gap_def)
  with eq run c(4) n(1) show "x = Ok (pk_plain p)"
    by (simp add: opens_def message_key_shift)
qed


lemma decrypt_deliverable:
  assumes laws: "ratchet_laws P" and wf: "session_wf R" and nf: "no_future R"
    and p: "deliverable P R p" and num: "mh_message_number (pk_header p) \<noteq> - 1"
    and run: "ratchet_decrypt P (pk_header p) (pk_body p) (R, r) = (x, (R', r'))"
  shows "received P R p x R'" and "r' = r" and "session_wf R'"
    and "fmlookup (skipped_keys R) (pk_id p) \<noteq> None \<or>
         map_len (skipped_keys R) + chain_gap R (pk_num p) \<le> 100 \<Longrightarrow> x = Ok (pk_plain p)"
proof -
  note l = ratchet_lawsD [OF laws]
  show "session_wf R'"
    using l(3,4,2) wf run by (rule ratchet_decrypt_wf)
  have "received P R p x R' \<and> r' = r \<and>
    (fmlookup (skipped_keys R) (pk_id p) \<noteq> None \<or>
     map_len (skipped_keys R) + chain_gap R (pk_num p) \<le> 100 \<longrightarrow> x = Ok (pk_plain p))"
  proof (cases "fmlookup (skipped_keys R) (pk_id p)")
    case (Some mk)
    with wf have "length mk = 32" unfolding session_wf_def by blast
    moreover from Some p have op: "opens P mk p" by (simp add: deliverable_def)
    ultimately have "x = Ok (pk_plain p)"
      "x = aead_decrypt P mk (pk_body p) (header_to_bytes P (pk_header p))"
      "R' = R\<lparr>skipped_keys := fmdrop (pk_id p) (skipped_keys R)\<rparr>" "r' = r"
      using run Some by (simp_all add: decrypt_stored opens_def)
    with drop_stored [OF nf Some op] show ?thesis by simp
  next
    case None
    with p have rem: "remote_dh_public R = Some (pk_dh p)" by (simp add: deliverable_def)
    with wf have "length (pk_dh p) = 32" by (simp add: session_wf_def)
    with run None rem have "receive_on_chain P (pk_header p) (pk_body p) R = (x, R')" "r' = r"
      by (auto simp: decrypt_same_chain split: prod.splits)
    with receive_current [OF l(4) nf None p num] None show ?thesis by blast
  qed
  then show "received P R p x R'" and "r' = r"
    and "fmlookup (skipped_keys R) (pk_id p) \<noteq> None \<or>
         map_len (skipped_keys R) + chain_gap R (pk_num p) \<le> 100 \<Longrightarrow> x = Ok (pk_plain p)"
    by blast+
qed

section \<open>The two channels of a pair of sessions\<close>

text \<open>The sender's chain is the receiver's chain, the same number of steps ahead as its index.\<close>

definition in_step :: "provider \<Rightarrow> ChainKey option \<Rightarrow> ChainKey option \<Rightarrow> bool" where
  "in_step P sc rc \<longleftrightarrow>
     (case (sc, rc) of
        (None, None) \<Rightarrow> True
      | (Some a, Some b) \<Rightarrow> pos b \<le> pos a \<and> ck_key a = chain_key P (ck_key b) (pos a - pos b)
      | _ \<Rightarrow> False)"

lemma in_step_receive:
  assumes "in_step P (Some a) (Some c)" "pos c' = pos c + j" "ck_key c' = chain_key P (ck_key c) j"
    and "pos c' \<le> pos a"
  shows "in_step P (Some a) (Some c')"
  using assms by (simp add: in_step_def chain_key_add)

lemma in_step_send:
  assumes "in_step P (Some a) (Some c)" "ck_index a \<noteq> - 1"
  shows "in_step P (Some (popped P a)) (Some c)"
proof -
  from assms(1) have le: "pos c \<le> pos a" and eq: "ck_key a = chain_key P (ck_key c) (pos a - pos c)"
    by (auto simp: in_step_def)
  have "ck_key (popped P a) = chain_key P (ck_key c) (pos a - pos c + 1)"
    using assms(2) eq by (simp add: popped_simps chain_key_add del: chain_key.simps)
  then show ?thesis
    using le assms(2) by (simp add: in_step_def popped_simps Suc_diff_le)
qed

definition sent :: "Session \<Rightarrow> nat" where
  "sent S = (case sending_chain S of None \<Rightarrow> 0 | Some a \<Rightarrow> pos a)"

text \<open>From the party behind to the party ahead: everything in flight is deliverable as it is.\<close>

definition old_channel :: "provider \<Rightarrow> Session \<Rightarrow> Session \<Rightarrow> packet list \<Rightarrow> bool" where
  "old_channel P S R box \<longleftrightarrow>
     remote_dh_public R = Some (dh_public S) \<and> in_step P (sending_chain S) (receiving_chain R) \<and>
     (\<forall>p\<in>set box. deliverable P R p \<and> (pk_dh p = dh_public S \<longrightarrow> pk_num p < sent S))"

text \<open>
  From the party ahead to the party behind: packets of the sender's former chain are
  deliverable; packets under its new key will open with the chain the ratchet step derives.
\<close>

definition upcoming :: "provider \<Rightarrow> bytes \<Rightarrow> Session \<Rightarrow> packet \<Rightarrow> bool" where
  "upcoming P ck S p \<longleftrightarrow>
     pk_dh p = dh_public S \<and> pk_num p < sent S \<and>
     mh_previous_chain_length (pk_header p) = previous_sending_chain_length S \<and>
     opens P (message_key P ck (pk_num p)) p"

definition next_chain :: "provider \<Rightarrow> Session \<Rightarrow> Session \<Rightarrow> bytes \<Rightarrow> bool" where
  "next_chain P S R ck \<longleftrightarrow>
     root_step P (root_key R) (x_dh P (dh_secret R) (dh_public S)) = (root_key S, ck) \<and>
     (\<exists>a. sending_chain S = Some a \<and> ck_key a = chain_key P ck (pos a))"

definition new_channel :: "provider \<Rightarrow> Session \<Rightarrow> Session \<Rightarrow> packet list \<Rightarrow> bool" where
  "new_channel P S R box \<longleftrightarrow>
     remote_dh_public R \<noteq> Some (dh_public S) \<and>
     (\<forall>m. fmlookup (skipped_keys R) (dh_public S, m) = None) \<and>
     (\<exists>ck. next_chain P S R ck \<and>
       (\<forall>p\<in>set box. upcoming P ck S p \<or>
          deliverable P R p \<and>
          (remote_dh_public R = Some (pk_dh p) \<longrightarrow> pk_num p < unat (previous_sending_chain_length S))))"

definition party_ok :: "provider \<Rightarrow> Session \<Rightarrow> bool" where
  "party_ok P R \<longleftrightarrow> session_wf R \<and> no_future R \<and> dh_public R = x_public P (dh_secret R)"

text \<open>\<open>U\<close> holds every ratchet key made so far.\<close>

definition keys_in :: "bytes set \<Rightarrow> Session \<Rightarrow> packet list \<Rightarrow> bool" where
  "keys_in U R box \<longleftrightarrow>
     dh_public R \<in> U \<and> (\<forall>p. remote_dh_public R = Some p \<longrightarrow> p \<in> U) \<and>
     (\<forall>b m. fmlookup (skipped_keys R) (b, m) \<noteq> None \<longrightarrow> b \<in> U) \<and>
     (\<forall>p\<in>set box. pk_dh p \<in> U \<and> mh_message_number (pk_header p) \<noteq> - 1) \<and>
     distinct (map pk_id box)"

text \<open>\<open>X\<close> is behind, \<open>Y\<close> is ahead; \<open>bx\<close> and \<open>by\<close> are the packets in flight to each.\<close>

definition pair_inv ::
  "provider \<Rightarrow> bytes set \<Rightarrow> Session \<Rightarrow> packet list \<Rightarrow> Session \<Rightarrow> packet list \<Rightarrow> bool"
where
  "pair_inv P U X bx Y byy \<longleftrightarrow>
     party_ok P X \<and> party_ok P Y \<and> keys_in U X bx \<and> keys_in U Y byy \<and>
     old_channel P X Y byy \<and> new_channel P Y X bx"

lemma pair_invD:
  assumes "pair_inv P U X bx Y byy"
  shows "party_ok P X" "party_ok P Y" "keys_in U X bx" "keys_in U Y byy"
    "old_channel P X Y byy" "new_channel P Y X bx"
  using assms by (auto simp: pair_inv_def)

lemma keys_in_mono: "keys_in U R box \<Longrightarrow> U \<subseteq> V \<Longrightarrow> keys_in V R box"
  unfolding keys_in_def by blast

section \<open>Sending\<close>

text \<open>What sending does: the packet opens with the key at the head of the sending chain.\<close>

lemma encrypt_packet:
  assumes laws: "ratchet_laws P" and run: "ratchet_encrypt P m (S, r) = (Ok (h, e), (S', r'))"
  obtains a where "sending_chain S = Some a" "S' = S\<lparr>sending_chain := Some (popped P a)\<rparr>"
    "h = header_new (dh_public S) (ck_index a) (previous_sending_chain_length S)"
    "opens P (message_key P (ck_key a) 0) \<lparr>pk_header = h, pk_body = e, pk_plain = m\<rparr>"
proof -
  note l = ratchet_lawsD [OF laws]
  from l(4) run obtain a where a: "sending_chain S = Some a"
    "h = header_new (dh_public S) (ck_index a) (previous_sending_chain_length S)"
    "S' = S\<lparr>sending_chain := Some \<lparr>ck_key = hmac_tag P (ck_key a) [1], ck_index = ck_index a + 1\<rparr>\<rparr>"
    "aead_encrypt P (message_key P (ck_key a) 0) m (header_to_bytes P h) r = (Ok e, r')"
    by (rule ratchet_encrypt_Ok)
  moreover have "opens P (message_key P (ck_key a) 0) \<lparr>pk_header = h, pk_body = e, pk_plain = m\<rparr>"
    using aead_opens_sealed(1) [OF l(6) a(4)] by (simp add: opens_def)
  ultimately show thesis
    by (intro that [of a]) (simp_all add: popped_def)
qed

lemma deliverable_cong_sending [simp]:
  "deliverable P (R\<lparr>sending_chain := c\<rparr>) p = deliverable P R p"
  "no_future (R\<lparr>sending_chain := c\<rparr>) = no_future R"
  by (simp_all add: deliverable_def no_future_def split: option.split)

lemma party_ok_send:
  "party_ok P S \<Longrightarrow> sending_chain S = Some a \<Longrightarrow> party_ok P (S\<lparr>sending_chain := Some b\<rparr>)"
  by (auto simp: party_ok_def session_wf_def)

lemma keys_in_send [simp]: "keys_in U (S\<lparr>sending_chain := c\<rparr>) box = keys_in U S box"
  by (simp add: keys_in_def)


text \<open>
  A failed encryption still advances the chain, so advancing is proved apart from putting a
  packet on the network.
\<close>

lemma encrypt_advances:
  assumes "ratchet_laws P" and "ratchet_encrypt P m (S, r) = (x, (S', r'))" and "\<not> is_ok x"
  shows "S' = S \<or> (\<exists>a. sending_chain S = Some a \<and> S' = S\<lparr>sending_chain := Some (popped P a)\<rparr>)"
proof (cases "sending_chain S")
  case None
  with assms(2) show ?thesis by (simp add: ratchet_encrypt_no_chain)
next
  case (Some a)
  have "S' = S\<lparr>sending_chain := Some (popped P a)\<rparr>"
    using assms(2,3) ratchet_encrypt_chain [OF ratchet_lawsD(4) [OF assms(1)] Some, of m r]
    by (auto simp: popped_def Let_def split: prod.splits elim!: and_then_st.elims)
  with Some show ?thesis by blast
qed

lemma advance_behind:
  assumes inv: "pair_inv P U X bx Y byy" and a: "sending_chain X = Some a" "ck_index a \<noteq> - 1"
  shows "pair_inv P U (X\<lparr>sending_chain := Some (popped P a)\<rparr>) bx Y byy"
proof -
  note inv' = pair_invD [OF inv]
  note old = inv'(5) [unfolded old_channel_def]
  from old a(1) obtain c where c: "receiving_chain Y = Some c" "in_step P (Some a) (Some c)"
    by (auto simp: in_step_def split: option.splits)
  have "old_channel P (X\<lparr>sending_chain := Some (popped P a)\<rparr>) Y byy"
    using old a c in_step_send [OF c(2) a(2)]
    by (auto simp: old_channel_def sent_def popped_simps less_SucI)
  with inv' a show ?thesis
    by (simp add: pair_inv_def party_ok_send new_channel_def next_chain_def)
qed

lemma advance_ahead:
  assumes inv: "pair_inv P U X bx Y byy" and a: "sending_chain Y = Some a" "ck_index a \<noteq> - 1"
  shows "pair_inv P U X bx (Y\<lparr>sending_chain := Some (popped P a)\<rparr>) byy"
proof -
  note inv' = pair_invD [OF inv]
  define Y' where "Y' = Y\<lparr>sending_chain := Some (popped P a)\<rparr>"
  from inv'(6) obtain ck where ck: "next_chain P Y X ck"
    "\<forall>p\<in>set bx. upcoming P ck Y p \<or> deliverable P X p \<and>
       (remote_dh_public X = Some (pk_dh p) \<longrightarrow> pk_num p < unat (previous_sending_chain_length Y))"
    by (auto simp: new_channel_def)
  have "upcoming P ck Y' q" if "upcoming P ck Y q" for q
    using that a by (simp add: upcoming_def sent_def Y'_def popped_simps)
  moreover have "next_chain P Y' X ck"
    using ck(1) a
    by (auto simp: Y'_def next_chain_def popped_simps chain_key_add simp del: chain_key.simps)
  moreover have "previous_sending_chain_length Y' = previous_sending_chain_length Y"
    "dh_public Y' = dh_public Y"
    by (simp_all add: Y'_def)
  ultimately have "new_channel P Y' X bx"
    using inv'(6) ck unfolding new_channel_def by metis
  with inv' a show ?thesis
    by (simp add: pair_inv_def party_ok_send old_channel_def Y'_def)
qed

lemma send_from_behind:
  assumes laws: "ratchet_laws P" and inv: "pair_inv P U X bx Y byy"
    and run: "ratchet_encrypt P m (X, r) = (Ok (h, e), (X', r'))"
    and max: "mh_message_number h \<noteq> - 1"
  shows "pair_inv P U X' bx Y (\<lparr>pk_header = h, pk_body = e, pk_plain = m\<rparr> # byy)"
proof -
  define p where "p = \<lparr>pk_header = h, pk_body = e, pk_plain = m\<rparr>"
  from laws run obtain a where a: "sending_chain X = Some a"
    "X' = X\<lparr>sending_chain := Some (popped P a)\<rparr>"
    "h = header_new (dh_public X) (ck_index a) (previous_sending_chain_length X)"
    "opens P (message_key P (ck_key a) 0) p"
    unfolding p_def by (rule encrypt_packet)
  have ne: "ck_index a \<noteq> - 1" using max a(3) by simp
  have adv: "pair_inv P U X' bx Y byy"
    unfolding a(2) using inv a(1) ne by (rule advance_behind)
  note inv' = pair_invD [OF adv]
  note old = pair_invD(5) [OF inv, unfolded old_channel_def]
  from old a(1) obtain c where c: "receiving_chain Y = Some c" "pos c \<le> pos a"
    "ck_key a = chain_key P (ck_key c) (pos a - pos c)"
    by (auto simp: in_step_def split: option.splits)
  have p: "pk_dh p = dh_public X" "mh_message_number (pk_header p) = ck_index a"
    by (simp_all add: p_def a(3))
  have "deliverable P Y p"
    using inv'(2) old c p a(4)
    by (auto simp: party_ok_def no_future_def deliverable_def message_key_shift)
  moreover have "pk_num p < sent X'" "dh_public X' = dh_public X"
    using a(2) p(2) ne by (simp_all add: sent_def popped_simps)
  ultimately have "old_channel P X' Y (p # byy)"
    using inv'(5) p by (simp add: old_channel_def)
  moreover have "pk_id p \<notin> set (map pk_id byy)"
  proof
    assume "pk_id p \<in> set (map pk_id byy)"
    then obtain q where "q \<in> set byy" "pk_dh q = dh_public X" "pk_num q = pos a"
      using p by auto
    with old a(1) show False by (auto simp: sent_def)
  qed
  then have "keys_in U Y (p # byy)"
    using pair_invD(3,4) [OF inv] p ne by (auto simp: keys_in_def)
  ultimately show ?thesis
    using inv' by (simp add: pair_inv_def p_def)
qed

lemma send_from_ahead:
  assumes laws: "ratchet_laws P" and inv: "pair_inv P U X bx Y byy"
    and run: "ratchet_encrypt P m (Y, r) = (Ok (h, e), (Y', r'))"
    and max: "mh_message_number h \<noteq> - 1"
  shows "pair_inv P U X (\<lparr>pk_header = h, pk_body = e, pk_plain = m\<rparr> # bx) Y' byy"
proof -
  define p where "p = \<lparr>pk_header = h, pk_body = e, pk_plain = m\<rparr>"
  from laws run obtain a where a: "sending_chain Y = Some a"
    "Y' = Y\<lparr>sending_chain := Some (popped P a)\<rparr>"
    "h = header_new (dh_public Y) (ck_index a) (previous_sending_chain_length Y)"
    "opens P (message_key P (ck_key a) 0) p"
    unfolding p_def by (rule encrypt_packet)
  have ne: "ck_index a \<noteq> - 1" using max a(3) by simp
  have adv: "pair_inv P U X bx Y' byy"
    unfolding a(2) using inv a(1) ne by (rule advance_ahead)
  note inv' = pair_invD [OF adv]
  note new = pair_invD(6) [OF inv, unfolded new_channel_def]
  from inv'(6) obtain ck where ck: "next_chain P Y' X ck"
    "\<forall>p\<in>set bx. upcoming P ck Y' p \<or> deliverable P X p \<and>
       (remote_dh_public X = Some (pk_dh p) \<longrightarrow> pk_num p < unat (previous_sending_chain_length Y'))"
    by (auto simp: new_channel_def)
  have p: "pk_dh p = dh_public Y" "mh_message_number (pk_header p) = ck_index a"
    "mh_previous_chain_length (pk_header p) = previous_sending_chain_length Y"
    by (simp_all add: p_def a(3))
  have key: "ck_key a = chain_key P ck (pos a)"
    using ck(1) new a(1,2) by (auto simp: next_chain_def)
  have "upcoming P ck Y' p"
    using p a ne key by (simp add: upcoming_def sent_def popped_simps message_key_shift)
  with ck inv'(6) have "new_channel P Y' X (p # bx)"
    unfolding new_channel_def by (metis set_ConsD)
  moreover have "pk_id p \<notin> set (map pk_id bx)"
  proof
    assume "pk_id p \<in> set (map pk_id bx)"
    then obtain q where q: "q \<in> set bx" "pk_dh q = dh_public Y" "pk_num q = pos a" "pk_id q = pk_id p"
      using p by auto
    with new have "\<not> deliverable P X q"
      by (auto simp: deliverable_def)
    with q new a(1) show False by (auto simp: upcoming_def sent_def)
  qed
  then have "keys_in U X (p # bx)"
    using pair_invD(3,4) [OF inv] p ne by (auto simp: keys_in_def)
  ultimately show ?thesis
    using inv' by (simp add: pair_inv_def p_def)
qed

text \<open>How many new keys the receiver has to store before it can open the packet.\<close>

definition gap :: "Session \<Rightarrow> packet \<Rightarrow> nat" where
  "gap R p =
     (if fmlookup (skipped_keys R) (pk_id p) \<noteq> None then 0
      else if remote_dh_public R = Some (pk_dh p) then chain_gap R (pk_num p)
      else chain_gap R (unat (mh_previous_chain_length (pk_header p))) + pk_num p)"

lemma gap_deliverable:
  assumes "deliverable P R p" "map_len (skipped_keys R) + gap R p \<le> 100"
  shows "fmlookup (skipped_keys R) (pk_id p) \<noteq> None \<or>
    map_len (skipped_keys R) + chain_gap R (pk_num p) \<le> 100"
proof (cases "fmlookup (skipped_keys R) (pk_id p)")
  case None
  with assms show ?thesis by (simp add: gap_def deliverable_def)
qed simp

lemma party_ok_dh_length: "party_ok P R \<Longrightarrow> length (dh_public R) = 32"
  by (auto simp: party_ok_def session_wf_def)

section \<open>Receiving without a ratchet step\<close>

lemma remove1_other:
  assumes "distinct (map pk_id box)" "p \<in> set box" "q \<in> set (remove1 p box)"
  shows "q \<in> set box" "pk_id q \<noteq> pk_id p"
proof -
  from assms(1) have d: "distinct box" by (simp add: distinct_map)
  with assms(3) show "q \<in> set box" by (simp add: set_remove1_eq)
  from d assms(3) have "q \<noteq> p" by (simp add: set_remove1_eq)
  moreover have "inj_on pk_id (set box)" using assms(1) by (simp add: distinct_map)
  ultimately show "pk_id q \<noteq> pk_id p"
    using assms(2) \<open>q \<in> set box\<close> by (auto dest: inj_onD)
qed

lemma distinct_remove1_id: "distinct (map pk_id box) \<Longrightarrow> distinct (map pk_id (remove1 p box))"
proof (induction box)
  case (Cons q box)
  then show ?case using set_remove1_subset [of p box] by auto
qed simp

text \<open>An update of the receiving chain and the store, and what the channels make of it.\<close>

definition store_update :: "Session \<Rightarrow> ChainKey option \<Rightarrow> skipped \<Rightarrow> Session \<Rightarrow> bool" where
  "store_update R rc sk R' \<longleftrightarrow>
     R' = R\<lparr>receiving_chain := rc, skipped_keys := sk\<rparr> \<and>
     (\<forall>b m. fmlookup sk (b, m) \<noteq> None \<longrightarrow>
        fmlookup (skipped_keys R) (b, m) \<noteq> None \<or> remote_dh_public R = Some b)"

lemma keys_in_update:
  assumes "keys_in U R box" "store_update R rc sk R'" "set box' \<subseteq> set box" "distinct (map pk_id box')"
  shows "keys_in U R' box'"
proof -
  from assms(2) have R': "R' = R\<lparr>receiving_chain := rc, skipped_keys := sk\<rparr>"
    and sk: "\<And>b m. fmlookup sk (b, m) \<noteq> None \<Longrightarrow>
      fmlookup (skipped_keys R) (b, m) \<noteq> None \<or> remote_dh_public R = Some b"
    by (auto simp: store_update_def)
  have "b \<in> U" if "fmlookup sk (b, m) \<noteq> None" for b m
    using sk [OF that] assms(1) unfolding keys_in_def by blast
  with assms(1,3,4) show ?thesis by (auto simp: keys_in_def R')
qed

lemma new_channel_update:
  assumes "new_channel P S R box" "store_update R rc sk R'" "set box' \<subseteq> set box"
    and "\<And>q. q \<in> set box' \<Longrightarrow> deliverable P R q \<Longrightarrow> deliverable P R' q"
  shows "new_channel P S R' box'"
proof -
  from assms(2) have R': "R' = R\<lparr>receiving_chain := rc, skipped_keys := sk\<rparr>"
    and sk: "\<And>b m. fmlookup sk (b, m) \<noteq> None \<Longrightarrow>
      fmlookup (skipped_keys R) (b, m) \<noteq> None \<or> remote_dh_public R = Some b"
    by (auto simp: store_update_def)
  from assms(1) obtain ck where ck: "next_chain P S R ck"
    "remote_dh_public R \<noteq> Some (dh_public S)"
    "\<And>m. fmlookup (skipped_keys R) (dh_public S, m) = None"
    "\<forall>p\<in>set box. upcoming P ck S p \<or> deliverable P R p \<and>
       (remote_dh_public R = Some (pk_dh p) \<longrightarrow> pk_num p < unat (previous_sending_chain_length S))"
    by (auto simp: new_channel_def)
  have "fmlookup sk (dh_public S, m) = None" for m
    using sk [of "dh_public S" m] ck(2) ck(3) [of m]
    by (cases "fmlookup sk (dh_public S, m)") auto
  moreover have "next_chain P S R' ck" using ck(1) by (simp add: next_chain_def R')
  moreover have "\<forall>p\<in>set box'. upcoming P ck S p \<or> deliverable P R' p \<and>
       (remote_dh_public R' = Some (pk_dh p) \<longrightarrow> pk_num p < unat (previous_sending_chain_length S))"
    using ck(4) assms(3,4) R' by auto
  ultimately show ?thesis using ck(2) by (auto simp: new_channel_def R')
qed

text \<open>The chain afterwards: untouched, or \<open>j\<close> steps further and not beyond the packet.\<close>

definition chain_update :: "provider \<Rightarrow> Session \<Rightarrow> packet \<Rightarrow> ChainKey option \<Rightarrow> bool" where
  "chain_update P R p rc \<longleftrightarrow>
     rc = receiving_chain R \<or>
     (\<exists>c c' j. receiving_chain R = Some c \<and> rc = Some c' \<and> pos c' = pos c + j \<and>
        ck_key c' = chain_key P (ck_key c) j \<and> pos c' \<le> Suc (pk_num p) \<and>
        remote_dh_public R = Some (pk_dh p))"

lemma receivedD:
  assumes "received P R p x R'"
  shows "\<exists>rc sk. store_update R rc sk R' \<and> chain_update P R p rc"
    and "x = Ok (pk_plain p) \<or> x = Err too_many" "no_future R'"
    and "deliverable P R q \<Longrightarrow> pk_id q \<noteq> pk_id p \<Longrightarrow> deliverable P R' q"
  using assms unfolding received_def store_update_def chain_update_def by blast+

lemma party_ok_update:
  assumes "party_ok P R" "store_update R rc sk R'" "session_wf R'" "no_future R'"
  shows "party_ok P R'"
  using assms by (auto simp: party_ok_def store_update_def)

lemma old_channel_receive:
  assumes old: "old_channel P S R box" and rcv: "received P R p x R'"
    and d: "distinct (map pk_id box)" and p: "p \<in> set box"
  shows "old_channel P S R' (remove1 p box)"
proof -
  from receivedD(1) [OF rcv] obtain rc sk where
    u: "store_update R rc sk R'" and rc: "chain_update P R p rc"
    by blast
  note keep = receivedD(4) [OF rcv]
  note old' = old [unfolded old_channel_def]
  have "in_step P (sending_chain S) rc"
    using rc unfolding chain_update_def
  proof (elim disjE exE conjE)
    assume "rc = receiving_chain R"
    with old' show ?thesis by simp
  next
    fix c c' j
    assume c: "receiving_chain R = Some c" "rc = Some c'" "pos c' = pos c + j"
      "ck_key c' = chain_key P (ck_key c) j" "pos c' \<le> Suc (pk_num p)"
      "remote_dh_public R = Some (pk_dh p)"
    with old' obtain a where a: "sending_chain S = Some a" "in_step P (Some a) (Some c)"
      by (auto simp: in_step_def split: option.splits)
    have "pk_num p < pos a" using old' p c(6) a(1) by (auto simp: sent_def)
    with c a show ?thesis by (auto intro: in_step_receive)
  qed
  moreover have "\<forall>q\<in>set (remove1 p box). deliverable P R' q \<and> (pk_dh q = dh_public S \<longrightarrow> pk_num q < sent S)"
    using remove1_other [OF d p] old' keep by blast
  ultimately show ?thesis
    using old' u by (simp add: old_channel_def store_update_def)
qed

lemma ahead_received:
  assumes inv: "pair_inv P U X bx Y byy" and p: "p \<in> set byy"
    and rcv: "received P Y p x Y'" and wf: "session_wf Y'"
  shows "pair_inv P U X bx Y' (remove1 p byy)"
proof -
  note inv' = pair_invD [OF inv]
  have d: "distinct (map pk_id byy)" using inv'(4) by (simp add: keys_in_def)
  from receivedD(1) [OF rcv] obtain rc sk where u: "store_update Y rc sk Y'" by blast
  have nf: "no_future Y'" using rcv by (rule receivedD)
  have "keys_in U Y' (remove1 p byy)"
    using inv'(4) u set_remove1_subset distinct_remove1_id [OF d] by (rule keys_in_update)
  moreover have "party_ok P Y'" using inv'(2) u wf nf by (rule party_ok_update)
  moreover have "old_channel P X Y' (remove1 p byy)"
    using inv'(5) rcv d p by (rule old_channel_receive)
  moreover have "new_channel P Y' X bx"
    using inv'(6) u by (simp add: new_channel_def next_chain_def store_update_def upcoming_def sent_def)
  ultimately show ?thesis
    using inv'(1,3) by (simp add: pair_inv_def)
qed

lemma behind_update:
  assumes inv: "pair_inv P U X bx Y byy" and d: "distinct (map pk_id bx')" "set bx' \<subseteq> set bx"
    and u: "store_update X rc sk X'" and ok: "party_ok P X'"
    and keep: "\<And>q. q \<in> set bx' \<Longrightarrow> deliverable P X q \<Longrightarrow> deliverable P X' q"
  shows "pair_inv P U X' bx' Y byy"
proof -
  note inv' = pair_invD [OF inv]
  have "keys_in U X' bx'" using inv'(3) u d(2,1) by (rule keys_in_update)
  moreover have "new_channel P Y X' bx'"
    using inv'(6) u d(2) keep by (rule new_channel_update)
  moreover have "old_channel P X' Y byy"
    using inv'(5) u by (simp add: old_channel_def store_update_def sent_def)
  ultimately show ?thesis
    using inv'(2,4) ok by (simp add: pair_inv_def)
qed

lemma deliver_to_ahead:
  assumes laws: "ratchet_laws P" and inv: "pair_inv P U X bx Y byy" and p: "p \<in> set byy"
    and run: "ratchet_decrypt P (pk_header p) (pk_body p) (Y, r) = (x, (Y', r'))"
  shows "pair_inv P U X bx Y' (remove1 p byy)" "x = Ok (pk_plain p) \<or> x = Err too_many"
    and "map_len (skipped_keys Y) + gap Y p \<le> 100 \<Longrightarrow> x = Ok (pk_plain p)"
proof -
  note inv' = pair_invD [OF inv]
  have pre: "session_wf Y" "no_future Y" "deliverable P Y p" "mh_message_number (pk_header p) \<noteq> - 1"
    using inv'(2,4,5) p by (auto simp: party_ok_def old_channel_def keys_in_def)
  note del = decrypt_deliverable [OF laws pre run]
  show "pair_inv P U X bx Y' (remove1 p byy)"
    using inv p del(1,3) by (rule ahead_received)
  show "x = Ok (pk_plain p) \<or> x = Err too_many" using del(1) by (rule receivedD)
  show "x = Ok (pk_plain p)" if "map_len (skipped_keys Y) + gap Y p \<le> 100"
    using gap_deliverable [OF pre(3) that] by (rule del(4))
qed

lemma deliver_to_behind:
  assumes laws: "ratchet_laws P" and inv: "pair_inv P U X bx Y byy" and p: "p \<in> set bx"
    and dv: "deliverable P X p"
    and run: "ratchet_decrypt P (pk_header p) (pk_body p) (X, r) = (x, (X', r'))"
  shows "pair_inv P U X' (remove1 p bx) Y byy" "x = Ok (pk_plain p) \<or> x = Err too_many"
    and "map_len (skipped_keys X) + gap X p \<le> 100 \<Longrightarrow> x = Ok (pk_plain p)"
proof -
  note inv' = pair_invD [OF inv]
  have pre: "session_wf X" "no_future X" "deliverable P X p" "mh_message_number (pk_header p) \<noteq> - 1"
    and d: "distinct (map pk_id bx)"
    using inv'(1,3) dv p by (auto simp: party_ok_def keys_in_def)
  note del = decrypt_deliverable [OF laws pre run]
  note rcv = receivedD [OF del(1)]
  from rcv(1) obtain rc sk where u: "store_update X rc sk X'" by blast
  show "pair_inv P U X' (remove1 p bx) Y byy"
  proof (rule behind_update [OF inv distinct_remove1_id [OF d] set_remove1_subset u])
    show "party_ok P X'" using inv'(1) u del(3) rcv(3) by (rule party_ok_update)
    show "deliverable P X' q" if "q \<in> set (remove1 p bx)" "deliverable P X q" for q
      using remove1_other [OF d p that(1)] that(2) rcv(4) by blast
  qed
  show "x = Ok (pk_plain p) \<or> x = Err too_many" by (rule rcv(2))
  show "x = Ok (pk_plain p)" if "map_len (skipped_keys X) + gap X p \<le> 100"
    using gap_deliverable [OF pre(3) that] by (rule del(4))
qed

section \<open>Receiving under a new key\<close>

text \<open>
  A run of the skipping loop before the ratchet step: it only touches chain and store, keeps
  what is deliverable, and when it completes every packet of the old chain below \<open>u\<close> has its
  key stored.
\<close>

definition skip_effect :: "provider \<Rightarrow> Session \<Rightarrow> nat \<Rightarrow> unit result \<Rightarrow> Session \<Rightarrow> bool" where
  "skip_effect P R u y R1 \<longleftrightarrow>
     (\<exists>rc sk. store_update R rc sk R1) \<and> no_future R1 \<and>
     (\<forall>q. deliverable P R q \<longrightarrow> deliverable P R1 q) \<and>
     (y = Ok () \<longrightarrow> (\<forall>q. deliverable P R q \<longrightarrow>
        (remote_dh_public R = Some (pk_dh q) \<longrightarrow> pk_num q < u) \<longrightarrow>
        (\<exists>mk. fmlookup (skipped_keys R1) (pk_id q) = Some mk \<and> opens P mk q))) \<and>
     (map_len (skipped_keys R) + chain_gap R u \<le> 100 \<longrightarrow> y = Ok () \<and>
        map_len (skipped_keys R1) \<le> map_len (skipped_keys R) + chain_gap R u)"

lemma skip_effect_none:
  assumes "no_future R" "receiving_chain R = None"
  shows "skip_effect P R u (Ok ()) R"
proof -
  have "store_update R (receiving_chain R) (skipped_keys R) R"
    by (simp add: store_update_def)
  with assms show ?thesis
    unfolding skip_effect_def by (auto simp: deliverable_def split: option.splits)
qed

lemma skip_effect_some:
  assumes nf: "no_future R" "remote_dh_public R = Some b" "receiving_chain R = Some c"
    and res: "skip_result P b u (c, skipped_keys R) y (c', sk')"
  shows "skip_effect P R (unat u) y (moved R c' sk')"
proof -
  from res obtain n where n: "pos c' = pos c + n"
    "stores_range P b (ck_key c) (pos c) n (skipped_keys R) sk'"
    "map_len sk' \<le> map_len (skipped_keys R) + n"
    "y = Ok () \<and> n = unat u - pos c \<or> y = Err too_many \<and> n \<le> unat u - pos c \<and> 100 < map_len sk'"
    by (auto simp: skip_result_def)
  have keep: "deliverable P (moved R c' sk') q" if "deliverable P R q" for q
    using nf res that by (rule skip_keeps_deliverable)
  have "store_update R (Some c') sk' (moved R c' sk')"
    using n(2) nf(2) by (auto simp: store_update_def stores_range_def split: if_splits)
  moreover have "no_future (moved R c' sk')"
    using nf res by (rule skip_keeps_no_future)
  moreover have "\<exists>mk. fmlookup sk' (pk_id q) = Some mk \<and> opens P mk q"
    if "y = Ok ()" "deliverable P R q" "remote_dh_public R = Some (pk_dh q) \<longrightarrow> pk_num q < unat u" for q
  proof -
    have "\<not> (remote_dh_public R = Some (pk_dh q) \<and> pos c' \<le> pk_num q)"
      using that(1,3) n(1,4) by auto
    with keep [OF that(2)] show ?thesis
      by (auto simp: deliverable_def split: option.splits)
  qed
  moreover have "y = Ok () \<and> map_len sk' \<le> map_len (skipped_keys R) + chain_gap R (unat u)"
    if "map_len (skipped_keys R) + chain_gap R (unat u) \<le> 100"
    using that n(3,4) nf(3) by (auto simp: chain_gap_def)
  ultimately show ?thesis
    unfolding skip_effect_def using keep by auto
qed

lemma skip_current_effect:
  assumes laws: "hmac_total P" and ok: "party_ok P R"
    and run: "skip_current_receiving_chain P u R = (y, R1)"
  shows "skip_effect P R (unat u) y R1" "party_ok P R1"
proof -
  from ok have wf: "session_wf R" and nf: "no_future R" by (auto simp: party_ok_def)
  show eff: "skip_effect P R (unat u) y R1"
  proof (cases "receiving_chain R")
    case None
    with run nf show ?thesis by (auto simp: skip_current_none intro: skip_effect_none)
  next
    case (Some c)
    with wf obtain b where b: "remote_dh_public R = Some b" by (auto simp: session_wf_def)
    from skip_current_some [OF laws Some b, of u] run obtain c' sk' where
      "R1 = moved R c' sk'" "skip_result P b u (c, skipped_keys R) y (c', sk')"
      by (metis prod.inject)
    with nf b Some show ?thesis by (auto intro: skip_effect_some)
  qed
  have "session_wf R1" using laws wf run by (rule skip_current_wf)
  with eff ok show "party_ok P R1"
    unfolding skip_effect_def by (auto intro: party_ok_update)
qed


text \<open>After the step the two root keys have changed roles: this is where the exchange commutes.\<close>

lemma ratcheted_next:
  assumes com: "dh_commutes P" and nx: "next_chain P Y X ck"
    and Y: "dh_public Y = x_public P (dh_secret Y)"
    and R_def: "R = ratcheted P (dh_public Y) secret X"
  shows "receiving_chain R = Some (chain_new ck 0)"
    and "\<exists>send. next_chain P R Y send \<and> sending_chain R = Some (chain_new send 0)"
    and "unat (previous_sending_chain_length R) = sent X"
proof -
  from nx have root: "root_step P (root_key X) (x_dh P (dh_secret X) (dh_public Y)) = (root_key Y, ck)"
    by (simp add: next_chain_def)
  obtain rk send where step: "root_step P (root_key Y) (x_dh P secret (dh_public Y)) = (rk, send)"
    by fastforce
  have "x_dh P (dh_secret Y) (x_public P secret) = x_dh P secret (dh_public Y)"
    using com Y by (simp add: dh_commutes_def)
  then show "\<exists>send. next_chain P R Y send \<and> sending_chain R = Some (chain_new send 0)"
    using root step by (auto simp: R_def ratcheted_def next_chain_def chain_new_def)
  show "receiving_chain R = Some (chain_new ck 0)"
    and "unat (previous_sending_chain_length R) = sent X"
    using root by (auto simp: R_def ratcheted_def sent_def split: prod.split option.split)
qed

lemma ratcheted_party_ok:
  assumes "x25519_sizes P" "party_ok P X" "length p = 32"
    and "\<And>m. fmlookup (skipped_keys X) (p, m) = None"
  shows "party_ok P (ratcheted P p secret X)"
  using assms by (auto simp: party_ok_def no_future_def intro: ratcheted_wf)

lemma upcoming_deliverable:
  assumes "receiving_chain R = Some (chain_new ck 0)" "remote_dh_public R = Some (dh_public S)"
    and "\<And>m. fmlookup (skipped_keys R) (dh_public S, m) = None" "upcoming P ck S q"
  shows "deliverable P R q"
proof -
  have "pk_id q = (dh_public S, mh_message_number (pk_header q))"
    using assms(4) by (simp add: upcoming_def)
  with assms show ?thesis by (simp add: deliverable_def upcoming_def chain_new_def)
qed

text \<open>The channel towards the party that ratchets: all of it is deliverable now.\<close>

lemma ratcheted_old_channel:
  assumes eff: "skip_effect P X (unat (previous_sending_chain_length Y)) (Ok ()) X1"
    and none: "\<And>m. fmlookup (skipped_keys X1) (dh_public Y, m) = None"
    and nx: "next_chain P Y X ck"
    and bx: "\<forall>p\<in>set bx. upcoming P ck Y p \<or> deliverable P X p \<and>
       (remote_dh_public X = Some (pk_dh p) \<longrightarrow> pk_num p < unat (previous_sending_chain_length Y))"
    and R: "receiving_chain R = Some (chain_new ck 0)" "remote_dh_public R = Some (dh_public Y)"
      "skipped_keys R = skipped_keys X1"
  shows "old_channel P Y R bx"
proof -
  have "deliverable P R q \<and> (pk_dh q = dh_public Y \<longrightarrow> pk_num q < sent Y)" if "q \<in> set bx" for q
    using bx [rule_format, OF that]
  proof (elim disjE conjE)
    assume "upcoming P ck Y q"
    with R none show ?thesis
      by (auto simp: upcoming_def intro: upcoming_deliverable)
  next
    assume "deliverable P X q"
      and "remote_dh_public X = Some (pk_dh q) \<longrightarrow> pk_num q < unat (previous_sending_chain_length Y)"
    with eff obtain mk where mk: "fmlookup (skipped_keys X1) (pk_id q) = Some mk" "opens P mk q"
      unfolding skip_effect_def by blast
    with none have "pk_dh q \<noteq> dh_public Y" by auto
    with mk R(3) show ?thesis by (simp add: deliverable_def)
  qed
  moreover from nx obtain a where "sending_chain Y = Some a" "ck_key a = chain_key P ck (pos a)"
    by (auto simp: next_chain_def)
  ultimately show ?thesis
    using R by (simp add: old_channel_def in_step_def chain_new_def)
qed

text \<open>The channel from it: its new key is unknown to the peer, its old chain is complete.\<close>

lemma ratcheted_new_channel:
  assumes old: "old_channel P X Y byy" and keys: "keys_in U X bx" "keys_in U Y byy"
    and fresh: "dh_public R \<notin> U" and nx: "next_chain P R Y send"
    and prev: "unat (previous_sending_chain_length R) = sent X"
  shows "new_channel P R Y byy"
proof -
  have "dh_public X \<noteq> dh_public R"
    using keys(1) fresh by (auto simp: keys_in_def)
  moreover have "fmlookup (skipped_keys Y) (dh_public R, m) = None" for m
    using keys(2) fresh unfolding keys_in_def by (metis not_None_eq)
  moreover have "\<forall>p\<in>set byy. deliverable P Y p \<and>
      (remote_dh_public Y = Some (pk_dh p) \<longrightarrow> pk_num p < unat (previous_sending_chain_length R))"
    using old prev by (auto simp: old_channel_def)
  ultimately show ?thesis
    using old nx unfolding old_channel_def new_channel_def by auto
qed

text \<open>The pair right after the ratchet step, before the packet itself is taken.\<close>

lemma ratcheted_pair:
  assumes laws: "ratchet_laws P" and inv: "pair_inv P U X bx Y byy"
    and run: "skip_current_receiving_chain P (previous_sending_chain_length Y) X = (Ok u, X1)"
    and fresh: "x_public P secret \<notin> U" and R_def: "R = ratcheted P (dh_public Y) secret X1"
  shows "pair_inv P (insert (x_public P secret) U) Y byy R bx"
    and "receiving_chain R = Some (chain_new ck 0) \<or> \<not> next_chain P Y X ck"
proof -
  note l = ratchet_lawsD [OF laws]
  note inv' = pair_invD [OF inv]
  have eff: "skip_effect P X (unat (previous_sending_chain_length Y)) (Ok ()) X1"
    and ok1: "party_ok P X1"
    using skip_current_effect [OF l(4) inv'(1) run] by simp_all
  then obtain rc sk where up: "store_update X rc sk X1"
    by (auto simp: skip_effect_def)
  then have same: "root_key X1 = root_key X" "dh_secret X1 = dh_secret X" "sent X1 = sent X"
    by (simp_all add: store_update_def sent_def)
  have "new_channel P Y X1 bx"
    using inv'(6) up subset_refl by (rule new_channel_update) (use eff in \<open>simp add: skip_effect_def\<close>)
  then have none: "\<And>m. fmlookup (skipped_keys X1) (dh_public Y, m) = None"
    by (simp add: new_channel_def)
  from inv'(6) obtain ck' where nx: "next_chain P Y X ck'" and
    bx: "\<forall>p\<in>set bx. upcoming P ck' Y p \<or> deliverable P X p \<and>
       (remote_dh_public X = Some (pk_dh p) \<longrightarrow> pk_num p < unat (previous_sending_chain_length Y))"
    by (auto simp: new_channel_def)
  have nx1: "next_chain P Y X1 ck'" using nx same by (simp add: next_chain_def)
  have Y: "dh_public Y = x_public P (dh_secret Y)" "length (dh_public Y) = 32"
    using inv'(2) by (auto simp: party_ok_def session_wf_def)
  note R = ratcheted_next [OF l(1) nx1 Y(1) R_def]
  have R': "remote_dh_public R = Some (dh_public Y)" "skipped_keys R = skipped_keys X1"
    "dh_public R = x_public P secret"
    by (simp_all add: R_def)
  have okR: "party_ok P R"
    unfolding R_def using l(2) ok1 Y(2) none by (rule ratcheted_party_ok)
  have old: "old_channel P Y R bx"
    using eff none nx bx R(1) R'(1,2) by (rule ratcheted_old_channel)
  have "keys_in U X1 bx"
    using inv'(3) up subset_refl by (rule keys_in_update) (use inv'(3) in \<open>simp add: keys_in_def\<close>)
  moreover have "dh_public Y \<in> U" using inv'(4) by (simp add: keys_in_def)
  ultimately have keysR: "keys_in (insert (x_public P secret) U) R bx"
    using R' unfolding keys_in_def by auto
  from R(2) obtain send where "next_chain P R Y send" by blast
  then have "new_channel P R Y byy"
    using ratcheted_new_channel [OF inv'(5,3,4)] fresh R'(3) R(3) same(3) by simp
  then show "pair_inv P (insert (x_public P secret) U) Y byy R bx"
    using okR inv'(2) old keysR keys_in_mono [OF inv'(4) subset_insertI]
    by (simp add: pair_inv_def)
  show "receiving_chain R = Some (chain_new ck 0) \<or> \<not> next_chain P Y X ck"
    using nx R(1) by (auto simp: next_chain_def)
qed

text \<open>
  The party behind receives a packet under the new key of the party ahead: either it stops
  in one of the two skipping loops, or the packet opens and the parties change roles.
\<close>

lemma receive_on_chain_frame:
  assumes "receive_on_chain P h e s = (x, s')"
  shows "dh_public s' = dh_public s" "remote_dh_public s' = remote_dh_public s"
proof -
  have "dh_public s' = dh_public s \<and> remote_dh_public s' = remote_dh_public s"
  proof (cases "receiving_chain s")
    case None
    with assms show ?thesis by (simp add: receive_on_chain_def)
  next
    case (Some c)
    obtain y c' sk' where "skip_loop P (mh_dh_public_key h) (mh_message_number h) (c, skipped_keys s)
        = (y, (c', sk'))" by (metis surj_pair)
    moreover obtain a c'' where "chain_advance P c' = (a, c'')" by fastforce
    ultimately show ?thesis
      using assms Some
      by (cases y; cases a) (auto simp: receive_on_chain_def Let_def split: if_splits)
  qed
  then show "dh_public s' = dh_public s" "remote_dh_public s' = remote_dh_public s" by simp_all
qed

text \<open>What the receiver has to do for a packet under the new key of its peer.\<close>

lemma upcoming_decrypt:
  assumes inv: "pair_inv P U X bx Y byy" and up: "upcoming P ck Y p"
  shows "fmlookup (skipped_keys X) (pk_id p) = None" "remote_dh_public X \<noteq> Some (pk_dh p)"
    and "length (pk_dh p) = 32"
    and "gap X p = chain_gap X (unat (previous_sending_chain_length Y)) + pk_num p"
proof -
  have hdr: "pk_dh p = dh_public Y"
    "mh_previous_chain_length (pk_header p) = previous_sending_chain_length Y"
    using up by (simp_all add: upcoming_def)
  show none: "fmlookup (skipped_keys X) (pk_id p) = None" and
    rem: "remote_dh_public X \<noteq> Some (pk_dh p)"
    using pair_invD(6) [OF inv] hdr(1) by (simp_all add: new_channel_def)
  show "length (pk_dh p) = 32"
    using pair_invD(2) [OF inv] hdr(1) by (simp add: party_ok_dh_length)
  show "gap X p = chain_gap X (unat (previous_sending_chain_length Y)) + pk_num p"
    using none rem hdr(2) by (simp add: gap_def)
qed

text \<open>The old chain has more unseen messages than the receiver stores: no ratchet step happens.\<close>

lemma upcoming_cut:
  assumes laws: "ratchet_laws P" and inv: "pair_inv P U X bx Y byy" and up: "upcoming P ck Y p"
    and sk: "skip_current_receiving_chain P (previous_sending_chain_length Y) X = (Err too_many, X1)"
    and run: "ratchet_decrypt P (pk_header p) (pk_body p) (X, r) = (x, (X', r'))"
  shows "pair_inv P U X' (remove1 p bx) Y byy" "x = Err too_many"
    and "\<not> map_len (skipped_keys X) + gap X p \<le> 100"
proof -
  note l = ratchet_lawsD [OF laws]
  note dec = upcoming_decrypt [OF inv up]
  have d: "distinct (map pk_id bx)"
    using pair_invD(3) [OF inv] by (simp add: keys_in_def)
  have "mh_previous_chain_length (pk_header p) = previous_sending_chain_length Y"
    using up by (simp add: upcoming_def)
  with sk run dec have X': "X' = X1" and x: "x = Err too_many"
    by (simp_all add: decrypt_ratchet_Err [OF l(3)])
  note eff = skip_current_effect [OF l(4) pair_invD(1) [OF inv] sk]
  from eff(1) obtain rc sk where u: "store_update X rc sk X1"
    by (auto simp: skip_effect_def)
  show "pair_inv P U X' (remove1 p bx) Y byy"
    unfolding X' using inv distinct_remove1_id [OF d] set_remove1_subset u eff(2)
    by (rule behind_update) (use eff(1) in \<open>simp add: skip_effect_def\<close>)
  show "x = Err too_many" by (rule x)
  show "\<not> map_len (skipped_keys X) + gap X p \<le> 100"
    using eff(1) dec(4) by (auto simp: skip_effect_def)
qed

text \<open>Otherwise the step happens and the packet is received on the chain it derives.\<close>

lemma upcoming_ratchet:
  assumes laws: "ratchet_laws P" and inv: "pair_inv P U X bx Y byy" and p: "p \<in> set bx"
    and nx: "next_chain P Y X ck" and up: "upcoming P ck Y p"
    and sk: "skip_current_receiving_chain P (previous_sending_chain_length Y) X = (Ok (), X1)"
    and run: "ratchet_decrypt P (pk_header p) (pk_body p) (X, r) = (x, (X', r'))"
    and fresh: "remote_dh_public X' \<noteq> remote_dh_public X \<Longrightarrow> dh_public X' \<notin> U"
  shows "pair_inv P (insert (dh_public X') U) Y byy X' (remove1 p bx)"
    and "x = Ok (pk_plain p) \<or> x = Err too_many"
    and "map_len (skipped_keys X) + gap X p \<le> 100 \<Longrightarrow> x = Ok (pk_plain p)"
proof -
  note l = ratchet_lawsD [OF laws]
  note inv' = pair_invD [OF inv]
  note pre = upcoming_decrypt [OF inv up]
  note eff = skip_current_effect [OF l(4) inv'(1) sk]
  have hdr: "pk_dh p = dh_public Y"
    "mh_previous_chain_length (pk_header p) = previous_sending_chain_length Y"
    using up by (simp_all add: upcoming_def)
  define R where "R = ratcheted P (dh_public Y) (map r [0..<32]) X1"
  have dec: "receive_on_chain P (pk_header p) (pk_body p) R = (x, X')"
    using sk hdr run pre by (simp add: decrypt_ratchet_Ok [OF l(3)] R_def split: prod.splits)
  note frame = receive_on_chain_frame [OF dec]
  have R: "remote_dh_public R = Some (dh_public Y)" "skipped_keys R = skipped_keys X1"
    "dh_public R = x_public P (map r [0..<32])"
    by (simp_all add: R_def)
  have new: "x_public P (map r [0..<32]) \<notin> U"
    using fresh frame R(1,3) pre(2) hdr(1) by simp
  have pr: "pair_inv P (insert (dh_public X') U) Y byy R bx"
    using ratcheted_pair(1) [OF laws inv sk new R_def] frame(1) R(3) by simp
  have rc: "receiving_chain R = Some (chain_new ck 0)"
    using ratcheted_pair(2) [OF laws inv sk new R_def] nx by blast
  have R': "deliverable P R p" "no_future R" "mh_message_number (pk_header p) \<noteq> - 1"
    using pair_invD(2,4,5) [OF pr] p by (simp_all add: old_channel_def party_ok_def keys_in_def)
  have "new_channel P Y X1 bx"
  proof -
    from eff(1) obtain rc sk where "store_update X rc sk X1" by (auto simp: skip_effect_def)
    with inv'(6) show ?thesis
      by (rule new_channel_update) (use eff(1) in \<open>auto simp: skip_effect_def\<close>)
  qed
  then have "fmlookup (skipped_keys R) (pk_id p) = None"
    using R(2) hdr(1) by (simp add: new_channel_def)
  note rcv = receive_current [OF l(4) R'(2) this R'(1,3) dec]
  have "session_wf X'"
    using l(3,4,2) _ run by (rule ratchet_decrypt_wf) (use inv'(1) in \<open>simp add: party_ok_def\<close>)
  then show "pair_inv P (insert (dh_public X') U) Y byy X' (remove1 p bx)"
    using pr p rcv(1) by (intro ahead_received)
  show "x = Ok (pk_plain p) \<or> x = Err too_many" using rcv(1) by (rule receivedD)
  show "x = Ok (pk_plain p)" if "map_len (skipped_keys X) + gap X p \<le> 100"
    using that eff(1) pre(4) R(2) rc
    by (intro rcv(2)) (auto simp: skip_effect_def chain_gap_def chain_new_def)
qed

lemma deliver_upcoming:
  assumes laws: "ratchet_laws P" and inv: "pair_inv P U X bx Y byy" and p: "p \<in> set bx"
    and nx: "next_chain P Y X ck" and up: "upcoming P ck Y p"
    and run: "ratchet_decrypt P (pk_header p) (pk_body p) (X, r) = (x, (X', r'))"
    and fresh: "remote_dh_public X' \<noteq> remote_dh_public X \<Longrightarrow> dh_public X' \<notin> U"
  shows "pair_inv P U X' (remove1 p bx) Y byy \<or>
         pair_inv P (insert (dh_public X') U) Y byy X' (remove1 p bx)"
    and "x = Ok (pk_plain p) \<or> x = Err too_many"
    and "map_len (skipped_keys X) + gap X p \<le> 100 \<Longrightarrow> x = Ok (pk_plain p)"
proof -
  obtain y X1 where sk: "skip_current_receiving_chain P (previous_sending_chain_length Y) X = (y, X1)"
    by fastforce
  have "y = Ok () \<or> y = Err too_many"
    using ratchet_lawsD(4) [OF laws] _ sk
    by (rule skip_current_outcome) (use pair_invD(1) [OF inv] in \<open>simp add: party_ok_def\<close>)
  then show "pair_inv P U X' (remove1 p bx) Y byy \<or>
      pair_inv P (insert (dh_public X') U) Y byy X' (remove1 p bx)"
    and "x = Ok (pk_plain p) \<or> x = Err too_many"
    and "map_len (skipped_keys X) + gap X p \<le> 100 \<Longrightarrow> x = Ok (pk_plain p)"
    using upcoming_cut [OF laws inv up _ run] upcoming_ratchet [OF laws inv p nx up _ run fresh] sk
    by blast+
qed

end
