(* ===== verification/Ratchet_Network.thy ===== *)
theory Ratchet_Network
  imports Ratchet_Channels "HOL-Library.Multiset"
begin

text \<open>
  Two sessions and an unreliable network between them, as a step relation. Each party sends
  when it likes; the network delivers the packets in flight in any order, or loses them. It
  does not forge or duplicate: what forged and repeated messages do is stated in
  \<open>Ratchet_Properties\<close>. Every ratchet key is new (the premise on \<open>used\<close>), which is what the
  operating system's random source gives up to a negligible probability, and no chain is
  used for \<open>2 ^ 32 - 1\<close> messages.
\<close>

section \<open>The network\<close>

record network =
  sess :: "party \<Rightarrow> Session"
  inbox :: "party \<Rightarrow> packet list"
  entropy :: rng
  used :: "bytes set"

text \<open>Alice starts from her secret and Bob's signed pre-key, Bob from his secret and that key.\<close>

definition net_init ::
  "provider \<Rightarrow> bytes \<Rightarrow> bytes \<Rightarrow> SignedPreKey \<Rightarrow> rng \<Rightarrow> (CryptoError, network) outcome"
where
  "net_init P alice_secret bob_secret spk r =
     (let (x, r') = init_alice P alice_secret (spk_x25519_public spk) r in
      and_then x (\<lambda>alice.
        Ok \<lparr>sess = (\<lambda>a. case a of Alice \<Rightarrow> alice | Bob \<Rightarrow> init_bob bob_secret spk),
            inbox = (\<lambda>_. []), entropy = r',
            used = {dh_public alice, spk_x25519_public spk}\<rparr>))"

text \<open>What becomes of the network when party \<open>a\<close> has moved to \<open>s\<close>, leaving \<open>r\<close> of the entropy.\<close>

definition moved_to :: "network \<Rightarrow> party \<Rightarrow> Session \<Rightarrow> rng \<Rightarrow> network" where
  "moved_to N a s r = N\<lparr>sess := (sess N)(a := s), entropy := r, used := insert (dh_public s) (used N)\<rparr>"

definition put_packet :: "party \<Rightarrow> packet \<Rightarrow> network \<Rightarrow> network" where
  "put_packet a p N = N\<lparr>inbox := (inbox N)(a := p # inbox N a)\<rparr>"

definition take_packet :: "party \<Rightarrow> packet \<Rightarrow> network \<Rightarrow> network" where
  "take_packet a p N = N\<lparr>inbox := (inbox N)(a := remove1 p (inbox N a))\<rparr>"

definition new_key_fresh :: "network \<Rightarrow> party \<Rightarrow> Session \<Rightarrow> bool" where
  "new_key_fresh N a s \<longleftrightarrow>
     (remote_dh_public s \<noteq> remote_dh_public (sess N a) \<longrightarrow> dh_public s \<notin> used N)"

definition chain_left :: "Session \<Rightarrow> bool" where
  "chain_left s \<longleftrightarrow> (case sending_chain s of None \<Rightarrow> True | Some c \<Rightarrow> ck_index c \<noteq> - 1)"

text \<open>What an observer at the two ends sees of a step.\<close>

datatype event =
    Sent party bytes
  | SealFailed party
  | Delivered party bytes
  | Refused party CryptoError
  | Crashed party
  | Lost party

fun delivery_event :: "party \<Rightarrow> bytes result \<Rightarrow> event" where
  "delivery_event a (Ok m) = Delivered a m"
| "delivery_event a (Err e) = Refused a e"
| "delivery_event a Panic = Crashed a"

inductive net_step :: "provider \<Rightarrow> network \<Rightarrow> event \<Rightarrow> network \<Rightarrow> bool" for P where
  send: "ratchet_encrypt P m (sess N a, entropy N) = (Ok (h, e), (s, r)) \<Longrightarrow> chain_left (sess N a) \<Longrightarrow>
     net_step P N (Sent a m)
       (put_packet (peer a) \<lparr>pk_header = h, pk_body = e, pk_plain = m\<rparr> (moved_to N a s r))"
| send_fails: "ratchet_encrypt P m (sess N a, entropy N) = (x, (s, r)) \<Longrightarrow> \<not> is_ok x \<Longrightarrow>
     chain_left (sess N a) \<Longrightarrow>
     net_step P N (if x = Panic then Crashed a else SealFailed a) (moved_to N a s r)"
| deliver: "p \<in> set (inbox N a) \<Longrightarrow>
     ratchet_decrypt P (pk_header p) (pk_body p) (sess N a, entropy N) = (x, (s, r)) \<Longrightarrow>
     new_key_fresh N a s \<Longrightarrow>
     net_step P N (delivery_event a x) (take_packet a p (moved_to N a s r))"
| lose: "p \<in> set (inbox N a) \<Longrightarrow> net_step P N (Lost a) (take_packet a p N)"

inductive runs :: "provider \<Rightarrow> network \<Rightarrow> event list \<Rightarrow> network \<Rightarrow> bool" for P N0 where
  start: "runs P N0 [] N0"
| step: "runs P N0 evs N \<Longrightarrow> net_step P N ev N' \<Longrightarrow> runs P N0 (evs @ [ev]) N'"

inductive_cases net_stepE: "net_step P N ev N'"

section \<open>The abstract channel\<close>

text \<open>
  What the pair of sessions promises, without keys, headers or chains: the plaintexts under way
  to each party, of which the network delivers or loses any. Nothing is delivered that was not
  sent, nothing is delivered twice, and the one refusal is the limit of skipped keys.
\<close>

type_synonym channel = "party \<Rightarrow> bytes multiset"

definition drop_msg :: "party \<Rightarrow> bytes \<Rightarrow> channel \<Rightarrow> channel" where
  "drop_msg a m C = C(a := C a - {#m#})"

inductive chan_step :: "channel \<Rightarrow> event \<Rightarrow> channel \<Rightarrow> bool" where
  "chan_step C (Sent a m) (C(peer a := add_mset m (C (peer a))))"
| "chan_step C (SealFailed a) C"
| "m \<in># C a \<Longrightarrow> chan_step C (Delivered a m) (drop_msg a m C)"
| "m \<in># C a \<Longrightarrow> chan_step C (Refused a too_many) (drop_msg a m C)"
| "m \<in># C a \<Longrightarrow> chan_step C (Lost a) (drop_msg a m C)"

inductive chan_runs :: "channel \<Rightarrow> event list \<Rightarrow> channel \<Rightarrow> bool" for C0 where
  start: "chan_runs C0 [] C0"
| step: "chan_runs C0 evs C \<Longrightarrow> chan_step C ev C' \<Longrightarrow> chan_runs C0 (evs @ [ev]) C'"

inductive_simps chan_step_simps:
  "chan_step C (Delivered a m) C'" "chan_step C (Crashed a) C'" "chan_step C (Refused a e) C'"

definition in_transit :: "network \<Rightarrow> channel" where
  "in_transit N = (\<lambda>a. mset (map pk_plain (inbox N a)))"

section \<open>The invariant of every reachable network\<close>

text \<open>One of the two parties is ahead; both channels are as that says.\<close>

definition net_inv :: "provider \<Rightarrow> network \<Rightarrow> bool" where
  "net_inv P N \<longleftrightarrow>
     (\<exists>a. pair_inv P (used N) (sess N (peer a)) (inbox N (peer a)) (sess N a) (inbox N a))"

lemma net_init_inv:
  assumes laws: "ratchet_laws P" and spk: "spk_wf P spk"
    and init: "net_init P ss ss spk r = Ok N"
  shows "net_inv P N"
proof -
  note l = ratchet_lawsD [OF laws]
  define a where "a = map r [0..<32]"
  obtain rk ck where step: "root_step P ss (x_dh P a (spk_x25519_public spk)) = (rk, ck)"
    by fastforce
  have spk': "spk_secret_bytes spk = spk_secret_seed spk"
    "spk_x25519_public spk = x_public P (spk_secret_seed spk)"
    using spk by (simp_all add: spk_secret_bytes_def spk_wf_def)
  have com: "x_dh P (spk_secret_seed spk) (x_public P a) = x_dh P a (spk_x25519_public spk)"
    using l(1) spk'(2) by (simp add: dh_commutes_def)
  define A where "A = \<lparr>root_key = rk, dh_secret = a, dh_public = x_public P a,
     remote_dh_public = Some (spk_x25519_public spk), sending_chain = Some (chain_new ck 0),
     receiving_chain = None, previous_sending_chain_length = 0, skipped_keys = fmempty\<rparr>"
  have N: "N = \<lparr>sess = (\<lambda>b. case b of Alice \<Rightarrow> A | Bob \<Rightarrow> init_bob ss spk), inbox = (\<lambda>_. []),
      entropy = (\<lambda>i. r (32 + i)), used = {x_public P a, spk_x25519_public spk}\<rparr>"
    using init step by (auto simp: net_init_def init_alice_total [OF l(3)] A_def a_def Let_def)
  have wf: "session_wf A" "session_wf (init_bob ss spk)"
    using l(2) spk'(2) by (simp_all add: A_def session_wf_def init_bob_def x25519_sizes_def)
  have B: "dh_public (init_bob ss spk) = spk_x25519_public spk"
    "dh_secret (init_bob ss spk) = spk_secret_seed spk"
    "remote_dh_public (init_bob ss spk) = None" "sending_chain (init_bob ss spk) = None"
    "skipped_keys (init_bob ss spk) = fmempty" "root_key (init_bob ss spk) = ss"
    by (simp_all add: init_bob_def spk')
  have "party_ok P A" "party_ok P (init_bob ss spk)"
    using wf B spk'(2) by (simp_all add: party_ok_def no_future_def A_def)
  moreover have "old_channel P (init_bob ss spk) A []"
    using B by (simp add: old_channel_def A_def in_step_def)
  moreover have "new_channel P A (init_bob ss spk) []"
    using B com step by (simp add: new_channel_def next_chain_def A_def chain_new_def)
  moreover have "keys_in (used N) A []" "keys_in (used N) (init_bob ss spk) []"
    using B by (simp_all add: keys_in_def N A_def)
  ultimately have "pair_inv P (used N) (sess N (peer Alice)) (inbox N (peer Alice))
      (sess N Alice) (inbox N Alice)"
    by (simp add: pair_inv_def N)
  then show ?thesis unfolding net_inv_def by blast
qed

lemma pair_inv_mono: "pair_inv P U X bx Y byy \<Longrightarrow> U \<subseteq> V \<Longrightarrow> pair_inv P V X bx Y byy"
  unfolding pair_inv_def using keys_in_mono by blast

text \<open>Losing a packet.\<close>

lemma pair_inv_lose:
  assumes inv: "pair_inv P U X bx Y byy"
  shows "pair_inv P U X (remove1 p bx) Y byy" "pair_inv P U X bx Y (remove1 p byy)"
proof -
  note inv' = pair_invD [OF inv]
  have sub: "set (remove1 p bx) \<subseteq> set bx" "set (remove1 p byy) \<subseteq> set byy"
    by (rule set_remove1_subset)+
  have keys: "keys_in U X (remove1 p bx)" "keys_in U Y (remove1 p byy)"
    using inv'(3,4) sub distinct_remove1_id by (auto simp: keys_in_def)
  have "new_channel P Y X (remove1 p bx)"
    using inv'(6) sub(1) unfolding new_channel_def by blast
  then show "pair_inv P U X (remove1 p bx) Y byy"
    using inv' keys by (simp add: pair_inv_def)
  have "old_channel P X Y (remove1 p byy)"
    using inv'(5) sub(2) unfolding old_channel_def by blast
  then show "pair_inv P U X bx Y (remove1 p byy)"
    using inv' keys by (simp add: pair_inv_def)
qed

text \<open>
  The invariant seen from a given party: it is the one behind or the one ahead. Both cases
  are closed under whatever the two channels do.
\<close>

lemma net_inv_cases:
  assumes "net_inv P N"
  obtains (ahead) "pair_inv P (used N) (sess N (peer a)) (inbox N (peer a)) (sess N a) (inbox N a)"
  | (behind) "pair_inv P (used N) (sess N a) (inbox N a) (sess N (peer a)) (inbox N (peer a))"
proof -
  from assms obtain b where
    b: "pair_inv P (used N) (sess N (peer b)) (inbox N (peer b)) (sess N b) (inbox N b)"
    unfolding net_inv_def by blast
  show thesis
  proof (cases "b = a")
    case True
    with b ahead show thesis by simp
  next
    case False
    then have "b = peer a" by (rule neq_imp_peer)
    with b behind show thesis by simp
  qed
qed

lemma net_invI:
  "pair_inv P U X bx Y byy \<Longrightarrow> used N = U \<Longrightarrow> sess N (peer a) = X \<Longrightarrow> inbox N (peer a) = bx \<Longrightarrow>
     sess N a = Y \<Longrightarrow> inbox N a = byy \<Longrightarrow> net_inv P N"
  unfolding net_inv_def by blast

lemma moved_to_fields [simp]:
  "sess (moved_to N a s r) = (sess N)(a := s)" "inbox (moved_to N a s r) = inbox N"
  "used (moved_to N a s r) = insert (dh_public s) (used N)" "entropy (moved_to N a s r) = r"
  by (simp_all add: moved_to_def)

lemma packet_fields [simp]:
  "sess (put_packet a p N) = sess N" "used (put_packet a p N) = used N"
  "inbox (put_packet a p N) = (inbox N)(a := p # inbox N a)"
  "sess (take_packet a p N) = sess N" "used (take_packet a p N) = used N"
  "inbox (take_packet a p N) = (inbox N)(a := remove1 p (inbox N a))"
  by (simp_all add: put_packet_def take_packet_def)

lemma keys_in_pair:
  assumes "pair_inv P U X bx Y byy"
  shows "insert (dh_public X) U = U" "insert (dh_public Y) U = U"
  using assms by (auto simp: pair_inv_def keys_in_def)

lemma send_number:
  assumes "ratchet_laws P" "ratchet_encrypt P m (S, r) = (Ok (h, e), (S', r'))" "chain_left S"
  shows "mh_message_number h \<noteq> - 1" "dh_public S' = dh_public S"
proof -
  from assms(1,2) obtain a where "sending_chain S = Some a" "S' = S\<lparr>sending_chain := Some (popped P a)\<rparr>"
    "h = header_new (dh_public S) (ck_index a) (previous_sending_chain_length S)"
    by (rule encrypt_packet)
  with assms(3) show "mh_message_number h \<noteq> - 1" "dh_public S' = dh_public S"
    by (simp_all add: chain_left_def)
qed

lemma net_inv_send:
  assumes laws: "ratchet_laws P" and inv: "net_inv P N"
    and run: "ratchet_encrypt P m (sess N a, r) = (Ok (h, e), (s, r'))" and left: "chain_left (sess N a)"
  shows "net_inv P (put_packet (peer a) \<lparr>pk_header = h, pk_body = e, pk_plain = m\<rparr> (moved_to N a s r'))"
  using inv
proof (cases rule: net_inv_cases [where a = a])
  case ahead
  note num = send_number [OF laws run left]
  from laws ahead run num(1) have "pair_inv P (used N) (sess N (peer a))
      (\<lparr>pk_header = h, pk_body = e, pk_plain = m\<rparr> # inbox N (peer a)) s (inbox N a)"
    by (rule send_from_ahead)
  then show ?thesis
    by (rule net_invI [where a = a]) (use keys_in_pair [OF ahead] num(2) in simp_all)
next
  case behind
  note num = send_number [OF laws run left]
  from laws behind run num(1) have "pair_inv P (used N) s (inbox N a) (sess N (peer a))
      (\<lparr>pk_header = h, pk_body = e, pk_plain = m\<rparr> # inbox N (peer a))"
    by (rule send_from_behind)
  then show ?thesis
    by (rule net_invI [where a = "peer a"]) (use keys_in_pair [OF behind] num(2) in simp_all)
qed

lemma net_inv_send_fails:
  assumes laws: "ratchet_laws P" and inv: "net_inv P N"
    and run: "ratchet_encrypt P m (sess N a, r) = (x, (s, r'))" and bad: "\<not> is_ok x"
    and left: "chain_left (sess N a)"
  shows "net_inv P (moved_to N a s r')"
proof -
  have pub: "dh_public s = dh_public (sess N a)"
    using encrypt_advances [OF laws run bad] by auto
  have idx: "\<And>c. sending_chain (sess N a) = Some c \<Longrightarrow> ck_index c \<noteq> - 1"
    using left by (auto simp: chain_left_def)
  show ?thesis
    using inv
  proof (cases rule: net_inv_cases [where a = a])
    case ahead
    have "pair_inv P (used N) (sess N (peer a)) (inbox N (peer a)) s (inbox N a)"
      using encrypt_advances [OF laws run bad] advance_ahead [OF ahead] idx ahead by blast
    then show ?thesis
      by (rule net_invI [where a = a]) (use keys_in_pair [OF ahead] pub in simp_all)
  next
    case behind
    have "pair_inv P (used N) s (inbox N a) (sess N (peer a)) (inbox N (peer a))"
      using encrypt_advances [OF laws run bad] advance_behind [OF behind] idx behind by blast
    then show ?thesis
      by (rule net_invI [where a = "peer a"]) (use keys_in_pair [OF behind] pub in simp_all)
  qed
qed

section \<open>Delivery\<close>

text \<open>
  One delivery in a network that satisfies the invariant: what the receiver returns, and the
  invariant afterwards.
\<close>

lemma net_deliver:
  assumes laws: "ratchet_laws P" and inv: "net_inv P N" and p: "p \<in> set (inbox N a)"
    and run: "ratchet_decrypt P (pk_header p) (pk_body p) (sess N a, r) = (x, (s, r'))"
    and fresh: "new_key_fresh N a s"
  shows "net_inv P (take_packet a p (moved_to N a s r'))"
    and "x = Ok (pk_plain p) \<or> x = Err too_many"
    and "map_len (skipped_keys (sess N a)) + gap (sess N a) p \<le> 100 \<Longrightarrow> x = Ok (pk_plain p)"
proof -
  have new: "remote_dh_public s \<noteq> remote_dh_public (sess N a) \<Longrightarrow> dh_public s \<notin> used N"
    using fresh by (simp add: new_key_fresh_def)
  define M where "M = take_packet a p (moved_to N a s r')"
  have M: "sess M a = s" "sess M (peer a) = sess N (peer a)" "inbox M a = remove1 p (inbox N a)"
    "inbox M (peer a) = inbox N (peer a)" "used M = insert (dh_public s) (used N)"
    by (simp_all add: M_def)
  have "net_inv P M \<and> (x = Ok (pk_plain p) \<or> x = Err too_many) \<and>
     (map_len (skipped_keys (sess N a)) + gap (sess N a) p \<le> 100 \<longrightarrow> x = Ok (pk_plain p))"
    using inv
  proof (cases rule: net_inv_cases [where a = a])
    case ahead
    note d = deliver_to_ahead [OF laws ahead p run]
    have "net_inv P M"
      using pair_inv_mono [OF d(1) subset_insertI]
      by (rule net_invI [where a = a]) (rule M refl)+
    with d(2,3) show ?thesis by blast
  next
    case behind
    from pair_invD(6) [OF behind] obtain ck where
      nx: "next_chain P (sess N (peer a)) (sess N a) ck" and
      split: "upcoming P ck (sess N (peer a)) p \<or> deliverable P (sess N a) p"
      using p by (auto simp: new_channel_def)
    have inv': "net_inv P M" if "pair_inv P (used N) s (remove1 p (inbox N a)) (sess N (peer a)) (inbox N (peer a))"
      using pair_inv_mono [OF that subset_insertI]
      by (rule net_invI [where a = "peer a"]) (use M in simp_all)
    from split show ?thesis
    proof
      assume "deliverable P (sess N a) p"
      from deliver_to_behind [OF laws behind p this run] inv' show ?thesis by blast
    next
      assume "upcoming P ck (sess N (peer a)) p"
      note d = deliver_upcoming [OF laws behind p nx this run new]
      have "net_inv P M" if "pair_inv P (insert (dh_public s) (used N)) (sess N (peer a)) (inbox N (peer a))
          s (remove1 p (inbox N a))"
        using that by (rule net_invI [where a = a]) (rule M refl)+
      with d inv' show ?thesis by blast
    qed
  qed
  then show "net_inv P (take_packet a p (moved_to N a s r'))"
    and "x = Ok (pk_plain p) \<or> x = Err too_many"
    and "map_len (skipped_keys (sess N a)) + gap (sess N a) p \<le> 100 \<Longrightarrow> x = Ok (pk_plain p)"
    by (auto simp: M_def)
qed

lemma net_step_inv:
  assumes laws: "ratchet_laws P" and "net_inv P N" "net_step P N ev N'"
  shows "net_inv P N'"
  using assms(3,2)
proof (cases rule: net_step.cases)
  case (lose p a)
  show ?thesis
    using assms(2)
  proof (cases rule: net_inv_cases [where a = a])
    case ahead
    from pair_inv_lose(2) [OF ahead, of p] show ?thesis
      by (rule net_invI [where a = a]) (simp_all add: lose(2))
  next
    case behind
    from pair_inv_lose(1) [OF behind, of p] show ?thesis
      by (rule net_invI [where a = "peer a"]) (simp_all add: lose(2))
  qed
qed (auto intro: net_inv_send net_inv_send_fails net_deliver laws)

lemma runs_inv:
  assumes "runs P N0 evs N" "ratchet_laws P" "net_inv P N0"
  shows "net_inv P N"
  using assms by (induction rule: runs.induct) (auto intro: net_step_inv)

section \<open>The network implements the channel\<close>

lemma in_transit_put: "in_transit (put_packet a p N) = (in_transit N)(a := add_mset (pk_plain p) (in_transit N a))"
  by (auto simp: in_transit_def put_packet_def fun_eq_iff)

lemma in_transit_take:
  "p \<in> set (inbox N a) \<Longrightarrow> in_transit (take_packet a p N) = drop_msg a (pk_plain p) (in_transit N)"
  by (auto simp: in_transit_def take_packet_def drop_msg_def fun_eq_iff image_mset_Diff)

lemma in_transit_moved [simp]: "in_transit (moved_to N a s r) = in_transit N"
  by (simp add: in_transit_def moved_to_def)

lemma ratchet_encrypt_not_Panic:
  assumes "ratchet_laws P"
  shows "ratchet_encrypt P m (s, r) \<noteq> (Panic, t)"
proof (cases "sending_chain s")
  case None
  then show ?thesis by (simp add: ratchet_encrypt_no_chain)
next
  case (Some c)
  note l = ratchet_lawsD [OF assms]
  have "aead_encrypt P k m ad r \<noteq> (Panic, u)" for k ad u
    using l(8) by (auto simp: aead_encrypt_def aes_no_panic_def outcome_simps draw_bytes_def Let_def)
  then show ?thesis
    by (auto simp: ratchet_encrypt_chain [OF l(4) Some] outcome_simps Let_def split: prod.splits)
qed

lemma net_step_chan_step:
  assumes laws: "ratchet_laws P" and inv: "net_inv P N" and step: "net_step P N ev N'"
  shows "chan_step (in_transit N) ev (in_transit N')"
  using step
proof (cases rule: net_step.cases)
  case (deliver p a x s r)
  have "pk_plain p \<in># in_transit N a"
    using deliver(3) by (simp add: in_transit_def)
  moreover have "in_transit N' = drop_msg a (pk_plain p) (in_transit N)"
    using deliver(2,3) by (simp add: in_transit_take)
  moreover have "x = Ok (pk_plain p) \<or> x = Err too_many"
    using laws inv deliver(3-5) by (rule net_deliver)
  ultimately show ?thesis using deliver(1) by (auto intro: chan_step.intros)
next
  case (send m a h e s r)
  have "in_transit N' = (in_transit N)(peer a := add_mset m (in_transit N (peer a)))"
    by (simp add: send(2) in_transit_put)
  then show ?thesis using send(1) by (simp add: chan_step.intros)
next
  case (send_fails m a x s r)
  then have "x \<noteq> Panic" using ratchet_encrypt_not_Panic [OF laws] by blast
  with send_fails show ?thesis by (simp add: chan_step.intros)
next
  case (lose p a)
  have "pk_plain p \<in># in_transit N a"
    using lose(3) by (simp add: in_transit_def)
  with lose show ?thesis by (auto simp: in_transit_take intro: chan_step.intros)
qed

lemma runs_chan_runs:
  assumes "runs P N0 evs N" "ratchet_laws P" "net_inv P N0"
  shows "chan_runs (in_transit N0) evs (in_transit N)"
  using assms
proof (induction rule: runs.induct)
  case (step evs N ev N')
  then show ?case
    by (blast intro: chan_runs.step net_step_chan_step runs_inv)
qed (rule chan_runs.start)

section \<open>What the next ratchet key of a party will be\<close>

lemma skip_current_keys:
  assumes "skip_current_receiving_chain P u s = (x, s')"
  shows "dh_public s' = dh_public s" "remote_dh_public s' = remote_dh_public s"
  using assms by (auto simp: skip_current_receiving_chain_def split: option.splits prod.splits)

lemma ratchet_decrypt_key:
  assumes laws: "ratchet_laws P" and wf: "session_wf s"
    and run: "ratchet_decrypt P h e (s, r) = (x, (s', r'))"
    and moved: "remote_dh_public s' \<noteq> remote_dh_public s"
  shows "dh_public s' = x_public P (map r [0..<32])"
  using ratchet_lawsD(3,4) [OF laws] wf
proof (cases rule: decrypt_cases [where h = h and e = e and r = r])
  case (ratchet s1 y s'')
  with run receive_on_chain_frame(1) [OF ratchet(5)] show ?thesis by simp
next
  case (chain y s'')
  with run moved receive_on_chain_frame [OF chain(4)] show ?thesis by simp
next
  case (cut s1)
  with run moved skip_current_keys(2) [OF cut(4)] show ?thesis by simp
qed (use run moved in simp_all)

lemma net_inv_wf:
  assumes "net_inv P N"
  shows "session_wf (sess N a)" "dh_public (sess N a) \<in> used N"
proof -
  have "session_wf (sess N a) \<and> dh_public (sess N a) \<in> used N"
    using assms
  proof (cases rule: net_inv_cases [where a = a])
    case ahead
    with pair_invD(2,4) [OF ahead] show ?thesis by (simp add: party_ok_def keys_in_def)
  next
    case behind
    with pair_invD(1,3) [OF behind] show ?thesis by (simp add: party_ok_def keys_in_def)
  qed
  then show "session_wf (sess N a)" "dh_public (sess N a) \<in> used N" by simp_all
qed

section \<open>A conversation that starts\<close>

lemma net_init_total:
  assumes laws: "ratchet_laws P" and spk: "spk_wf P spk"
  obtains N c where "net_init P ss ss' spk r = Ok N"
    and "sess N Bob = init_bob ss' spk" "session_wf (sess N Alice)"
    and "sending_chain (sess N Alice) = Some c" "ck_index c = 0"
    and "inbox N = (\<lambda>_. [])" "entropy N = (\<lambda>i. r (32 + i))"
    and "used N = {x_public P (map r [0..<32]), spk_x25519_public spk}"
    and "dh_public (sess N Alice) = x_public P (map r [0..<32])"
proof -
  note l = ratchet_lawsD [OF laws]
  obtain rk ck where step: "root_step P ss (x_dh P (map r [0..<32]) (spk_x25519_public spk)) = (rk, ck)"
    by fastforce
  have len: "length (spk_x25519_public spk) = 32"
    using l(2) spk by (simp add: spk_wf_def x25519_sizes_def)
  obtain A where A: "init_alice P ss (spk_x25519_public spk) r = (Ok A :: Session result, \<lambda>i. r (32 + i))"
    "dh_public A = x_public P (map r [0..<32])" "sending_chain A = Some (chain_new ck 0)"
    using step by (simp add: init_alice_total [OF l(3)] Let_def)
  moreover have "session_wf A"
    using l(3,2) len A(1) by (rule init_alice_wf)
  ultimately show thesis
    by (intro that [where c = "chain_new ck 0" and N = "\<lparr>sess = (\<lambda>a. case a of Alice \<Rightarrow> A | Bob \<Rightarrow> init_bob ss' spk),
          inbox = (\<lambda>_. []), entropy = (\<lambda>i. r (32 + i)),
          used = {dh_public A, spk_x25519_public spk}\<rparr>"]) (simp_all add: net_init_def chain_new_def)
qed

text \<open>A session with a sending chain seals every plaintext within the limit of AES-GCM.\<close>

lemma ratchet_encrypt_total:
  assumes laws: "ratchet_laws P" and wf: "session_wf s" and c: "sending_chain s = Some c"
    and len: "length m \<le> aes_limit"
  obtains h e where "ratchet_encrypt P m (s, r) =
      (Ok (h, e), (s\<lparr>sending_chain := Some (popped P c)\<rparr>, \<lambda>i. r (12 + i)))"
    "h = header_new (dh_public s) (ck_index c) (previous_sending_chain_length s)"
proof -
  note l = ratchet_lawsD [OF laws]
  define h where "h = header_new (dh_public s) (ck_index c) (previous_sending_chain_length s)"
  have "length (mh_dh_public_key h) = 32" using wf by (simp add: h_def session_wf_def)
  with l(9) have "length (header_to_bytes P h) \<le> aes_limit" by (rule header_bytes_bounded)
  moreover have "length (message_key P (ck_key c) 0) = 32" using l(4) by (rule message_key_length)
  ultimately obtain e r' where e:
    "aead_encrypt P (message_key P (ck_key c) 0) m (header_to_bytes P h) r = (Ok e, r')"
    using aead_encrypt_total [OF l(5,7)] len by metis
  then have "r' = (\<lambda>i. r (12 + i))" by (simp add: aead_encrypt_Ok_iff)
  with e show thesis
    by (intro that [where h = h and e = e])
      (simp_all add: ratchet_encrypt_chain [OF l(4) c] Let_def popped_def h_def)
qed

text \<open>The first message of the initiator, under way to the responder.\<close>

lemma first_message_run:
  assumes laws: "ratchet_laws P" and spk: "spk_wf P spk" and m: "length m \<le> aes_limit"
    and fresh: "x_public P (map r [44..<76]) \<notin> {x_public P (map r [0..<32]), spk_x25519_public spk}"
  obtains N0 N p x s r' where "net_init P ss ss spk r = Ok N0" "runs P N0 [Sent Alice m] N"
    "p \<in> set (inbox N Bob)" "pk_plain p = m"
    "ratchet_decrypt P (pk_header p) (pk_body p) (sess N Bob, entropy N) = (x, (s, r'))"
    "new_key_fresh N Bob s" "map_len (skipped_keys (sess N Bob)) + gap (sess N Bob) p = 0"
proof -
  note l = ratchet_lawsD [OF laws]
  from laws spk obtain N0 c where N0: "net_init P ss ss spk r = Ok N0"
    "sess N0 Bob = init_bob ss spk" "session_wf (sess N0 Alice)"
    "sending_chain (sess N0 Alice) = Some c" "ck_index c = 0" "entropy N0 = (\<lambda>i. r (32 + i))"
    "used N0 = {x_public P (map r [0..<32]), spk_x25519_public spk}"
    "dh_public (sess N0 Alice) = x_public P (map r [0..<32])"
    by (rule net_init_total [where r = r and ss = ss and ss' = ss])
  from laws N0(3,4) m obtain h e where enc: "ratchet_encrypt P m (sess N0 Alice, entropy N0) =
      (Ok (h, e), ((sess N0 Alice)\<lparr>sending_chain := Some (popped P c)\<rparr>, \<lambda>i. entropy N0 (12 + i)))"
    and h: "h = header_new (dh_public (sess N0 Alice)) (ck_index c)
              (previous_sending_chain_length (sess N0 Alice))"
    by (rule ratchet_encrypt_total [where r = "entropy N0"])
  define p where "p = \<lparr>pk_header = h, pk_body = e, pk_plain = m\<rparr>"
  define N where "N = put_packet Bob p (moved_to N0 Alice
    ((sess N0 Alice)\<lparr>sending_chain := Some (popped P c)\<rparr>) (\<lambda>i. entropy N0 (12 + i)))"
  have "net_step P N0 (Sent Alice m) N"
    using net_step.send [where a = Alice, OF enc] N0(4,5) by (simp add: chain_left_def N_def p_def)
  then have reach: "runs P N0 [Sent Alice m] N"
    using runs.step [OF runs.start] by fastforce
  have N: "sess N Bob = init_bob ss spk" "p \<in> set (inbox N Bob)" "entropy N = (\<lambda>i. r (44 + i))"
    "used N = used N0"
    using N0(2,6,7,8) by (auto simp: N_def put_packet_def moved_to_def)
  have B: "remote_dh_public (init_bob ss spk) = None" "skipped_keys (init_bob ss spk) = fmempty"
    "receiving_chain (init_bob ss spk) = None"
    by (simp_all add: init_bob_def)
  have "length (mh_dh_public_key h) = 32"
    using N0(3) h by (simp add: session_wf_def)
  moreover obtain x s where rcv: "receive_on_chain P h e
      (ratcheted P (mh_dh_public_key h) (map (entropy N) [0..<32]) (init_bob ss spk)) = (x, s)"
    by fastforce
  ultimately have dec: "ratchet_decrypt P (pk_header p) (pk_body p) (sess N Bob, entropy N) =
      (x, (s, \<lambda>i. entropy N (32 + i)))"
    using B N(1) decrypt_ratchet_Ok [OF l(3), where s = "init_bob ss spk" and h = h]
    by (simp add: p_def skip_current_none)
  have "map (entropy N) [0..<32] = map r [44..<76]"
    using map_shift_upt [of r 44 32] by (simp add: N(3))
  then have "dh_public s = x_public P (map r [44..<76])"
    using receive_on_chain_frame(1) [OF rcv] by simp
  with fresh N(4) N0(7) have "new_key_fresh N Bob s" by (simp add: new_key_fresh_def)
  moreover have "map_len (skipped_keys (sess N Bob)) + gap (sess N Bob) p = 0"
    using N(1) B N0(5) h by (simp add: gap_def p_def chain_gap_def)
  ultimately show thesis
    using that N0(1) reach N(2) dec by (simp add: p_def)
qed

section \<open>A concrete conversation\<close>

definition demo_spk :: SignedPreKey where
  "demo_spk = \<lparr>spk_secret_seed = replicate 32 9, spk_x25519_secret = replicate 32 9,
     spk_x25519_public = replicate 32 9, spk_signature = replicate 64 0\<rparr>"

definition demo_rng :: rng where
  "demo_rng i = of_nat i"

lemma demo_spk_wf: "spk_wf demo_provider demo_spk"
  by (simp add: spk_wf_def demo_spk_def demo_provider_def pad_to_def)

lemma demo_fresh: "x_public demo_provider (map demo_rng [44..<76]) \<notin>
    {x_public demo_provider (map demo_rng [0..<32]), spk_x25519_public demo_spk}"
proof -
  have hds: "hd (x_public demo_provider (map demo_rng [44..<76])) = 44"
    "hd (x_public demo_provider (map demo_rng [0..<32])) = 0" "hd (spk_x25519_public demo_spk) = 9"
    by (simp_all add: demo_provider_def pad_to_def demo_rng_def demo_spk_def hd_append hd_map hd_upt
        hd_replicate take_Cons' upt_rec)
  have "(44 :: u8) \<noteq> 0" "(44 :: u8) \<noteq> 9" by simp_all
  with hds show ?thesis by (metis insertE singletonD)
qed

section \<open>The properties of the network\<close>

text \<open>
  C3. Two sessions set up with the same secret and a well-formed signed pre-key implement the
  abstract channel: whatever the order of sending, delivery and loss, every run of the network
  is a run of the channel. A delivery returns a plaintext that was sent to that party and not
  yet delivered, or stops at the limit of skipped keys; it never returns another plaintext,
  another error, or panics. In a run every ratchet step draws a key pair not used before, and no
  chain is used for 2^32 - 1 messages.
\<close>
theorem network_refines_channel:
  assumes "ratchet_laws P" and "spk_wf P spk" and "net_init P ss ss spk r = Ok N0"
    and "runs P N0 evs N"
  shows "chan_runs (\<lambda>_. {#}) evs (in_transit N)"
proof -
  have "in_transit N0 = (\<lambda>_. {#})"
    using assms(3) by (auto simp: net_init_def in_transit_def outcome_simps split: prod.splits)
  with runs_chan_runs [OF assms(4,1) net_init_inv [OF assms(1-3)]] show ?thesis by simp
qed

lemma network_refines_channel_witness:
  "\<exists>N0 N ev. net_init demo_provider (replicate 32 1) (replicate 32 1) demo_spk demo_rng = Ok N0 \<and>
     runs demo_provider N0 [Sent Alice [104, 105], ev] N \<and>
     chan_runs (\<lambda>_. {#}) [Sent Alice [104, 105], ev] (in_transit N)"
proof -
  have "length [104, 105 :: u8] \<le> aes_limit" by (simp add: aes_limit_def)
  then obtain N0 N p x s r where run:
    "net_init demo_provider (replicate 32 1) (replicate 32 1) demo_spk demo_rng = Ok N0"
    "runs demo_provider N0 [Sent Alice [104, 105]] N" "p \<in> set (inbox N Bob)"
    "ratchet_decrypt demo_provider (pk_header p) (pk_body p) (sess N Bob, entropy N) = (x, (s, r))"
    "new_key_fresh N Bob s"
    by (rule first_message_run [OF demo_ratchet_laws demo_spk_wf _ demo_fresh])
  define N' where "N' = take_packet Bob p (moved_to N Bob s r)"
  have "net_step demo_provider N (delivery_event Bob x) N'"
    unfolding N'_def using run(3,4,5) by (rule net_step.deliver)
  then have all: "runs demo_provider N0 [Sent Alice [104, 105], delivery_event Bob x] N'"
    using runs.step [OF run(2)] by simp
  from network_refines_channel [OF demo_ratchet_laws demo_spk_wf run(1) all] run(1) all
  show ?thesis by blast
qed

text \<open>
  C4. In every network the two sessions can reach, a packet under way opens to exactly the
  plaintext that was sealed, in whatever order packets arrive, as long as the keys already
  stored and the messages still to be skipped for it are together at most 100, and the key pair
  of a ratchet step it causes is new.
\<close>
theorem delivery_opens:
  assumes "ratchet_laws P" and "spk_wf P spk" and "net_init P ss ss spk r = Ok N0"
    and "runs P N0 evs N" and "p \<in> set (inbox N a)"
    and "map_len (skipped_keys (sess N a)) + gap (sess N a) p \<le> 100"
    and "ratchet_decrypt P (pk_header p) (pk_body p) (sess N a, g) = (x, (s, g'))"
    and "new_key_fresh N a s"
  shows "x = Ok (pk_plain p)"
  using assms(1) runs_inv [OF assms(4,1) net_init_inv [OF assms(1-3)]] assms(5,7,8,6)
  by (rule net_deliver(3))

lemma delivery_opens_witness:
  "\<exists>N0 N p. net_init demo_provider (replicate 32 1) (replicate 32 1) demo_spk demo_rng = Ok N0 \<and>
     runs demo_provider N0 [Sent Alice [104, 105]] N \<and> p \<in> set (inbox N Bob) \<and>
     fst (ratchet_decrypt demo_provider (pk_header p) (pk_body p) (sess N Bob, entropy N)) = Ok [104, 105]"
proof -
  have "length [104, 105 :: u8] \<le> aes_limit" by (simp add: aes_limit_def)
  then obtain N0 N p x s r where run:
    "net_init demo_provider (replicate 32 1) (replicate 32 1) demo_spk demo_rng = Ok N0"
    "runs demo_provider N0 [Sent Alice [104, 105]] N" "p \<in> set (inbox N Bob)" "pk_plain p = [104, 105]"
    "ratchet_decrypt demo_provider (pk_header p) (pk_body p) (sess N Bob, entropy N) = (x, (s, r))"
    "new_key_fresh N Bob s" "map_len (skipped_keys (sess N Bob)) + gap (sess N Bob) p = 0"
    by (rule first_message_run [OF demo_ratchet_laws demo_spk_wf _ demo_fresh])
  have "map_len (skipped_keys (sess N Bob)) + gap (sess N Bob) p \<le> 100" using run(7) by simp
  from delivery_opens [OF demo_ratchet_laws demo_spk_wf run(1,2,3) this run(5,6)] run
  show ?thesis by (metis fst_conv)
qed

text \<open>
  C5. A conversation never gets stuck: in every network the two sessions can reach, whatever is
  still under way or was lost, a party that has a sending chain can seal any plaintext within
  the limit of AES-GCM, and the network can deliver it to its peer at once. What it takes is room
  for the keys of the messages it overtakes (100 together with those already stored), an index
  left on the chain, and a new ratchet key.
\<close>
theorem message_gets_through:
  assumes "ratchet_laws P" and "spk_wf P spk" and "net_init P ss ss spk r = Ok N0"
    and "runs P N0 evs N" and "sending_chain (sess N a) = Some c" and "ck_index c \<noteq> - 1"
    and "length m \<le> aes_limit"
    and "\<forall>e. map_len (skipped_keys (sess N (peer a))) + gap (sess N (peer a))
           \<lparr>pk_header = header_new (dh_public (sess N a)) (ck_index c) (previous_sending_chain_length (sess N a)),
            pk_body = e, pk_plain = m\<rparr> \<le> 100"
    and "x_public P (map (entropy N) [12..<44]) \<notin> used N"
  shows "\<exists>N'. runs P N0 (evs @ [Sent a m, Delivered (peer a) m]) N'"
proof -
  have inv: "net_inv P N" using runs_inv [OF assms(4,1) net_init_inv [OF assms(1-3)]] .
  note wf = net_inv_wf [OF inv]
  obtain h e where enc: "ratchet_encrypt P m (sess N a, entropy N) =
      (Ok (h, e), ((sess N a)\<lparr>sending_chain := Some (popped P c)\<rparr>, \<lambda>i. entropy N (12 + i)))"
    and h: "h = header_new (dh_public (sess N a)) (ck_index c) (previous_sending_chain_length (sess N a))"
    by (rule ratchet_encrypt_total [OF assms(1) wf(1) assms(5,7), where r = "entropy N"])
  define p where "p = \<lparr>pk_header = h, pk_body = e, pk_plain = m\<rparr>"
  define M where "M = put_packet (peer a) p (moved_to N a
    ((sess N a)\<lparr>sending_chain := Some (popped P c)\<rparr>) (\<lambda>i. entropy N (12 + i)))"
  have M: "p \<in> set (inbox M (peer a))" "sess M (peer a) = sess N (peer a)" "used M = used N"
    "entropy M = (\<lambda>i. entropy N (12 + i))"
    using wf(2) by (auto simp: M_def put_packet_def moved_to_def)
  have sent: "net_step P N (Sent a m) M"
    unfolding M_def p_def by (rule net_step.send [OF enc]) (simp add: chain_left_def assms(5,6))
  obtain x s g where dec: "ratchet_decrypt P h e (sess M (peer a), entropy M) = (x, (s, g))"
    by (metis surj_pair)
  have "map (entropy M) [0..<32] = map (entropy N) [12..<44]"
    using map_shift_upt [of "entropy N" 12 32] by (simp add: M(4))
  with ratchet_decrypt_key [OF assms(1) _ dec] M(2,3) wf(1) assms(9)
  have fresh: "new_key_fresh M (peer a) s" by (auto simp: new_key_fresh_def)
  have "x = Ok m"
    using net_deliver(3) [OF assms(1) net_step_inv [OF assms(1) inv sent] M(1) _ fresh] dec assms(8) M(2)
    by (simp add: p_def h)
  then have "net_step P M (Delivered (peer a) m) (take_packet (peer a) p (moved_to M (peer a) s g))"
    using net_step.deliver [OF M(1) _ fresh, where x = x] dec by (simp add: p_def)
  with runs.step [OF runs.step [OF assms(4) sent]] show ?thesis by fastforce
qed

lemma message_gets_through_witness:
  "\<exists>N0 N. net_init demo_provider (replicate 32 1) (replicate 32 1) demo_spk demo_rng = Ok N0 \<and>
     runs demo_provider N0 [Sent Alice [104, 105], Delivered Bob [104, 105]] N"
proof -
  obtain N0 c where N0: "net_init demo_provider (replicate 32 1) (replicate 32 1) demo_spk demo_rng = Ok N0"
    "sess N0 Bob = init_bob (replicate 32 1) demo_spk" "sending_chain (sess N0 Alice) = Some c" "ck_index c = 0"
    "entropy N0 = (\<lambda>i. demo_rng (32 + i))"
    "used N0 = {x_public demo_provider (map demo_rng [0..<32]), spk_x25519_public demo_spk}"
    by (rule net_init_total [OF demo_ratchet_laws demo_spk_wf])
  have "map (entropy N0) [12..<44] = map demo_rng [44..<76]"
    using map_shift_upt [of "entropy N0" 12 32] map_shift_upt [of demo_rng 44 32] by (simp add: N0(5))
  then have "x_public demo_provider (map (entropy N0) [12..<44]) \<notin> used N0"
    using demo_fresh N0(6) by simp
  moreover have "length [104, 105 :: u8] \<le> aes_limit" by (simp add: aes_limit_def)
  moreover have "ck_index c \<noteq> - 1" using N0(4) by simp
  moreover have "skipped_keys (sess N0 Bob) = fmempty" "receiving_chain (sess N0 Bob) = None"
    "remote_dh_public (sess N0 Bob) = None" by (simp_all add: N0(2) init_bob_def)
  ultimately show ?thesis
    using message_gets_through [OF demo_ratchet_laws demo_spk_wf N0(1) runs.start N0(3)] N0(1,4)
    by (fastforce simp: gap_def chain_gap_def)
qed

end
