(* ===== verification/Ratchet_Properties.thy ===== *)
theory Ratchet_Properties
  imports Ratchet_Network Interfaces
begin

text \<open>
  What holds of one session whatever it is fed: a session as a component whose calls are
  encryptions of any plaintext and decryptions of any header and body, its invariant, the
  bound on its store of skipped keys, and the branches of the two operations. The last
  section states what decryption leaves behind when it fails.
\<close>

section \<open>A session as a component\<close>

datatype session_op = Seal bytes | Open MessageHeader encrypted

datatype session_reply = Sealed "(MessageHeader \<times> encrypted) result" | Opened "bytes result"

fun session_call ::
  "provider \<Rightarrow> session_op \<Rightarrow> Session \<times> rng \<Rightarrow> session_reply \<times> (Session \<times> rng)"
where
  "session_call P (Seal m) st = (let (x, st') = ratchet_encrypt P m st in (Sealed x, st'))"
| "session_call P (Open h e) st = (let (x, st') = ratchet_decrypt P h e st in (Opened x, st'))"

text \<open>Encryption changes nothing but the sending chain.\<close>

lemma ratchet_encrypt_frame:
  assumes "ratchet_encrypt P m (s, r) = (x, (s', r'))"
  obtains c where "s' = s\<lparr>sending_chain := c\<rparr>"
proof (cases "sending_chain s")
  case None
  with assms show thesis by (intro that [of None]) (simp add: ratchet_encrypt_no_chain)
next
  case (Some c)
  obtain a c' where "chain_advance P c = (a, c')" by fastforce
  with Some assms show thesis
    by (cases a; intro that [of "Some c'"])
      (auto simp: ratchet_encrypt_def Let_def split: prod.splits if_splits elim!: and_then_st.elims)
qed

text \<open>How much one call can add to the store of skipped keys.\<close>

lemma skip_result_len:
  "skip_result P b u (c, sk) x (c', sk') \<Longrightarrow> map_len sk' \<le> max 101 (Suc (map_len sk))"
  "skip_result P b u (c, sk) (Ok v) (c', sk') \<Longrightarrow> map_len sk' \<le> max 100 (map_len sk)"
  by (auto simp: skip_result_def)

lemma skip_current_len:
  assumes "hmac_total P" "session_wf s" "skip_current_receiving_chain P u s = (x, s')"
  shows "map_len (skipped_keys s') \<le> max 101 (Suc (map_len (skipped_keys s)))"
    and "is_ok x \<Longrightarrow> map_len (skipped_keys s') \<le> max 100 (map_len (skipped_keys s))"
proof -
  have "map_len (skipped_keys s') \<le> max 101 (Suc (map_len (skipped_keys s))) \<and>
    (is_ok x \<longrightarrow> map_len (skipped_keys s') \<le> max 100 (map_len (skipped_keys s)))"
  proof (cases "receiving_chain s")
    case None
    with assms(3) show ?thesis by (simp add: skip_current_none)
  next
    case (Some c)
    with assms(2) obtain p where p: "remote_dh_public s = Some p"
      by (auto simp: session_wf_def)
    from skip_current_some [OF assms(1) Some p, of u] assms(3) obtain c' sk' where
      "s' = s\<lparr>receiving_chain := Some c', skipped_keys := sk'\<rparr>"
      "skip_result P p u (c, skipped_keys s) x (c', sk')"
      by (metis prod.inject)
    with skip_result_len show ?thesis by (auto simp: is_ok_iff)
  qed
  then show "map_len (skipped_keys s') \<le> max 101 (Suc (map_len (skipped_keys s)))"
    and "is_ok x \<Longrightarrow> map_len (skipped_keys s') \<le> max 100 (map_len (skipped_keys s))"
    by blast+
qed

lemma receive_on_chain_len:
  assumes "hmac_total P" "receive_on_chain P h e s = (x, s')"
  shows "map_len (skipped_keys s') \<le> max 101 (Suc (map_len (skipped_keys s)))"
proof (cases "receiving_chain s")
  case None
  with assms(2) show ?thesis by (simp add: receive_on_chain_def)
next
  case (Some c)
  obtain y c' sk' where res:
    "skip_result P (mh_dh_public_key h) (mh_message_number h) (c, skipped_keys s) y (c', sk')"
    and eq: "receive_on_chain P h e s =
      (case y of
         Ok _ \<Rightarrow> (aead_decrypt P (message_key P (ck_key c') 0) e (header_to_bytes P h),
                 s\<lparr>receiving_chain := Some \<lparr>ck_key = chain_key P (ck_key c') 1,
                                             ck_index = ck_index c' + 1\<rparr>,
                   skipped_keys := sk'\<rparr>)
       | Err er \<Rightarrow> (Err er, s\<lparr>receiving_chain := Some c', skipped_keys := sk'\<rparr>)
       | Panic \<Rightarrow> (Panic, s\<lparr>receiving_chain := Some c', skipped_keys := sk'\<rparr>))"
    by (rule receive_on_chain_some [OF assms(1) Some, of h e])
  from eq assms(2) have "skipped_keys s' = sk'" by (cases y) auto
  with skip_result_len(1) [OF res] show ?thesis by simp
qed

lemma ratchet_decrypt_len:
  assumes laws: "hkdf_total P" "hmac_total P" and wf: "session_wf s"
    and run: "ratchet_decrypt P h e (s, r) = (x, (s', r'))"
  shows "map_len (skipped_keys s') \<le> max 101 (Suc (map_len (skipped_keys s)))"
  using laws(1,2) wf
proof (cases rule: decrypt_cases [where h = h and e = e and r = r])
  case (stored mk)
  with run have "skipped_keys s' = fmdrop (header_id h) (skipped_keys s)" by auto
  with map_len_fmdrop_le [of "header_id h" "skipped_keys s"] show ?thesis by simp
next
  case bad_key
  with run show ?thesis by simp
next
  case (chain y s'')
  with run receive_on_chain_len [OF laws(2)] show ?thesis by auto
next
  case (ratchet s1 y s'')
  have "map_len (skipped_keys s1) \<le> max 100 (map_len (skipped_keys s))"
    using skip_current_len(2) [OF laws(2) wf ratchet(4)] by simp
  with receive_on_chain_len [OF laws(2) ratchet(5)] ratchet(6) run show ?thesis by auto
next
  case (cut s1)
  with run skip_current_len(1) [OF laws(2) wf] show ?thesis by auto
qed

interpretation session: metered_component "session_call P"
    "\<lambda>st. ratchet_laws P \<and> session_wf (fst st)" "\<lambda>st. map_len (skipped_keys (fst st))" 101 for P
proof
  fix st st' :: "Session \<times> rng" and op r
  assume inv: "ratchet_laws P \<and> session_wf (fst st)" and call: "session_call P op st = (r, st')"
  note l = ratchet_lawsD [OF conjunct1 [OF inv]]
  obtain s g s' g' where st: "st = (s, g)" "st' = (s', g')" by (metis surj_pair)
  have "session_wf s' \<and> map_len (skipped_keys s') \<le> max 101 (Suc (map_len (skipped_keys s)))"
  proof (cases op)
    case (Seal m)
    with call st obtain x where run: "ratchet_encrypt P m (s, g) = (x, (s', g'))"
      by (auto split: prod.splits)
    obtain c where "s' = s\<lparr>sending_chain := c\<rparr>"
      using run by (rule ratchet_encrypt_frame)
    with ratchet_encrypt_wf [OF _ run] inv st show ?thesis by simp
  next
    case (Open h e)
    with call st obtain x where run: "ratchet_decrypt P h e (s, g) = (x, (s', g'))"
      by (auto split: prod.splits)
    from ratchet_decrypt_wf [OF l(3,4,2) _ run] ratchet_decrypt_len [OF l(3,4) _ run] inv st
    show ?thesis by simp
  qed
  then show "ratchet_laws P \<and> session_wf (fst st')"
    and "map_len (skipped_keys (fst st')) \<le> max 101 (Suc (map_len (skipped_keys (fst st))))"
    using inv st by simp_all
qed

lemma demo_bob_wf: "session_wf (init_bob ss demo_spk)"
  by (rule init_bob_wf) (simp add: demo_spk_def)

text \<open>
  C18. Whatever messages a session is fed, genuine, forged or damaged, and whatever it is asked
  to seal in between, it stays well-formed: keys keep their lengths, and a session that knows
  its peer's key has a sending chain.
\<close>
theorem session_invariant:
  assumes "ratchet_laws P" and "session_wf s"
    and "run_calls (session_call P) ops (s, r) = (replies, (s', r'))"
  shows "session_wf s'"
  using session.run_inv [of P "(s, r)" ops replies "(s', r')"] assms by simp

lemma session_invariant_witness:
  "session_wf (fst (snd (run_calls (session_call demo_provider)
     [Open (header_new (replicate 32 7) 3 0) \<lparr>nonce = [], ciphertext = [1]\<rparr>, Seal [1, 2]]
     (init_bob (replicate 32 1) demo_spk, demo_rng))))"
proof -
  obtain replies s r where run: "run_calls (session_call demo_provider)
     [Open (header_new (replicate 32 7) 3 0) \<lparr>nonce = [], ciphertext = [1]\<rparr>, Seal [1, 2]]
     (init_bob (replicate 32 1) demo_spk, demo_rng) = (replies, (s, r))"
    by (metis prod.collapse)
  from session_invariant [OF demo_ratchet_laws demo_bob_wf run] show ?thesis
    unfolding run by simp
qed

text \<open>
  C21. A session that starts with at most 100 stored keys holds at most 100 plus the number of
  calls made: one call stores at most one key beyond the limit, however large the message
  numbers in the header are.
\<close>
theorem skipped_keys_bounded:
  assumes "ratchet_laws P" and "session_wf s" and "map_len (skipped_keys s) \<le> 100"
    and "run_calls (session_call P) ops (s, r) = (replies, (s', r'))"
  shows "map_len (skipped_keys s') \<le> 100 + length ops"
  using session.run_bounded [of P "(s, r)" ops replies "(s', r')"] assms by simp

lemma skipped_keys_bounded_witness:
  "map_len (skipped_keys (fst (snd (run_calls (session_call demo_provider)
     [Open (header_new (replicate 32 7) 4000000000 0) \<lparr>nonce = [], ciphertext = [1]\<rparr>, Seal [1]]
     (init_bob (replicate 32 1) demo_spk, demo_rng))))) \<le> 102"
proof -
  obtain replies s r where run: "run_calls (session_call demo_provider)
     [Open (header_new (replicate 32 7) 4000000000 0) \<lparr>nonce = [], ciphertext = [1]\<rparr>, Seal [1]]
     (init_bob (replicate 32 1) demo_spk, demo_rng) = (replies, (s, r))"
    by (metis prod.collapse)
  have "map_len (skipped_keys (init_bob (replicate 32 1) demo_spk)) \<le> 100"
    by (simp add: init_bob_def)
  from skipped_keys_bounded [OF demo_ratchet_laws demo_bob_wf this run] show ?thesis
    unfolding run by simp
qed

section \<open>The work one header can cause\<close>

text \<open>The loop with a bound on its turns: None when they are used up before it ends.\<close>

fun skip_upto ::
  "nat \<Rightarrow> provider \<Rightarrow> bytes \<Rightarrow> u32 \<Rightarrow> ChainKey \<times> skipped \<Rightarrow> (unit result \<times> (ChainKey \<times> skipped)) option"
where
  "skip_upto turns P dh_bytes until (chain, sk) =
     (if ck_index chain < until then
        (case turns of 0 \<Rightarrow> None
         | Suc turns \<Rightarrow>
          (case chain_advance P chain of
             (Ok mk, chain') \<Rightarrow>
               (let sk' = fmupd (dh_bytes, ck_index chain' - 1) mk sk in
                if unat MAX_SKIP < map_len sk'
                then Some (Err (Ratchet ''Too many skipped messages''), (chain', sk'))
                else skip_upto turns P dh_bytes until (chain', sk'))
           | (Err e, chain') \<Rightarrow> Some (Err e, (chain', sk))
           | (Panic, chain') \<Rightarrow> Some (Panic, (chain', sk))))
      else Some (Ok (), (chain, sk)))"

declare skip_upto.simps [simp del]

text \<open>As many turns are enough as the index of the chain moves.\<close>

lemma skip_upto_moves:
  assumes "hmac_total P" "skip_loop P b until (c, sk) = (x, (c', sk'))"
    and "unat (ck_index c') - unat (ck_index c) \<le> k"
  shows "skip_upto k P b until (c, sk) = Some (x, (c', sk'))"
  using assms(2,3)
proof (induction k arbitrary: c sk)
  case 0
  from skip_loop_result [OF 0(1) assms(1)] 0(2) have "\<not> ck_index c < until"
    by (auto simp: skip_result_def word_less_nat_alt)
  with 0(1) show ?case by (simp add: skip_upto.simps skip_loop.simps [of P b until c])
next
  case (Suc k)
  obtain y d where adv: "chain_advance P c = (Ok y, d)"
    using chain_advance_total [OF assms(1)] by blast
  have d: "ck_index d = ck_index c + 1" using adv by (metis chain_advance_index)
  show ?case
  proof (cases "ck_index c < until \<and> map_len (fmupd (b, ck_index d - 1) y sk) \<le> 100")
    case True
    then have rest: "skip_loop P b until (d, fmupd (b, ck_index d - 1) y sk) = (x, (c', sk'))"
      using Suc.prems(1) adv by (simp add: skip_loop.simps [of P b until c] Let_def)
    have "unat (ck_index d) = Suc (unat (ck_index c))"
      unfolding d using True by (intro unat_Suc_less [of _ until]) simp
    with Suc.IH [OF rest] Suc.prems(2) True adv show ?thesis
      by (simp add: skip_upto.simps [of _ P b until c] Let_def)
  qed (use Suc.prems(1) adv in \<open>auto simp: skip_upto.simps skip_loop.simps [of P b until c] Let_def\<close>)
qed

text \<open>The keys stored in one run are all different, so there cannot be more than the map holds.\<close>

lemma unat_of_nat_small: "j < 2 ^ 32 \<Longrightarrow> unat (of_nat j :: u32) = j"
  by (simp add: unsigned_of_nat take_bit_nat_eq_self)

lemma stores_range_card:
  assumes "stores_range P b k i n sk sk'" "i + n \<le> 2 ^ 32"
  shows "n \<le> map_len sk'"
proof -
  have "(b, of_nat j) |\<in>| fmdom sk'" if "j \<in> {i..<i + n}" for j
  proof -
    have "unat (of_nat j :: u32) = j" using that assms(2) by (simp add: unat_of_nat_small)
    with that assms(1) have "fmlookup sk' (b, of_nat j) \<noteq> None" by (simp add: stores_range_def)
    then show ?thesis by (simp add: fmdom_notI fmlookup_dom_iff)
  qed
  then have "(\<lambda>j. (b, of_nat j :: u32)) ` {i..<i + n} \<subseteq> fset (fmdom sk')" by auto
  moreover have "inj_on (\<lambda>j. (b, of_nat j :: u32)) {i..<i + n}"
    using assms(2) by (intro inj_onI) (metis Pair_inject atLeastLessThan_iff less_le_trans unat_of_nat_small)
  ultimately have "card {i..<i + n} \<le> card (fset (fmdom sk'))"
    by (metis card_image card_mono finite_fset)
  then show ?thesis by (simp add: fcard.rep_eq)
qed

lemma skip_loop_moves:
  assumes "hmac_total P" "skip_loop P b until (c, sk) = (x, (c', sk'))"
  shows "unat (ck_index c') - unat (ck_index c) \<le> 101"
proof (cases "100 < map_len sk \<and> ck_index c < until")
  case True
  obtain y d where adv: "chain_advance P c = (Ok y, d)"
    using chain_advance_total [OF assms(1)] by blast
  have "ck_index d = ck_index c + 1" using adv by (metis chain_advance_index)
  moreover have "c' = d"
    using True assms(2) adv map_len_mono_fmupd [of sk "(b, ck_index d - 1)" y]
    by (auto simp: skip_loop.simps [of P b until c] Let_def split: if_splits)
  moreover have "unat (ck_index c + 1) = Suc (unat (ck_index c))"
    using True by (intro unat_Suc_less [of _ until]) simp
  ultimately show ?thesis by simp
next
  case False
  from skip_loop_result [OF assms(2,1)] obtain n where n:
    "unat (ck_index c') = unat (ck_index c) + n"
    "stores_range P b (ck_key c) (unat (ck_index c)) n sk sk'"
    "n \<le> unat until - unat (ck_index c)" "0 < n \<longrightarrow> map_len sk' \<le> 101 \<or> map_len sk' \<le> Suc (map_len sk)"
    by (auto simp: skip_result_def max_def split: if_splits)
  show ?thesis
  proof (cases "n = 0")
    case False
    with n(3) have "ck_index c < until" by (simp add: word_less_nat_alt)
    with \<open>\<not> (100 < map_len sk \<and> ck_index c < until)\<close> n(4) False have "map_len sk' \<le> 101" by linarith
    moreover have "unat (ck_index c) + n \<le> 2 ^ 32"
      using n(3) unsigned_less [of until, where ?'a = nat] False by simp
    ultimately show ?thesis using stores_range_card [OF n(2)] n(1) by simp
  qed (use n(1) in simp)
qed

text \<open>
  C22. Whatever message number or chain length a header claims, up to 2^32 - 1 and from anyone,
  the loop that derives skipped keys ends after at most 101 turns, with the result the unbounded
  loop has; also when the keys it stores were already in the map, so that the map does not grow.
\<close>
theorem skipping_bounded:
  assumes "hmac_total P"
  shows "skip_upto 101 P dh_bytes until (chain, sk) = Some (skip_loop P dh_bytes until (chain, sk))"
proof -
  obtain x c' sk' where run: "skip_loop P dh_bytes until (chain, sk) = (x, (c', sk'))"
    by (metis surj_pair)
  from skip_upto_moves [OF assms run skip_loop_moves [OF assms run]] run show ?thesis by simp
qed

lemma skipping_bounded_witness:
  "\<exists>x. skip_upto 101 demo_provider [1] 4294967295 (chain_new [2] 0, fmempty) = Some x"
  using skipping_bounded [OF ratchet_lawsD(4) [OF demo_ratchet_laws], of "[1]" 4294967295 "chain_new [2] 0" fmempty]
  by blast

section \<open>The branches of the two operations\<close>

text \<open>
  C24. Encryption on a session with a sending chain never fails on a plaintext within the
  limit of AES-GCM: message \<open>i\<close> of the chain carries the number \<open>i\<close>, the session's own ratchet
  key and the length of the chain before, is sealed with key \<open>i\<close> of the chain under twelve
  fresh bytes and with the header as associated data, and only the sending chain moves.
\<close>
theorem encrypt_seals:
  assumes "ratchet_laws P" and "session_wf s" and "sending_chain s = Some c"
    and "length m \<le> aes_limit"
  shows "\<exists>h e. ratchet_encrypt P m (s, r) =
      (Ok (h, e), (s\<lparr>sending_chain := Some \<lparr>ck_key = chain_key P (ck_key c) 1,
                                              ck_index = ck_index c + 1\<rparr>\<rparr>, \<lambda>i. r (12 + i))) \<and>
    h = header_new (dh_public s) (ck_index c) (previous_sending_chain_length s) \<and>
    nonce e = map r [0..<12] \<and>
    aead_decrypt P (message_key P (ck_key c) 0) e (header_to_bytes P h) = Ok m"
proof -
  from assms obtain h e where run: "ratchet_encrypt P m (s, r) =
      (Ok (h, e), (s\<lparr>sending_chain := Some (popped P c)\<rparr>, \<lambda>i. r (12 + i)))"
    and h: "h = header_new (dh_public s) (ck_index c) (previous_sending_chain_length s)"
    by (rule ratchet_encrypt_total)
  from ratchet_lawsD(4) [OF assms(1)] run have
    enc: "aead_encrypt P (message_key P (ck_key c) 0) m (header_to_bytes P h) r = (Ok e, \<lambda>i. r (12 + i))"
    by (rule ratchet_encrypt_Ok) (use assms(3) in simp)
  with aead_opens_sealed(1) [OF ratchet_lawsD(6) [OF assms(1)] enc] run h show ?thesis
    by (simp add: popped_def aead_encrypt_Ok_iff)
qed

lemma demo_alice: "\<exists>s c g. init_alice demo_provider (replicate 32 1) (spk_x25519_public demo_spk)
    demo_rng = (Ok s :: Session result, g) \<and> session_wf s \<and> sending_chain s = Some c \<and> ck_index c = 0"
proof -
  obtain N c where N: "net_init demo_provider (replicate 32 1) [] demo_spk demo_rng = Ok N"
    "session_wf (sess N Alice)" "sending_chain (sess N Alice) = Some c" "ck_index c = 0"
    by (rule net_init_total [OF demo_ratchet_laws demo_spk_wf])
  from N(1) show ?thesis
    using N(2-) by (auto simp: net_init_def outcome_simps split: prod.splits)
qed

lemma encrypt_seals_witness:
  "\<exists>s h e st. fst (init_alice demo_provider (replicate 32 1) (spk_x25519_public demo_spk) demo_rng) =
       (Ok s :: Session result) \<and>
     ratchet_encrypt demo_provider [104, 105] (s, demo_rng) = (Ok (h, e), st) \<and>
     mh_message_number h = 0"
proof -
  from demo_alice obtain s c g where s: "init_alice demo_provider (replicate 32 1)
      (spk_x25519_public demo_spk) demo_rng = (Ok s :: Session result, g)"
    "session_wf s" "sending_chain s = Some c" "ck_index c = 0"
    by blast
  with encrypt_seals [OF demo_ratchet_laws s(2,3), of "[104, 105]" demo_rng] show ?thesis
    by (auto simp: aes_limit_def)
qed

lemma receive_on_chain_Panic:
  assumes laws: "hmac_total P" "aes_accepts_keys P" "aes_no_panic P"
    and "receive_on_chain P h e s = (Panic, s')"
  shows "length (nonce e) \<noteq> 12"
proof (cases "receiving_chain s")
  case None
  with assms(4) show ?thesis by (simp add: receive_on_chain_def)
next
  case (Some c)
  obtain y c' sk' where res:
    "skip_result P (mh_dh_public_key h) (mh_message_number h) (c, skipped_keys s) y (c', sk')"
    and eq: "receive_on_chain P h e s =
      (case y of
         Ok _ \<Rightarrow> (aead_decrypt P (message_key P (ck_key c') 0) e (header_to_bytes P h),
                 s\<lparr>receiving_chain := Some \<lparr>ck_key = chain_key P (ck_key c') 1,
                                             ck_index = ck_index c' + 1\<rparr>,
                   skipped_keys := sk'\<rparr>)
       | Err er \<Rightarrow> (Err er, s\<lparr>receiving_chain := Some c', skipped_keys := sk'\<rparr>)
       | Panic \<Rightarrow> (Panic, s\<lparr>receiving_chain := Some c', skipped_keys := sk'\<rparr>))"
    by (rule receive_on_chain_some [OF laws(1) Some, of h e])
  with assms(4) skip_result_not_Panic [OF res]
  have "aead_decrypt P (message_key P (ck_key c') 0) e (header_to_bytes P h) = Panic"
    by (cases y) auto
  then show ?thesis
    using aead_decrypt_Panic_iff [OF laws(2,3) message_key_length [OF laws(1)]] by simp
qed

text \<open>
  C23. Decryption of a header with a 32-byte key and a body with a 12-byte nonce never panics,
  in any well-formed session.
\<close>
theorem decrypt_never_panics:
  assumes "ratchet_laws P" and "session_wf s"
    and "length (mh_dh_public_key h) = 32" and "length (nonce e) = 12"
  shows "fst (ratchet_decrypt P h e (s, r)) \<noteq> Panic"
proof -
  note l = ratchet_lawsD [OF assms(1)]
  note on_chain = receive_on_chain_Panic [OF l(4,5,8)]
  show ?thesis
    using l(3,4) assms(2)
  proof (cases rule: decrypt_cases [where h = h and e = e and r = r])
    case (stored mk)
    with aead_decrypt_Panic_iff [OF l(5,8) stored(2)] assms(4) show ?thesis by simp
  next
    case bad_key
    with assms(3) show ?thesis by simp
  next
    case (chain x s')
    with on_chain assms(4) show ?thesis by auto
  next
    case (ratchet s1 x s')
    with on_chain assms(4) show ?thesis by auto
  next
    case (cut s1)
    then show ?thesis by simp
  qed
qed

lemma decrypt_never_panics_witness:
  "fst (ratchet_decrypt demo_provider (header_new (replicate 32 7) 3 0)
     \<lparr>nonce = replicate 12 0, ciphertext = [1]\<rparr> (init_bob (replicate 32 1) demo_spk, demo_rng)) \<noteq> Panic"
  by (rule decrypt_never_panics [OF demo_ratchet_laws demo_bob_wf]) simp_all

section \<open>What decryption leaves behind when the message is not genuine\<close>

text \<open>Receiving a number the chain has passed: no skipping, one step of the chain.\<close>

lemma receive_passed:
  assumes "hmac_total P" "receiving_chain s = Some c" "\<not> ck_index c < mh_message_number h"
  shows "receive_on_chain P h e s =
    (aead_decrypt P (message_key P (ck_key c) 0) e (header_to_bytes P h),
     s\<lparr>receiving_chain := Some (popped P c)\<rparr>)"
proof -
  have "skip_loop P (mh_dh_public_key h) (mh_message_number h) (c, skipped_keys s) =
      (Ok (), (c, skipped_keys s))"
    using assms(3) by (subst skip_loop.simps) simp
  then show ?thesis
    using assms message_key_length [OF assms(1), of "ck_key c" 0]
    by (simp add: receive_on_chain_def chain_advance_total message_key_def popped_def Let_def)
qed

lemma decrypt_passed:
  assumes "hmac_total P" "receiving_chain s = Some c" "\<not> ck_index c < mh_message_number h"
    and "remote_dh_public s = Some (mh_dh_public_key h)" "length (mh_dh_public_key h) = 32"
    and "fmlookup (skipped_keys s) (header_id h) = None"
  shows "ratchet_decrypt P h e (s, r) =
    (aead_decrypt P (message_key P (ck_key c) 0) e (header_to_bytes P h),
     (s\<lparr>receiving_chain := Some (popped P c)\<rparr>, r))"
  using decrypt_same_chain [OF assms(6,5,4), of P e r] receive_passed [OF assms(1,2,3), of e] by simp

text \<open>
  C34. A message that was already opened and arrives a second time is not recognised: the
  receiving chain takes a step for it whatever decryption returns, and the next genuine
  message of the chain is then tried with the key after its own.
\<close>
theorem replay_shifts_chain:
  assumes "hmac_total P" and "receiving_chain s = Some c"
    and "remote_dh_public s = Some p" and "length p = 32" and "ck_index c \<noteq> - 1"
    and "mh_dh_public_key h = p" and "mh_message_number h < ck_index c"
    and "fmlookup (skipped_keys s) (p, mh_message_number h) = None"
    and "mh_dh_public_key h' = p" and "mh_message_number h' = ck_index c"
    and "fmlookup (skipped_keys s) (p, ck_index c) = None"
    and "ratchet_decrypt P h e (s, r) = (x, (s', r'))"
  shows "receiving_chain s' = Some \<lparr>ck_key = chain_key P (ck_key c) 1, ck_index = ck_index c + 1\<rparr> \<and>
    fst (ratchet_decrypt P h' e' (s', r')) =
      aead_decrypt P (message_key P (ck_key c) 1) e' (header_to_bytes P h')"
proof -
  have "\<not> ck_index c < mh_message_number h" using assms(7) by simp
  with assms have s': "s' = s\<lparr>receiving_chain := Some (popped P c)\<rparr>"
    by (auto simp: decrypt_passed)
  then have "receiving_chain s' = Some \<lparr>ck_key = chain_key P (ck_key c) 1, ck_index = ck_index c + 1\<rparr>"
    by (simp add: popped_def)
  moreover have "ck_index c < ck_index c + 1"
    using assms(5) by (simp add: word_less_nat_alt unat_Suc_not_max)
  then have "\<not> ck_index (popped P c) < mh_message_number h'"
    using assms(10) by (simp add: popped_def)
  with assms s' decrypt_passed [OF assms(1), of s' "popped P c" h' e' r']
  have "fst (ratchet_decrypt P h' e' (s', r')) =
      aead_decrypt P (message_key P (ck_key c) 1) e' (header_to_bytes P h')"
    by (simp add: popped_simps message_key_shift del: chain_key.simps)
  ultimately show ?thesis by blast
qed

definition demo_receiver :: Session where
  "demo_receiver = \<lparr>root_key = replicate 32 1, dh_secret = replicate 32 2, dh_public = replicate 32 2,
     remote_dh_public = Some (replicate 32 7), sending_chain = Some (chain_new (replicate 32 3) 0),
     receiving_chain = Some (chain_new (replicate 32 0) 1), previous_sending_chain_length = 0,
     skipped_keys = fmempty\<rparr>"

lemma demo_receiver_wf: "session_wf demo_receiver"
  by (simp add: session_wf_def demo_receiver_def)

lemma replay_shifts_chain_witness:
  "receiving_chain (fst (snd (ratchet_decrypt demo_provider (header_new (replicate 32 7) 0 0)
      \<lparr>nonce = replicate 12 0, ciphertext = [1]\<rparr> (demo_receiver, demo_rng)))) =
    Some \<lparr>ck_key = chain_key demo_provider (replicate 32 0) 1, ck_index = 2\<rparr>"
proof -
  obtain x s r where run: "ratchet_decrypt demo_provider (header_new (replicate 32 7) 0 0)
      \<lparr>nonce = replicate 12 0, ciphertext = [1]\<rparr> (demo_receiver, demo_rng) = (x, (s, r))"
    by (metis prod.collapse)
  have "receiving_chain s = Some \<lparr>ck_key = chain_key demo_provider
      (ck_key (chain_new (replicate 32 0) 1)) 1, ck_index = ck_index (chain_new (replicate 32 0) 1) + 1\<rparr>"
    by (rule conjunct1 [OF replay_shifts_chain [OF ratchet_lawsD(4) [OF demo_ratchet_laws],
          where s = demo_receiver and c = "chain_new (replicate 32 0) 1" and p = "replicate 32 7"
            and h' = "header_new (replicate 32 7) 1 0", OF _ _ _ _ _ _ _ _ _ _ run]])
      (simp_all add: demo_receiver_def chain_new_def)
  then show ?thesis unfolding run by (simp add: chain_new_def)
qed

text \<open>
  What a header under an unknown key leaves: a ratchet step, and the new receiving chain moved up to
  its number, or to where the limit stopped it, whatever the body is.
\<close>

abbreviation new_chain_key :: "provider \<Rightarrow> bytes \<Rightarrow> Session \<Rightarrow> bytes" where
  "new_chain_key P p s \<equiv> snd (root_step P (root_key s) (x_dh P (dh_secret s) p))"

lemma ratcheted_receiving: "receiving_chain (ratcheted P p secret s) = Some (chain_new (new_chain_key P p s) 0)"
  by (simp add: ratcheted_def Let_def case_prod_beta)

lemma ratcheted_skipped: "skipped_keys (ratcheted P p secret s) = skipped_keys s"
  by (simp add: ratcheted_def Let_def case_prod_beta)

lemma ratcheted_keys:
  "remote_dh_public (ratcheted P p secret s) = Some p" "dh_public (ratcheted P p secret s) = x_public P secret"
  by (simp_all add: ratcheted_def Let_def case_prod_beta)

definition committed ::
  "provider \<Rightarrow> MessageHeader \<Rightarrow> encrypted \<Rightarrow> rng \<Rightarrow> Session \<Rightarrow> bytes result \<Rightarrow> Session \<Rightarrow> bool"
where
  "committed P h e r s1 x s' \<longleftrightarrow>
     (let p = mh_dh_public_key h; n = unat (mh_message_number h); ck = new_chain_key P p s1
      in \<exists>j sk. s' = (ratcheted P p (map r [0..<32]) s1)
              \<lparr>receiving_chain := Some \<lparr>ck_key = chain_key P ck j, ck_index = of_nat j\<rparr>, skipped_keys := sk\<rparr> \<and>
            stores_range P p ck 0 (min j n) (skipped_keys s1) sk \<and>
            (j = Suc n \<and> x = aead_decrypt P (message_key P ck n) e (header_to_bytes P h) \<or>
             0 < j \<and> j \<le> n \<and> x = Err too_many))"

lemma committed_keys:
  assumes "committed P h e r s1 x s'"
  shows "remote_dh_public s' = Some (mh_dh_public_key h)" "dh_public s' = x_public P (map r [0..<32])"
  using assms by (auto simp: committed_def Let_def ratcheted_keys)

lemma committed_error:
  assumes "committed P h e r s1 x s'"
    and "aead_decrypt P (message_key P (new_chain_key P (mh_dh_public_key h) s1) (unat (mh_message_number h)))
      e (header_to_bytes P h) = Err er"
  shows "x \<in> {Err er, Err too_many}"
  using assms by (auto simp: committed_def Let_def)

lemma receive_committed:
  assumes laws: "hmac_total P"
    and run: "receive_on_chain P h e (ratcheted P (mh_dh_public_key h) (map r [0..<32]) s1) = (x, s')"
  shows "committed P h e r s1 x s'"
proof -
  let ?p = "mh_dh_public_key h" and ?n = "mh_message_number h"
  let ?s = "ratcheted P ?p (map r [0..<32]) s1" and ?ck = "new_chain_key P ?p s1"
  obtain y c' sk' where res: "skip_result P ?p ?n (chain_new ?ck 0, skipped_keys ?s) y (c', sk')"
    and eq: "receive_on_chain P h e ?s =
      (case y of
         Ok _ \<Rightarrow> (aead_decrypt P (message_key P (ck_key c') 0) e (header_to_bytes P h),
                 ?s\<lparr>receiving_chain := Some \<lparr>ck_key = chain_key P (ck_key c') 1, ck_index = ck_index c' + 1\<rparr>,
                    skipped_keys := sk'\<rparr>)
       | Err er \<Rightarrow> (Err er, ?s\<lparr>receiving_chain := Some c', skipped_keys := sk'\<rparr>)
       | Panic \<Rightarrow> (Panic, ?s\<lparr>receiving_chain := Some c', skipped_keys := sk'\<rparr>))"
    by (rule receive_on_chain_some [OF laws ratcheted_receiving, where h = h and e = e])
  from res obtain j where j: "ck_key c' = chain_key P ?ck j" "unat (ck_index c') = j"
      "stores_range P ?p ?ck 0 j (skipped_keys s1) sk'"
    and y: "y = Ok () \<and> j = unat ?n \<or> y = Err too_many \<and> 0 < j \<and> j \<le> unat ?n"
    by (auto simp: skip_result_def chain_new_def ratcheted_skipped)
  have c': "c' = \<lparr>ck_key = chain_key P ?ck j, ck_index = of_nat j\<rparr>"
    using j(1,2) by (cases c') (auto)
  show ?thesis
  proof (cases y)
    case (Ok u)
    with y eq run c' j(3) show ?thesis
      unfolding committed_def Let_def
      by (intro exI [of _ "Suc j"] exI [of _ sk'])
        (simp add: message_key_shift chain_key_add add.commute del: chain_key.simps)
  next
    case (Err er)
    with y eq run c' j(3) show ?thesis
      unfolding committed_def Let_def by (intro exI [of _ j] exI [of _ sk']) simp
  qed (use y in simp)
qed

lemma decrypt_committed:
  assumes "ratchet_laws P" "length (mh_dh_public_key h) = 32"
    and "remote_dh_public s \<noteq> Some (mh_dh_public_key h)"
    and "fmlookup (skipped_keys s) (header_id h) = None"
    and "skip_current_receiving_chain P (mh_previous_chain_length h) s = (Ok (), s1)"
    and "ratchet_decrypt P h e (s, r) = (x, (s', r'))"
  shows "committed P h e r s1 x s'" "r' = (\<lambda>i. r (32 + i))"
proof -
  note l = ratchet_lawsD [OF assms(1)]
  obtain y t where rcv: "receive_on_chain P h e
      (ratcheted P (mh_dh_public_key h) (map r [0..<32]) s1) = (y, t)" by fastforce
  with assms decrypt_ratchet_Ok [OF l(3) assms(4,2,3,5), of e r]
  have "x = y" "s' = t" "r' = (\<lambda>i. r (32 + i))" by simp_all
  with receive_committed [OF l(4) rcv] show "committed P h e r s1 x s'" "r' = (\<lambda>i. r (32 + i))" by simp_all
qed

text \<open>
  C33. A header under an unknown 32-byte key is acted on before anything is authenticated: once
  the pending messages of the old chain are skipped, the session takes the key for its peer's,
  draws a new key pair and derives new root, sending and receiving chains from it. It stores the
  keys of the messages below the header's number, or as many as the limit allows, and moves the new
  receiving chain past them and past the number itself, whatever the body is. When the body does
  not open, the call returns its error, or the one of the limit, and all of this stays.
\<close>
theorem forged_header_is_committed:
  assumes "ratchet_laws P" and "length (mh_dh_public_key h) = 32"
    and "remote_dh_public s \<noteq> Some (mh_dh_public_key h)"
    and "fmlookup (skipped_keys s) (mh_dh_public_key h, mh_message_number h) = None"
    and "skip_current_receiving_chain P (mh_previous_chain_length h) s = (Ok (), s1)"
    and "ratchet_decrypt P h e (s, r) = (x, (s', r'))"
  shows "committed P h e r s1 x s' \<and>
    (\<forall>er. aead_decrypt P (message_key P (new_chain_key P (mh_dh_public_key h) s1) (unat (mh_message_number h)))
        e (header_to_bytes P h) = Err er \<longrightarrow> x \<in> {Err er, Err too_many}) \<and>
    remote_dh_public s' = Some (mh_dh_public_key h) \<and>
    dh_public s' = x_public P (map r [0..<32]) \<and> r' = (\<lambda>i. r (32 + i))"
proof -
  note c = decrypt_committed [OF assms]
  show ?thesis using c committed_keys [OF c(1)] committed_error [OF c(1)] by blast
qed

lemma forged_header_is_committed_witness:
  "remote_dh_public (fst (snd (ratchet_decrypt demo_provider (header_new (replicate 32 8) 0 1)
      \<lparr>nonce = replicate 12 0, ciphertext = [1]\<rparr> (demo_receiver, demo_rng)))) = Some (replicate 32 8)"
proof -
  define h where "h = header_new (replicate 32 8) 0 1"
  obtain x s' r where run: "ratchet_decrypt demo_provider h
      \<lparr>nonce = replicate 12 0, ciphertext = [1]\<rparr> (demo_receiver, demo_rng) = (x, (s', r))"
    by (metis prod.collapse)
  have "skip_loop demo_provider (replicate 32 7) 1 (chain_new (replicate 32 0) 1, fmempty) =
      (Ok (), (chain_new (replicate 32 0) 1, fmempty))"
    by (subst skip_loop.simps) (simp add: chain_new_def)
  then have "skip_current_receiving_chain demo_provider (mh_previous_chain_length h) demo_receiver =
      (Ok (), demo_receiver)"
    by (simp add: h_def skip_current_receiving_chain_def demo_receiver_def)
  from forged_header_is_committed [OF demo_ratchet_laws _ _ _ this run]
  have "remote_dh_public s' = Some (mh_dh_public_key h)"
    by (auto simp: h_def demo_receiver_def)
  then show ?thesis using run by (simp add: h_def)
qed

text \<open>
  C35. A damaged copy of a message whose key is stored uses that key up: the call returns the error
  of AES-GCM and the key, nothing else of the session, is gone. The genuine copy that comes later is
  then taken for a new message. When it is of the peer's current chain, which is past its number, it
  is tried with the chain's next key; when it is of an older chain and the pending messages of the
  current one can be skipped, its header starts a ratchet step to that older key.
\<close>
theorem damaged_copy_drops_key:
  assumes "ratchet_laws P" and "length (mh_dh_public_key h) = 32"
    and "fmlookup (skipped_keys s) (mh_dh_public_key h, mh_message_number h) = Some mk"
    and "length mk = 32" and "aead_decrypt P mk e (header_to_bytes P h) = Err er"
    and "ratchet_decrypt P h e (s, r) = (x, (s', r'))"
  shows "x = Err er \<and> r' = r \<and>
    s' = s\<lparr>skipped_keys := fmdrop (mh_dh_public_key h, mh_message_number h) (skipped_keys s)\<rparr> \<and>
    (remote_dh_public s = Some (mh_dh_public_key h) \<and> receiving_chain s = Some c \<and> mh_message_number h < ck_index c \<longrightarrow>
       fst (ratchet_decrypt P h e' (s', r')) =
         aead_decrypt P (message_key P (ck_key c) 0) e' (header_to_bytes P h)) \<and>
    (remote_dh_public s \<noteq> Some (mh_dh_public_key h) \<and>
     skip_current_receiving_chain P (mh_previous_chain_length h) s' = (Ok (), s1) \<longrightarrow>
       committed P h e' r s1 (fst (ratchet_decrypt P h e' (s', r'))) (fst (snd (ratchet_decrypt P h e' (s', r')))))"
proof -
  have run: "x = Err er" "s' = s\<lparr>skipped_keys := fmdrop (header_id h) (skipped_keys s)\<rparr>" "r' = r"
    using decrypt_stored [OF assms(3,4), of P e r] assms(5,6) by simp_all
  have none: "fmlookup (skipped_keys s') (header_id h) = None" by (simp add: run)
  have "fst (ratchet_decrypt P h e' (s', r')) = aead_decrypt P (message_key P (ck_key c) 0) e' (header_to_bytes P h)"
    if "remote_dh_public s = Some (mh_dh_public_key h)" "receiving_chain s = Some c" "mh_message_number h < ck_index c"
    using that none decrypt_passed [OF ratchet_lawsD(4) [OF assms(1)], of s' c h e' r'] assms(2) by (simp add: run(2))
  moreover have "committed P h e' r s1 (fst (ratchet_decrypt P h e' (s', r'))) (fst (snd (ratchet_decrypt P h e' (s', r'))))"
    if "remote_dh_public s \<noteq> Some (mh_dh_public_key h)"
      "skip_current_receiving_chain P (mh_previous_chain_length h) s' = (Ok (), s1)"
    using decrypt_committed(1) [OF assms(1,2) _ none that(2), where e = e' and r = r'] that(1)
    by (cases "ratchet_decrypt P h e' (s', r')" rule: prod_cases3) (simp add: run)
  ultimately show ?thesis using run by blast
qed

lemma damaged_copy_drops_key_witness:
  "fmlookup (skipped_keys (fst (snd (ratchet_decrypt demo_provider (header_new (replicate 32 7) 0 0)
      \<lparr>nonce = replicate 12 0, ciphertext = [1]\<rparr>
      (demo_receiver\<lparr>skipped_keys := fmupd (replicate 32 7, 0) (replicate 32 5) fmempty\<rparr>, demo_rng)))))
    (replicate 32 7, 0) = None \<and>
   \<not> is_ok (fst (ratchet_decrypt demo_provider (header_new (replicate 32 7) 0 0)
      \<lparr>nonce = replicate 12 0, ciphertext = [1]\<rparr>
      (demo_receiver\<lparr>skipped_keys := fmupd (replicate 32 7, 0) (replicate 32 5) fmempty\<rparr>, demo_rng)))"
proof -
  define s where "s = demo_receiver\<lparr>skipped_keys := fmupd (replicate 32 7, 0) (replicate 32 5) fmempty\<rparr>"
  define h where "h = header_new (replicate 32 7) 0 0"
  let ?e = "\<lparr>nonce = replicate 12 0, ciphertext = [1]\<rparr>"
  obtain x s' r where run: "ratchet_decrypt demo_provider h ?e (s, demo_rng) = (x, (s', r))"
    by (metis prod.collapse)
  have short: "[1] \<noteq> replicate 32 5 @ ys" for ys :: bytes
    by (rule notI, drule arg_cong [where f = length]) simp
  then obtain er where er: "aead_decrypt demo_provider (replicate 32 5) ?e (header_to_bytes demo_provider h) = Err er"
    by (auto simp: aead_decrypt_def demo_provider_def)
  have "x = Err er \<and> r = demo_rng \<and> s' = s\<lparr>skipped_keys := fmdrop (mh_dh_public_key h, mh_message_number h) (skipped_keys s)\<rparr>"
    using damaged_copy_drops_key [OF demo_ratchet_laws _ _ _ er run, where c = "chain_new (replicate 32 0) 1"]
    by (simp add: s_def h_def demo_receiver_def)
  then show ?thesis using run by (simp add: s_def h_def)
qed

text \<open>
  A message number out of reach, on a store that is full: the key of the next message is
  stored, then the limit is noticed.
\<close>

lemma skip_full:
  assumes "hmac_total P" "ck_index c < until" "100 \<le> map_len sk"
    and "fmlookup sk (b, ck_index c) = None"
  shows "skip_loop P b until (c, sk) =
    (Err too_many, (popped P c, fmupd (b, ck_index c) (message_key P (ck_key c) 0) sk))"
proof -
  have "map_len (fmupd (b, ck_index c) (message_key P (ck_key c) 0) sk) = Suc (map_len sk)"
    using assms(4) by (rule map_len_fmupd_new)
  then show ?thesis
    using assms
    by (subst skip_loop.simps)
      (simp add: chain_advance_total popped_def message_key_def Let_def del: fmdom_fmupd)
qed

definition flooded :: "provider \<Rightarrow> bytes \<Rightarrow> Session \<Rightarrow> bool" where
  "flooded P p s \<longleftrightarrow> no_future s \<and> remote_dh_public s = Some p \<and> length p = 32 \<and>
     receiving_chain s \<noteq> None \<and> 100 \<le> map_len (skipped_keys s)"

lemma flooded_step:
  assumes laws: "hmac_total P" and fl: "flooded P (mh_dh_public_key h) s"
    and far: "\<And>c. receiving_chain s = Some c \<Longrightarrow> ck_index c < mh_message_number h"
  obtains c s' where "receiving_chain s = Some c" "receiving_chain s' = Some (popped P c)"
    "ratchet_decrypt P h e (s, r) = (Err too_many, (s', r))" "flooded P (mh_dh_public_key h) s'"
    "map_len (skipped_keys s') = Suc (map_len (skipped_keys s))"
proof -
  from fl obtain c where c: "receiving_chain s = Some c" by (auto simp: flooded_def)
  from far [OF c] have lt: "ck_index c < mh_message_number h" .
  then have "pos c \<le> pk_num \<lparr>pk_header = h, pk_body = e, pk_plain = []\<rparr>"
    by (simp add: word_less_nat_alt)
  with fl c have none: "fmlookup (skipped_keys s) (header_id h) = None"
    "fmlookup (skipped_keys s) (mh_dh_public_key h, ck_index c) = None"
    by (simp_all add: flooded_def no_future_def)
  define s' where "s' = s\<lparr>receiving_chain := Some (popped P c),
    skipped_keys := fmupd (mh_dh_public_key h, ck_index c) (message_key P (ck_key c) 0) (skipped_keys s)\<rparr>"
  have len: "map_len (skipped_keys s') = Suc (map_len (skipped_keys s))"
    using none(2) by (simp add: s'_def map_len_fmupd_new del: fmdom_fmupd)
  have run: "ratchet_decrypt P h e (s, r) = (Err too_many, (s', r))"
    using fl none(1) c skip_full [OF laws lt _ none(2)]
    by (simp add: flooded_def decrypt_same_chain receive_on_chain_def s'_def)
  have "pos (popped P c) = Suc (pos c)"
    using lt by (simp add: popped_def unat_Suc_less)
  with fl c len have "flooded P (mh_dh_public_key h) s'"
    by (auto simp: flooded_def no_future_def s'_def)
  then show thesis
    using that [where c = c and s' = s'] c run len by (simp add: s'_def)
qed

lemma flooded_run:
  assumes laws: "hmac_total P"
  shows "flooded P (mh_dh_public_key h) s \<Longrightarrow> receiving_chain s = Some c \<Longrightarrow>
    pos c + k < unat (mh_message_number h) \<Longrightarrow>
    \<exists>s'. run_calls (session_call P) (replicate k (Open h e)) (s, r) =
        (replicate k (Opened (Err too_many)), (s', r)) \<and>
      map_len (skipped_keys s') = map_len (skipped_keys s) + k"
proof (induction k arbitrary: s c)
  case (Suc k)
  have "ck_index c < mh_message_number h" using Suc.prems(3) by (simp add: word_less_nat_alt)
  then obtain s' where s': "receiving_chain s' = Some (popped P c)"
    "ratchet_decrypt P h e (s, r) = (Err too_many, (s', r))" "flooded P (mh_dh_public_key h) s'"
    "map_len (skipped_keys s') = Suc (map_len (skipped_keys s))"
  proof -
    have far: "\<And>d. receiving_chain s = Some d \<Longrightarrow> ck_index d < mh_message_number h"
      using Suc.prems(2) \<open>ck_index c < mh_message_number h\<close> by simp
    from laws Suc.prems(1) far show thesis
      by (rule flooded_step [where e = e and r = r]) (use that Suc.prems(2) in auto)
  qed
  have "pos (popped P c) + k < unat (mh_message_number h)"
    using Suc.prems(3) \<open>ck_index c < mh_message_number h\<close> by (simp add: popped_def unat_Suc_less)
  from Suc.IH [OF s'(3,1) this] s'(2,4) show ?case by auto
qed simp

text \<open>
  C32. The limit of 100 stored keys does not hold: on a full store every further message with a
  number out of reach is refused with an error and still leaves one more key behind, so \<open>k\<close>
  copies of one such message leave \<open>k\<close> more keys.
\<close>
theorem refused_messages_fill_store:
  assumes "hmac_total P" and "session_wf s" and "no_future s" and "receiving_chain s = Some c"
    and "remote_dh_public s = Some (mh_dh_public_key h)"
    and "100 \<le> map_len (skipped_keys s)"
    and "unat (ck_index c) + k < unat (mh_message_number h)"
  shows "\<exists>s'. run_calls (session_call P) (replicate k (Open h e)) (s, r) =
      (replicate k (Opened (Err (Ratchet ''Too many skipped messages''))), (s', r)) \<and>
    map_len (skipped_keys s') = map_len (skipped_keys s) + k"
  using flooded_run [OF assms(1) _ assms(4,7)] assms(2,3,5,6) assms(4)
  by (simp add: flooded_def session_wf_def)

primrec demo_store :: "nat \<Rightarrow> skipped" where
  "demo_store 0 = fmempty"
| "demo_store (Suc n) = fmupd (replicate 32 7, of_nat n) (replicate 32 0) (demo_store n)"

lemma demo_store_facts:
  "n \<le> 2 ^ 32 \<Longrightarrow> map_len (demo_store n) = n \<and>
     (\<forall>b m. fmlookup (demo_store n) (b, m) =
        (if b = replicate 32 7 \<and> unat m < n then Some (replicate 32 0) else None))"
proof (induction n)
  case (Suc n)
  then have "unat (of_nat n :: u32) = n" by (simp add: unat_of_nat take_bit_nat_eq_self)
  with Suc show ?case
    by (auto simp: map_len_fmupd_new less_Suc_eq word_unat_eq_iff simp del: fmdom_fmupd)
qed simp

lemma refused_messages_fill_store_witness:
  "\<exists>s'. run_calls (session_call demo_provider)
      (replicate 1000 (Open (header_new (replicate 32 7) 2000 0) \<lparr>nonce = [], ciphertext = []\<rparr>))
      (demo_receiver\<lparr>receiving_chain := Some (chain_new (replicate 32 0) 100),
         skipped_keys := demo_store 100\<rparr>, demo_rng) =
      (replicate 1000 (Opened (Err (Ratchet ''Too many skipped messages''))), (s', demo_rng)) \<and>
    map_len (skipped_keys s') = 1100"
proof -
  define s where "s = demo_receiver\<lparr>receiving_chain := Some (chain_new (replicate 32 0) 100),
    skipped_keys := demo_store 100\<rparr>"
  have store: "map_len (demo_store 100) = 100"
    "\<And>b m. fmlookup (demo_store 100) (b, m) =
      (if b = replicate 32 7 \<and> unat m < 100 then Some (replicate 32 0) else None)"
    using demo_store_facts [of 100] by auto
  have wf: "session_wf s" "no_future s"
    by (auto simp: s_def session_wf_def demo_receiver_def store no_future_def chain_new_def
        split: if_splits)
  show ?thesis
    using refused_messages_fill_store [OF ratchet_lawsD(4) [OF demo_ratchet_laws] wf,
        where c = "chain_new (replicate 32 0) 100" and h = "header_new (replicate 32 7) 2000 0"
          and k = 1000 and r = demo_rng and e = "\<lparr>nonce = [], ciphertext = []\<rparr>"] store(1)
    by (simp add: s_def demo_receiver_def chain_new_def)
qed

end
