(* ===== verification/Ratchet_Keys.thy ===== *)
theory Ratchet_Keys
  imports Ratchet_Properties
begin

text \<open>
  A position of the ratchet is the pair of a ratchet key and a message number; one
  message is sealed there, with the key derived for it. What keeps it from sealing two is that the chain index is never put back and
  that a new chain comes with a new ratchet key, whatever the session is fed in between.
\<close>

section \<open>The positions a session seals at\<close>

fun sealed_at :: "session_reply \<Rightarrow> (bytes \<times> u32) list" where
  "sealed_at (Sealed (Ok (h, e))) = [header_id h]"
| "sealed_at _ = []"

definition sends :: "Session \<Rightarrow> nat" where
  "sends s = (case sending_chain s of None \<Rightarrow> 0 | Some c \<Rightarrow> unat (ck_index c))"

lemma next_send:
  assumes "sending_chain s = Some c" "Suc (sends s) < 2 ^ 32"
  shows "unat (ck_index c + 1) = Suc (unat (ck_index c))"
  using assms by (intro unat_Suc_not_max) (auto simp: sends_def unsigned_minus_1_eq_mask mask_eq_exp_minus_1)

text \<open>The public key of a pair drawn from the entropy after \<open>i\<close> bytes of it were used.\<close>

definition key_at :: "provider \<Rightarrow> rng \<Rightarrow> nat \<Rightarrow> bytes" where
  "key_at P r i = x_public P (map r [i..<i + 32])"

definition keys_differ :: "provider \<Rightarrow> rng \<Rightarrow> nat \<Rightarrow> bytes \<Rightarrow> bool" where
  "keys_differ P r n pub \<longleftrightarrow> inj_on (key_at P r) {..<n} \<and> pub \<notin> key_at P r ` {..<n}"

lemma key_at_shift: "key_at P (\<lambda>i. r (k + i)) i = key_at P r (k + i)"
proof -
  have "map (\<lambda>i. r (k + i)) [i..<i + 32] = map r [k + i..<k + i + 32]"
    by (rule nth_equalityI) (simp_all add: add.assoc)
  then show ?thesis by (simp add: key_at_def)
qed

lemma keys_differ_shift:
  assumes "keys_differ P r n pub" "k + m \<le> n"
  shows "keys_differ P (\<lambda>i. r (k + i)) m pub"
    and "0 < k \<Longrightarrow> 0 < n \<Longrightarrow> keys_differ P (\<lambda>i. r (k + i)) m (key_at P r 0)"
proof -
  have inj: "inj_on (key_at P r) {..<n}" and new: "pub \<notin> key_at P r ` {..<n}"
    using assms(1) by (simp_all add: keys_differ_def)
  have shift: "key_at P (\<lambda>i. r (k + i)) = (\<lambda>i. key_at P r (k + i))"
    by (simp add: fun_eq_iff key_at_shift)
  have below: "i < m \<Longrightarrow> k + i \<in> {..<n}" for i using assms(2) by simp
  have inj': "inj_on (\<lambda>i. key_at P r (k + i)) {..<m}"
    using below inj by (auto intro!: inj_onI dest: inj_onD)
  with new below show "keys_differ P (\<lambda>i. r (k + i)) m pub"
    by (auto simp: keys_differ_def shift)
  assume "0 < k" "0 < n"
  then have "key_at P r 0 \<noteq> key_at P r (k + i)" if "i < m" for i
    using below [OF that] inj_onD [OF inj, of 0 "k + i"] by auto
  with inj' show "keys_differ P (\<lambda>i. r (k + i)) m (key_at P r 0)"
    by (auto simp: keys_differ_def shift)
qed

section \<open>What one call does to the position\<close>

lemma receive_on_chain_sending:
  assumes "receive_on_chain P h e s = (x, s')"
  shows "sending_chain s' = sending_chain s"
  using assms
  by (auto simp: receive_on_chain_def Let_def split: option.splits prod.splits if_splits
      elim!: and_then_st.elims and_then_st.elims [OF sym])

lemma skip_current_sending:
  assumes "skip_current_receiving_chain P u s = (x, s')"
  shows "sending_chain s' = sending_chain s"
  using assms by (auto simp: skip_current_receiving_chain_def split: option.splits prod.splits)

lemma encrypt_position:
  assumes laws: "ratchet_laws P" and run: "ratchet_encrypt P m (s, r) = (x, (s', r'))"
    and room: "Suc (sends s) < 2 ^ 32"
  shows "\<exists>k \<le> 32. r' = (\<lambda>i. r (k + i)) \<and> dh_public s' = dh_public s \<and>
    (sealed_at (Sealed x) = [] \<and> sends s \<le> sends s' \<and> sends s' \<le> Suc (sends s) \<or>
     (\<exists>n. sealed_at (Sealed x) = [(dh_public s, n)] \<and> unat n = sends s \<and> sends s' = Suc (sends s)))"
proof (cases "sending_chain s")
  case None
  with run show ?thesis by (intro exI [of _ 0]) (auto simp: ratchet_encrypt_no_chain)
next
  case (Some c)
  have idx: "unat (ck_index c + 1) = Suc (unat (ck_index c))"
    by (rule next_send [OF Some room])
  obtain y g where e: "aead_encrypt P (message_key P (ck_key c) 0) m
      (header_to_bytes P (header_new (dh_public s) (ck_index c) (previous_sending_chain_length s))) r = (y, g)"
    by fastforce
  then have g: "\<exists>k \<le> 32. g = (\<lambda>i. r (k + i))"
    by (auto simp: aead_encrypt_def draw_bytes_def Let_def split: prod.splits
        elim!: and_then_st.elims and_then_st.elims [OF sym] intro: exI [of _ 0] exI [of _ 12])
  from run e Some have "r' = g" "s' = s\<lparr>sending_chain :=
      Some \<lparr>ck_key = hmac_tag P (ck_key c) [1], ck_index = ck_index c + 1\<rparr>\<rparr>"
    "sealed_at (Sealed x) = (if is_ok y then [(dh_public s, ck_index c)] else [])"
    by (cases y; auto simp: ratchet_encrypt_chain [OF ratchet_lawsD(4) [OF laws] Some] header_new_def Let_def)+
  with g Some idx show ?thesis by (auto simp: sends_def)
qed

lemma decrypt_position:
  assumes laws: "ratchet_laws P" and wf: "session_wf s"
    and run: "ratchet_decrypt P h e (s, r) = (x, (s', r'))"
  shows "r' = r \<and> dh_public s' = dh_public s \<and> sends s' = sends s \<or>
    r' = (\<lambda>i. r (32 + i)) \<and> dh_public s' = key_at P r 0 \<and> sends s' = 0"
  using ratchet_lawsD(3,4) [OF laws] wf
proof (cases rule: decrypt_cases [where h = h and e = e and r = r])
  case (chain y s'')
  with run receive_on_chain_frame [OF chain(4)] receive_on_chain_sending [OF chain(4)] show ?thesis
    by (simp add: sends_def)
next
  case (ratchet s1 y s'')
  with run receive_on_chain_frame [OF ratchet(5)] receive_on_chain_sending [OF ratchet(5)] show ?thesis
    by (auto simp: sends_def key_at_def ratcheted_def chain_new_def Let_def split: prod.splits)
next
  case (cut s1)
  with run skip_current_keys [OF cut(4)] skip_current_sending [OF cut(4)] show ?thesis
    by (simp add: sends_def)
qed (use run in \<open>simp_all add: sends_def\<close>)

lemma decrypt_chain:
  assumes laws: "ratchet_laws P" and wf: "session_wf s"
    and run: "ratchet_decrypt P h e (s, r) = (x, (s', r'))"
  shows "dh_public s' = dh_public s \<and> sending_chain s' = sending_chain s \<or>
    dh_public s' = key_at P r 0 \<and> sends s' = 0"
  using ratchet_lawsD(3,4) [OF laws] wf
proof (cases rule: decrypt_cases [where h = h and e = e and r = r])
  case (chain y s'')
  with run receive_on_chain_frame [OF chain(4)] receive_on_chain_sending [OF chain(4)] show ?thesis by simp
next
  case (ratchet s1 y s'')
  with run receive_on_chain_frame [OF ratchet(5)] receive_on_chain_sending [OF ratchet(5)] show ?thesis
    by (auto simp: key_at_def sends_def chain_new_def ratcheted_def Let_def split: prod.splits)
next
  case (cut s1)
  with run skip_current_keys [OF cut(4)] skip_current_sending [OF cut(4)] show ?thesis by simp
qed (use run in simp_all)

section \<open>Any run\<close>

definition positions :: "session_reply list \<Rightarrow> (bytes \<times> u32) list" where
  "positions replies = concat (map sealed_at replies)"

text \<open>Later than the position a session is at: on its chain, or under a key not drawn yet.\<close>

definition later :: "provider \<Rightarrow> rng \<Rightarrow> nat \<Rightarrow> Session \<Rightarrow> bytes \<times> u32 \<Rightarrow> bool" where
  "later P r n s = (\<lambda>(k, i). k = dh_public s \<and> sends s \<le> unat i \<or> k \<in> key_at P r ` {..<n})"

lemma session_call_position:
  assumes laws: "ratchet_laws P" and wf: "session_wf s" and room: "Suc (sends s) < 2 ^ 32"
    and run: "session_call P op (s, r) = (reply, (s', r'))"
  obtains (same) k where "k \<le> 32" "r' = (\<lambda>i. r (k + i))" "dh_public s' = dh_public s"
      "sealed_at reply = []" "sends s \<le> sends s'" "sends s' \<le> Suc (sends s)"
  | (seals) k n where "k \<le> 32" "r' = (\<lambda>i. r (k + i))" "dh_public s' = dh_public s"
      "sealed_at reply = [(dh_public s, n)]" "unat n = sends s" "sends s' = Suc (sends s)"
  | (turns) "r' = (\<lambda>i. r (32 + i))" "dh_public s' = key_at P r 0" "sealed_at reply = []" "sends s' = 0"
proof (cases op)
  case (Seal m)
  with run obtain x where "ratchet_encrypt P m (s, r) = (x, (s', r'))" "reply = Sealed x"
    by (auto split: prod.splits)
  with encrypt_position [OF laws _ room] same seals show thesis by blast
next
  case (Open h e)
  with run obtain x where "ratchet_decrypt P h e (s, r) = (x, (s', r'))" "reply = Opened x"
    by (auto split: prod.splits)
  with decrypt_position [OF laws wf] same [of 0] turns show thesis by fastforce
qed

lemma later_mono:
  assumes "list_all (later P g m t) ps" "key_at P g ` {..<m} \<subseteq> key_at P r ` {..<n}"
    and "dh_public t = dh_public s \<and> sends s \<le> sends t \<or> dh_public t \<in> key_at P r ` {..<n}"
  shows "list_all (later P r n s) ps"
  using assms(1)
proof (rule list.pred_mono_strong)
  fix p assume "later P g m t p"
  with assms(2,3) show "later P r n s p" by (cases p) (auto simp: later_def)
qed

lemma positions_Cons: "positions (reply # rs) = sealed_at reply @ positions rs"
  by (simp add: positions_def)

lemma positions_later:
  assumes "ratchet_laws P" "session_wf s" "keys_differ P r (32 * length ops) (dh_public s)"
    and "sends s + length ops < 2 ^ 32"
    and "run_calls (session_call P) ops (s, r) = (replies, (s', r'))"
  shows "distinct (positions replies) \<and> list_all (later P r (32 * length ops) s) (positions replies)"
  using assms(2-5)
proof (induction ops arbitrary: s r replies)
  case (Cons op ops)
  obtain reply t g where first: "session_call P op (s, r) = (reply, (t, g))" by (rule prod_cases3)
  with Cons.prems(4) obtain rs where rest: "run_calls (session_call P) ops (t, g) = (rs, (s', r'))"
    and replies: "replies = reply # rs"
    by (auto simp: Let_def split: prod.splits)
  have wf: "session_wf t"
    using session.call_inv [of P "(s, r)" op reply "(t, g)"] assms(1) Cons.prems(1) first by simp
  have room: "Suc (sends s) < 2 ^ 32" using Cons.prems(3) by simp
  note diff = keys_differ_shift [OF Cons.prems(2), where m = "32 * length ops"]
  have shifted: "key_at P (\<lambda>i. r (k + i)) ` {..<32 * length ops} \<subseteq> key_at P r ` {..<32 * length (op # ops)}"
    if "k \<le> 32" for k
    using that by (auto simp: key_at_shift intro!: imageI)
  have new: "dh_public s \<notin> key_at P r ` {..<32 * length (op # ops)}"
    using Cons.prems(2) by (simp add: keys_differ_def)
  show ?case
    using assms(1) Cons.prems(1) room first
  proof (cases rule: session_call_position)
    case (same k)
    have IH: "distinct (positions rs)" "list_all (later P g (32 * length ops) t) (positions rs)"
      using Cons.IH [OF wf _ _ rest] diff(1) [of k] same Cons.prems(3) by simp_all
    from later_mono [OF IH(2), of r "32 * length (op # ops)" s] shifted [of k] same
    have "list_all (later P r (32 * length (op # ops)) s) (positions rs)" by simp
    with IH(1) same(4) show ?thesis by (simp add: replies positions_Cons)
  next
    case (seals k n)
    have IH: "distinct (positions rs)" "list_all (later P g (32 * length ops) t) (positions rs)"
      using Cons.IH [OF wf _ _ rest] diff(1) [of k] seals Cons.prems(3) by simp_all
    have "(dh_public s, n) \<notin> set (positions rs)"
    proof
      assume "(dh_public s, n) \<in> set (positions rs)"
      with IH(2) have "later P g (32 * length ops) t (dh_public s, n)" by (auto simp: list_all_iff)
      with seals new shifted [of k] show False by (auto simp: later_def)
    qed
    moreover from later_mono [OF IH(2), of r "32 * length (op # ops)" s] shifted [of k] seals
    have "list_all (later P r (32 * length (op # ops)) s) (positions rs)" by simp
    moreover have "later P r (32 * length (op # ops)) s (dh_public s, n)"
      using seals(5) by (simp add: later_def)
    ultimately show ?thesis using IH(1) seals(4) by (simp add: replies positions_Cons)
  next
    case turns
    have "keys_differ P (\<lambda>i. r (32 + i)) (32 * length ops) (key_at P r 0)"
      by (rule diff(2)) simp_all
    then have IH: "distinct (positions rs)" "list_all (later P g (32 * length ops) t) (positions rs)"
      using Cons.IH [OF wf _ _ rest] turns Cons.prems(3) by simp_all
    have "dh_public t \<in> key_at P r ` {..<32 * length (op # ops)}"
      using turns(2) by (auto intro: imageI)
    with later_mono [OF IH(2), of r "32 * length (op # ops)" s] shifted [of 32] turns(1)
    have "list_all (later P r (32 * length (op # ops)) s) (positions rs)" by simp
    with IH(1) turns(3) show ?thesis by (simp add: replies positions_Cons)
  qed
qed (simp add: positions_def)

section \<open>The key of each position\<close>

text \<open>
  The chains of a session, by ratchet key: a chain key and the number of the message it stands
  before. A sealed message is opened by the message key of its own number, counted from there.
\<close>

fun sealed_under :: "provider \<Rightarrow> (bytes \<Rightarrow> bytes \<times> nat) \<Rightarrow> session_op \<Rightarrow> session_reply \<Rightarrow> bool" where
  "sealed_under P base (Seal m) (Sealed (Ok (h, e))) \<longleftrightarrow>
     (case base (mh_dh_public_key h) of (ck, i) \<Rightarrow> i \<le> unat (mh_message_number h) \<and>
        (\<exists>r r'. aead_encrypt P (message_key P ck (unat (mh_message_number h) - i)) m (header_to_bytes P h) r = (Ok e, r')))"
| "sealed_under P base (Seal m) (Sealed _) \<longleftrightarrow> True"
| "sealed_under P base (Open h e) (Opened _) \<longleftrightarrow> True"
| "sealed_under P base _ _ \<longleftrightarrow> False"

lemma sealed_under_earlier:
  assumes "sealed_under P base op reply" "base k = (chain_key P ck j, i + j)"
  shows "sealed_under P (base(k := (ck, i))) op reply"
  using assms by (cases "(P, base, op, reply)" rule: sealed_under.cases) (auto simp: message_key_shift, blast)

lemma sealed_under_other:
  assumes "sealed_under P base op reply" "\<forall>n. (k, n) \<notin> set (sealed_at reply)"
  shows "sealed_under P (base(k := v)) op reply"
  using assms by (cases "(P, base, op, reply)" rule: sealed_under.cases) auto

text \<open>
  The chain of the session's own key is its sending chain; every other one is counted from 0.
\<close>

definition chains_from :: "Session \<Rightarrow> (bytes \<Rightarrow> bytes \<times> nat) \<Rightarrow> bool" where
  "chains_from s base \<longleftrightarrow> (\<forall>k. snd (base k) = (if k = dh_public s then sends s else 0)) \<and>
     (\<forall>c. sending_chain s = Some c \<longrightarrow> fst (base (dh_public s)) = ck_key c)"

lemma chains_from_own:
  "chains_from s base \<Longrightarrow> sending_chain s = Some c \<Longrightarrow> base (dh_public s) = (ck_key c, unat (ck_index c))"
  by (simp add: chains_from_def sends_def prod_eq_iff)

lemma chains_from_same:
  "dh_public t = dh_public s \<Longrightarrow> sending_chain t = sending_chain s \<Longrightarrow> chains_from t base = chains_from s base"
  by (simp add: chains_from_def sends_def)

lemma chains_from_set:
  assumes "chains_from t base" "dh_public t = dh_public s \<or> sends t = 0"
  shows "chains_from s (base(dh_public s := (case sending_chain s of None \<Rightarrow> [] | Some c \<Rightarrow> ck_key c, sends s)))"
  using assms by (auto simp: chains_from_def)

text \<open>One call leaves the sending chain, moves it by one step, or starts one under a new key.\<close>

lemma session_call_chain:
  assumes laws: "ratchet_laws P" and wf: "session_wf s"
    and run: "session_call P op (s, r) = (reply, (s', r'))"
  obtains (same) "dh_public s' = dh_public s" "sending_chain s' = sending_chain s"
      "\<And>base. sealed_under P base op reply"
  | (moves) c where "dh_public s' = dh_public s" "sending_chain s = Some c"
      "sending_chain s' = Some \<lparr>ck_key = chain_key P (ck_key c) 1, ck_index = ck_index c + 1\<rparr>"
      "\<And>base. chains_from s base \<Longrightarrow> sealed_under P base op reply"
  | (turns) "dh_public s' = key_at P r 0" "sends s' = 0" "\<And>base. sealed_under P base op reply"
proof (cases op)
  case (Seal m)
  with run obtain x where x: "ratchet_encrypt P m (s, r) = (x, (s', r'))" "reply = Sealed x"
    by (auto split: prod.splits)
  show thesis
  proof (cases "sending_chain s")
    case None
    with x Seal show thesis by (intro same) (auto simp: ratchet_encrypt_no_chain)
  next
    case (Some c)
    have "s' = s\<lparr>sending_chain := Some \<lparr>ck_key = chain_key P (ck_key c) 1, ck_index = ck_index c + 1\<rparr>\<rparr>"
      using x(1) by (auto simp: ratchet_encrypt_chain [OF ratchet_lawsD(4) [OF laws] Some] Let_def
          split: prod.splits elim!: and_then_st.elims and_then_st.elims [OF sym])
    moreover have "sealed_under P base op reply"
      if "chains_from s base" for base
    proof (cases x)
      case (Ok y)
      obtain h e where y: "y = (h, e)" by (cases y)
      obtain c' where "sending_chain s = Some c'"
        "h = header_new (dh_public s) (ck_index c') (previous_sending_chain_length s)"
        "aead_encrypt P (message_key P (ck_key c') 0) m (header_to_bytes P h) r = (Ok e, r')"
        by (rule ratchet_encrypt_Ok [OF ratchet_lawsD(4) [OF laws] x(1) [unfolded Ok y]])
      with chains_from_own [OF that Some] Some x(2) Seal Ok y show ?thesis by (auto simp: header_new_def)
    qed (simp_all add: x(2) Seal)
    ultimately show thesis using Some by (intro moves) simp_all
  qed
next
  case (Open h e)
  with run obtain x where x: "ratchet_decrypt P h e (s, r) = (x, (s', r'))" "reply = Opened x"
    by (auto split: prod.splits)
  with decrypt_chain [OF laws wf x(1)] Open show thesis by (auto intro: same turns)
qed

lemma positions_sealed:
  assumes "ratchet_laws P" "session_wf s" "keys_differ P r (32 * length ops) (dh_public s)"
    and "sends s + length ops < 2 ^ 32"
    and "run_calls (session_call P) ops (s, r) = (replies, (s', r'))"
  shows "\<exists>base. chains_from s base \<and> list_all2 (sealed_under P base) ops replies"
  using assms(2-5)
proof (induction ops arbitrary: s r replies)
  case (Cons op ops)
  obtain reply t g where first: "session_call P op (s, r) = (reply, (t, g))" by (rule prod_cases3)
  with Cons.prems(4) obtain rs where rest: "run_calls (session_call P) ops (t, g) = (rs, (s', r'))"
    and replies: "replies = reply # rs"
    by (auto simp: Let_def split: prod.splits)
  have wf: "session_wf t"
    using session.call_inv [of P "(s, r)" op reply "(t, g)"] assms(1) Cons.prems(1) first by simp
  have room: "Suc (sends s) < 2 ^ 32" using Cons.prems(3) by simp
  note diff = keys_differ_shift [OF Cons.prems(2), where m = "32 * length ops"]
  have fits: "keys_differ P g (32 * length ops) (dh_public t) \<and> sends t + length ops < 2 ^ 32 \<and>
      (\<exists>k\<le>32. g = (\<lambda>i. r (k + i)))"
    using assms(1) Cons.prems(1) room first
  proof (cases rule: session_call_position)
    case (same k)
    then show ?thesis using diff(1) [of k] Cons.prems(3) by auto
  next
    case (seals k n)
    then show ?thesis using diff(1) [of k] Cons.prems(3) by auto
  next
    case turns
    then show ?thesis using diff(2) [of 32] Cons.prems(3) by auto
  qed
  from Cons.IH [OF wf _ _ rest] fits obtain base where
    IH: "chains_from t base" "list_all2 (sealed_under P base) ops rs" by blast
  let ?base = "base(dh_public s := (case sending_chain s of None \<Rightarrow> [] | Some c \<Rightarrow> ck_key c, sends s))"
  have extend: ?case if "chains_from s b" "sealed_under P b op reply" "list_all2 (sealed_under P b) ops rs" for b
    using that by (auto simp: replies)
  show ?case
    using assms(1) Cons.prems(1) first
  proof (cases rule: session_call_chain)
    case same
    with IH chains_from_same [OF same(1,2)] show ?thesis by (intro extend [of base]) simp_all
  next
    case (moves c)
    have "unat (ck_index c + 1) = unat (ck_index c) + 1"
      using next_send [OF moves(2) room] by simp
    with chains_from_own [OF IH(1) moves(3)] moves(1)
    have next_: "base (dh_public s) = (chain_key P (ck_key c) 1, unat (ck_index c) + 1)" by simp
    have "list_all2 (sealed_under P ?base) ops rs"
      using IH(2)
    proof (rule list.rel_mono_strong)
      fix op' reply'
      assume "sealed_under P base op' reply'"
      from sealed_under_earlier [where j = 1, OF this next_] moves(2)
      show "sealed_under P ?base op' reply'" by (simp add: sends_def)
    qed
    moreover have "chains_from s ?base" using chains_from_set [OF IH(1), of s] moves(1) by simp
    moreover from this have "sealed_under P ?base op reply" by (rule moves(4))
    ultimately show ?thesis using extend by blast
  next
    case turns
    have later: "list_all (later P g (32 * length ops) t) (positions rs)"
      using positions_later [OF assms(1) wf _ _ rest] fits by blast
    have "(dh_public s, n) \<notin> set (positions rs)" for n
    proof
      assume "(dh_public s, n) \<in> set (positions rs)"
      with later have "later P g (32 * length ops) t (dh_public s, n)" by (auto simp: list_all_iff)
      then have "dh_public s = key_at P r 0 \<or> dh_public s \<in> key_at P g ` {..<32 * length ops}"
        using turns(1) by (auto simp: later_def)
      moreover obtain k where "k \<le> 32" "g = (\<lambda>i. r (k + i))" using fits by blast
      ultimately have "dh_public s \<in> key_at P r ` {..<32 * length (op # ops)}"
        by (auto simp: key_at_shift)
      with Cons.prems(2) show False by (simp add: keys_differ_def)
    qed
    then have "list_all2 (sealed_under P ?base) ops rs"
      using IH(2) by (auto simp: list_all2_conv_all_nth positions_def intro!: sealed_under_other)
    moreover have "chains_from s ?base" using chains_from_set [OF IH(1), of s] turns(2) by simp
    moreover have "sealed_under P ?base op reply" by (rule turns(3))
    ultimately show ?thesis using extend by blast
  qed
next
  case Nil
  show ?case
    using Nil by (intro exI [of _ "\<lambda>k. (case sending_chain s of None \<Rightarrow> [] | Some c \<Rightarrow> ck_key c,
      if k = dh_public s then sends s else 0)"]) (auto simp: chains_from_def)
qed

text \<open>
  C19. A session never seals two messages at one position: whatever headers and bodies it is fed
  between its own messages, genuine, forged or replayed, and whichever calls fail, the pairs of
  ratchet key and message number in the headers it returns are all different. Each message is
  sealed with the key of its own position: every ratchet key has one chain, for the key at the start
  the sending chain as it stands there and for a later key a chain that begins at number 0, and the
  message with number n is sealed with the message key which that chain derives when it comes to n. So two messages of a chain are sealed with keys of different
  derivation steps; that HMAC gives different bytes for different steps is not claimed. The chain
  index must not come round, and the key pairs a ratchet step may draw from the entropy must have
  different public keys.
\<close>
theorem positions_never_reused:
  assumes "ratchet_laws P" and "session_wf s" and "keys_differ P r (32 * length ops) (dh_public s)"
    and "sends s + length ops < 2 ^ 32"
    and "run_calls (session_call P) ops (s, r) = (replies, (s', r'))"
  shows "distinct (positions replies) \<and>
    (\<exists>base. chains_from s base \<and> list_all2 (sealed_under P base) ops replies)"
  using positions_later [OF assms] positions_sealed [OF assms] by blast

lemma positions_never_reused_witness:
  "distinct (positions (fst (run_calls (session_call demo_provider)
     [Open (header_new (replicate 32 7) 0 0) \<lparr>nonce = [], ciphertext = [1]\<rparr>, Seal [1], Seal [2]]
     (init_bob (replicate 32 1) demo_spk, demo_rng))))"
proof -
  let ?ops = "[Open (header_new (replicate 32 7) 0 0) \<lparr>nonce = [], ciphertext = [1]\<rparr>, Seal [1], Seal [2]]"
  have key: "key_at demo_provider demo_rng i = map demo_rng [i..<i + 32]" for i
    by (simp add: key_at_def demo_provider_def pad_to_def)
  then have hds: "key_at demo_provider demo_rng i = of_nat i # of_nat (Suc i) # map demo_rng [Suc (Suc i)..<i + 32]" for i
    by (simp add: demo_rng_def upt_conv_Cons)
  have "inj_on (key_at demo_provider demo_rng) {..<96}"
  proof (rule inj_onI)
    fix i j :: nat
    assume "i \<in> {..<96}" "j \<in> {..<96}" "key_at demo_provider demo_rng i = key_at demo_provider demo_rng j"
    then have "(of_nat i :: u8) = of_nat j" "i < 256" "j < 256" by (simp_all add: hds)
    then have "unat (of_nat i :: u8) = unat (of_nat j :: u8)" by simp
    with \<open>i < 256\<close> \<open>j < 256\<close> show "i = j" by (simp add: unat_of_nat take_bit_nat_eq_self)
  qed
  moreover have "replicate 32 9 \<noteq> key_at demo_provider demo_rng i" for i
  proof
    assume "replicate 32 9 = key_at demo_provider demo_rng i"
    then have "replicate 32 9 ! 0 = key_at demo_provider demo_rng i ! 0"
      "replicate 32 9 ! 1 = key_at demo_provider demo_rng i ! 1" by simp_all
    then show False by (simp add: hds)
  qed
  ultimately have "keys_differ demo_provider demo_rng (32 * length ?ops) (dh_public (init_bob (replicate 32 1) demo_spk))"
    by (auto simp: keys_differ_def init_bob_def demo_spk_def)
  moreover have "sends (init_bob (replicate 32 1) demo_spk) = 0" by (simp add: sends_def init_bob_def)
  moreover obtain replies s r where run: "run_calls (session_call demo_provider) ?ops
      (init_bob (replicate 32 1) demo_spk, demo_rng) = (replies, (s, r))" by (rule prod_cases3)
  ultimately show ?thesis
    using positions_never_reused [OF demo_ratchet_laws demo_bob_wf _ _ run] unfolding run by simp
qed

section \<open>What a message leaves in the store of skipped keys\<close>

lemma skip_result_adds:
  assumes "skip_result P b u (c, sk) x (c', sk')" "fmlookup sk' (k, i) \<noteq> fmlookup sk (k, i)"
  shows "k = b" "i < u"
proof -
  from assms(1) obtain n where n: "stores_range P b (ck_key c) (unat (ck_index c)) n sk sk'"
    "n \<le> unat u - unat (ck_index c)"
    by (auto simp: skip_result_def)
  with assms(2) have "k = b \<and> unat (ck_index c) \<le> unat i \<and> unat i < unat (ck_index c) + n"
    by (auto simp: stores_range_def split: if_splits)
  moreover from this n(2) have "unat i < unat u" by linarith
  ultimately show "k = b" "i < u" by (simp_all add: word_less_nat_alt)
qed

lemma skip_current_adds:
  assumes "hmac_total P" "session_wf s" "skip_current_receiving_chain P u s = (x, s')"
    and "fmlookup (skipped_keys s') (k, i) \<noteq> fmlookup (skipped_keys s) (k, i)"
  shows "remote_dh_public s = Some k \<and> i < u"
proof (cases "receiving_chain s")
  case None
  with assms(3,4) show ?thesis by (simp add: skip_current_none)
next
  case (Some c)
  with assms(2) obtain p where p: "remote_dh_public s = Some p" by (auto simp: session_wf_def)
  from skip_current_some [OF assms(1) Some p, of u] assms(3) obtain c' sk' where
    "s' = s\<lparr>receiving_chain := Some c', skipped_keys := sk'\<rparr>"
    "skip_result P p u (c, skipped_keys s) x (c', sk')"
    by (metis prod.inject)
  with skip_result_adds [of P p u c "skipped_keys s" x c' sk' k i] assms(4) p show ?thesis by simp
qed

lemma receive_adds:
  assumes "hmac_total P" "receive_on_chain P h e s = (x, s')"
    and "fmlookup (skipped_keys s') (k, i) \<noteq> fmlookup (skipped_keys s) (k, i)"
  shows "k = mh_dh_public_key h \<and> i < mh_message_number h"
proof (cases "receiving_chain s")
  case None
  with assms(2,3) show ?thesis by (simp add: receive_on_chain_def)
next
  case (Some c)
  obtain y c' sk' where
    res: "skip_result P (mh_dh_public_key h) (mh_message_number h) (c, skipped_keys s) y (c', sk')"
    and eq: "receive_on_chain P h e s =
      (case y of
         Ok _ \<Rightarrow> (aead_decrypt P (message_key P (ck_key c') 0) e (header_to_bytes P h),
                 s\<lparr>receiving_chain := Some \<lparr>ck_key = chain_key P (ck_key c') 1, ck_index = ck_index c' + 1\<rparr>,
                   skipped_keys := sk'\<rparr>)
       | Err er \<Rightarrow> (Err er, s\<lparr>receiving_chain := Some c', skipped_keys := sk'\<rparr>)
       | Panic \<Rightarrow> (Panic, s\<lparr>receiving_chain := Some c', skipped_keys := sk'\<rparr>))"
    by (rule receive_on_chain_some [OF assms(1) Some, of h e])
  have "skipped_keys s' = sk'" using eq assms(2) by (cases y) auto
  with skip_result_adds [OF res] assms(3) show ?thesis by blast
qed

text \<open>
  C20. No message key outlives its message: after a call to decrypt, whatever it was given and
  however it ended, the store holds no key for the header's position. The keys it adds are those
  of earlier messages only: of the same chain, below the header's number, or of the chain before
  a ratchet step, below the length the header states for it.
\<close>
theorem used_key_is_gone:
  assumes "ratchet_laws P" and "session_wf s" and "ratchet_decrypt P h e (s, r) = (x, (s', r'))"
  shows "fmlookup (skipped_keys s') (header_id h) = None \<and>
    (\<forall>k i. fmlookup (skipped_keys s') (k, i) \<noteq> None \<longrightarrow>
       fmlookup (skipped_keys s') (k, i) = fmlookup (skipped_keys s) (k, i) \<or>
       k = mh_dh_public_key h \<and> i < mh_message_number h \<or>
       remote_dh_public s = Some k \<and> k \<noteq> mh_dh_public_key h \<and> i < mh_previous_chain_length h)"
proof -
  note l = ratchet_lawsD(3,4) [OF assms(1)]
  note adds = receive_adds [OF l(2)] skip_current_adds [OF l(2) assms(2)]
  from l assms(2) show ?thesis
  proof (cases rule: decrypt_cases [where h = h and e = e and r = r])
    case (stored mk)
    with assms(3) show ?thesis by (auto simp: fmlookup_drop split: if_splits)
  next
    case bad_key
    with assms(3) show ?thesis by auto
  next
    case (chain y s'')
    with assms(3) have "s'' = s'" by simp
    have "fmlookup (skipped_keys s') (header_id h) = None"
      using adds(1) [OF chain(4), of "mh_dh_public_key h" "mh_message_number h"] chain(1) \<open>s'' = s'\<close>
      by (cases "fmlookup (skipped_keys s') (header_id h)") auto
    with adds(1) [OF chain(4)] \<open>s'' = s'\<close> show ?thesis by blast
  next
    case (ratchet s1 y s'')
    with assms(3) have "s'' = s'" by simp
    have old: "fmlookup (skipped_keys s1) (k, i) = fmlookup (skipped_keys s) (k, i) \<or>
        remote_dh_public s = Some k \<and> i < mh_previous_chain_length h" for k i
      using adds(2) [OF ratchet(4)] by blast
    have new: "fmlookup (skipped_keys s') (k, i) = fmlookup (skipped_keys s1) (k, i) \<or>
        k = mh_dh_public_key h \<and> i < mh_message_number h" for k i
      using adds(1) [OF ratchet(5), of k i] \<open>s'' = s'\<close> by auto
    have "fmlookup (skipped_keys s') (header_id h) = None"
      using new [of "mh_dh_public_key h" "mh_message_number h"] old [of "mh_dh_public_key h" "mh_message_number h"]
        ratchet(1,3) by auto
    moreover have "fmlookup (skipped_keys s') (k, i) = fmlookup (skipped_keys s) (k, i) \<or>
        k = mh_dh_public_key h \<and> i < mh_message_number h \<or>
        remote_dh_public s = Some k \<and> k \<noteq> mh_dh_public_key h \<and> i < mh_previous_chain_length h" for k i
      using new [of k i] old [of k i] ratchet(3) by auto
    ultimately show ?thesis by blast
  next
    case (cut s1)
    with assms(3) have "s1 = s'" by simp
    have "fmlookup (skipped_keys s') (header_id h) = None"
      using adds(2) [OF cut(4), of "mh_dh_public_key h" "mh_message_number h"] cut(1,3) \<open>s1 = s'\<close>
      by (cases "fmlookup (skipped_keys s') (header_id h)") auto
    moreover have "fmlookup (skipped_keys s') (k, i) = fmlookup (skipped_keys s) (k, i) \<or>
        remote_dh_public s = Some k \<and> k \<noteq> mh_dh_public_key h \<and> i < mh_previous_chain_length h" for k i
      using adds(2) [OF cut(4), of k i] cut(3) \<open>s1 = s'\<close> by auto
    ultimately show ?thesis by blast
  qed
qed

lemma used_key_is_gone_witness:
  "fmlookup (skipped_keys (fst (snd (ratchet_decrypt demo_provider (header_new (replicate 32 7) 3 0)
     \<lparr>nonce = [], ciphertext = [1]\<rparr> (init_bob (replicate 32 1) demo_spk, demo_rng))))) (replicate 32 7, 3) = None"
proof -
  obtain x s r where run: "ratchet_decrypt demo_provider (header_new (replicate 32 7) 3 0)
     \<lparr>nonce = [], ciphertext = [1]\<rparr> (init_bob (replicate 32 1) demo_spk, demo_rng) = (x, (s, r))"
    by (rule prod_cases3)
  from used_key_is_gone [OF demo_ratchet_laws demo_bob_wf run] run show ?thesis
    by (simp add: header_new_def)
qed

end
