(* ===== verification/Registry.thy ===== *)
theory Registry
  imports Errors Interfaces
begin

text \<open>
  The two global handle maps of \<open>src/api.rs\<close>, \<open>SESSIONS\<close> and \<open>MLS_STATES\<close>: a map behind a
  lock and an atomic \<open>u32\<close> counter. The lock is poisoned when a call panics while it holds the
  write guard; from then on every attempt to take it returns an error. \<open>fetch_add\<close> wraps.
  Calls are atomic here: each takes the lock once, except that the counter is read before
  (\<open>Api_Threads\<close> lets other threads run in between).
\<close>

type_synonym 'a api_result = "(string, 'a) outcome"

text \<open>\<open>.map_err(map_err)?\<close>: the \<open>Display\<close> text of the crate's error.\<close>

definition api_map_err :: "'a result \<Rightarrow> 'a api_result" where
  "api_map_err = map_err error_display"

record 'v registry =
  reg_next :: u32
  reg_map :: "(u32, 'v) fmap"
  reg_poisoned :: bool

definition reg_empty :: "'v registry" where
  "reg_empty = \<lparr>reg_next = 1, reg_map = fmempty, reg_poisoned = False\<rparr>"

text \<open>\<open>PoisonError\<close> prints this text.\<close>

definition poison_text :: string where
  "poison_text = ''poisoned lock: another task failed inside''"

definition reg_alloc :: "'v registry \<Rightarrow> u32 \<times> 'v registry" where
  "reg_alloc st = (reg_next st, st\<lparr>reg_next := reg_next st + 1\<rparr>)"

text \<open>
  \<open>NEXT.fetch_add(1)\<close>, then \<open>MAP.write().map_err(..)?.insert(handle, value)\<close>: the handle is
  spent even when the lock is poisoned; an occupied handle is overwritten.
\<close>

definition reg_register :: "string \<Rightarrow> 'v \<Rightarrow> 'v registry \<Rightarrow> (string, u32) outcome \<times> 'v registry" where
  "reg_register label v st =
     (let (h, st) = reg_alloc st in
      if reg_poisoned st then (Err (label @ '' lock poisoned: '' @ poison_text), st)
      else (Ok h, st\<lparr>reg_map := fmupd h v (reg_map st)\<rparr>))"

text \<open>\<open>MAP.write().map_err(..)?.insert(handle, v); Ok(handle)\<close>\<close>

definition reg_store_at :: "string \<Rightarrow> u32 \<Rightarrow> 'v \<Rightarrow> 'v registry \<Rightarrow> (string, u32) outcome \<times> 'v registry" where
  "reg_store_at label h v st =
     (if reg_poisoned st then (Err (label @ '' lock poisoned: '' @ poison_text), st)
      else (Ok h, st\<lparr>reg_map := fmupd h v (reg_map st)\<rparr>))"

lemma reg_register_halves:
  "reg_register label v st = (let (h, st) = reg_alloc st in reg_store_at label h v st)"
  by (simp add: reg_register_def reg_store_at_def reg_alloc_def)

text \<open>
  \<open>MAP.write().map_err(..)?.get_mut(&handle).ok_or_else(..)?\<close> and then a call on the entry: the
  entry keeps whatever the call leaves, and a panic poisons the lock.
\<close>

definition reg_update ::
  "string \<Rightarrow> string \<Rightarrow> u32 \<Rightarrow> ('v \<times> 'g \<Rightarrow> (string, 'a) outcome \<times> ('v \<times> 'g)) \<Rightarrow>
   'v registry \<times> 'g \<Rightarrow> (string, 'a) outcome \<times> ('v registry \<times> 'g)"
where
  "reg_update label noun h f = (\<lambda>(st, g).
     if reg_poisoned st then (Err (label @ '' lock poisoned: '' @ poison_text), (st, g))
     else (case fmlookup (reg_map st) h of
       None \<Rightarrow> (Err (''No '' @ noun @ '' with handle '' @ show_nat (unat h)), (st, g))
     | Some v \<Rightarrow>
         (let (x, (v', g')) = f (v, g); st' = st\<lparr>reg_map := fmupd h v' (reg_map st)\<rparr> in
          (x, (case x of Panic \<Rightarrow> st'\<lparr>reg_poisoned := True\<rparr> | _ \<Rightarrow> st', g')))))"

text \<open>\<open>MAP.read().map_err(..)?.get(&handle).ok_or_else(..)?.clone()\<close>\<close>

definition reg_read :: "string \<Rightarrow> string \<Rightarrow> u32 \<Rightarrow> 'v registry \<Rightarrow> (string, 'v) outcome" where
  "reg_read label noun h st =
     (if reg_poisoned st then Err (label @ '' lock poisoned: '' @ poison_text)
      else ok_or (''No '' @ noun @ '' with handle '' @ show_nat (unat h)) (fmlookup (reg_map st) h))"

text \<open>\<open>match MAP.write() { Ok(mut m) => m.remove(&handle).is_some(), Err(_) => false }\<close>\<close>

definition reg_remove :: "u32 \<Rightarrow> 'v registry \<Rightarrow> bool \<times> 'v registry" where
  "reg_remove h st =
     (if reg_poisoned st then (False, st)
      else (fmlookup (reg_map st) h \<noteq> None, st\<lparr>reg_map := fmdrop h (reg_map st)\<rparr>))"

section \<open>The laws of the map\<close>

definition reg_entry :: "u32 \<Rightarrow> 'v registry \<Rightarrow> 'v option" where
  "reg_entry h st = fmlookup (reg_map st) h"

definition reg_insert :: "'v \<Rightarrow> 'v registry \<Rightarrow> u32 \<times> 'v registry" where
  "reg_insert v st = (let (h, st) = reg_alloc st in (h, st\<lparr>reg_map := fmupd h v (reg_map st)\<rparr>))"

definition reg_put :: "u32 \<Rightarrow> 'v \<Rightarrow> 'v registry \<Rightarrow> 'v registry" where
  "reg_put h v st = st\<lparr>reg_map := fmupd h v (reg_map st)\<rparr>"

definition reg_drop :: "u32 \<Rightarrow> 'v registry \<Rightarrow> 'v registry" where
  "reg_drop h st = st\<lparr>reg_map := fmdrop h (reg_map st)\<rparr>"

definition next_taken :: "'v registry \<Rightarrow> bool" where
  "next_taken st \<longleftrightarrow> fmlookup (reg_map st) (reg_next st) \<noteq> None"

interpretation registry: handle_store reg_insert reg_entry reg_put reg_drop next_taken
  by unfold_locales
    (auto simp: reg_insert_def reg_alloc_def reg_entry_def reg_put_def reg_drop_def next_taken_def
      fmlookup_drop)

text \<open>The operations of the source in terms of the map, on a lock that is not poisoned.\<close>

lemma reg_register_insert:
  "\<not> reg_poisoned st \<Longrightarrow> reg_register label v st = (let (h, st') = reg_insert v st in (Ok h, st'))"
  by (simp add: reg_register_def reg_insert_def reg_alloc_def Let_def)

lemma reg_register_poisoned:
  "reg_poisoned st \<Longrightarrow> reg_register label v st =
     (Err (label @ '' lock poisoned: '' @ poison_text), st\<lparr>reg_next := reg_next st + 1\<rparr>)"
  by (simp add: reg_register_def reg_alloc_def)

lemma reg_update_found:
  assumes "\<not> reg_poisoned st" "reg_entry h st = Some v" "f (v, g) = (x, (v', g'))"
  shows "reg_update label noun h f (st, g) =
    (x, (case x of Panic \<Rightarrow> (reg_put h v' st)\<lparr>reg_poisoned := True\<rparr> | _ \<Rightarrow> reg_put h v' st, g'))"
  using assms by (cases x) (simp_all add: reg_update_def reg_entry_def reg_put_def Let_def)

lemma reg_update_missing:
  assumes "\<not> reg_poisoned st" "reg_entry h st = None"
  shows "reg_update label noun h f (st, g) =
    (Err (''No '' @ noun @ '' with handle '' @ show_nat (unat h)), (st, g))"
  using assms by (simp add: reg_update_def reg_entry_def)

lemma reg_update_poisoned:
  "reg_poisoned st \<Longrightarrow> reg_update label noun h f (st, g) =
     (Err (label @ '' lock poisoned: '' @ poison_text), (st, g))"
  by (simp add: reg_update_def)

lemma reg_update_idle:
  assumes "reg_update label noun h f (st, g) = (x, (st', g'))" "reg_poisoned st \<or> reg_entry h st = None"
  shows "st' = st" "g' = g"
  using assms
  by (cases "reg_poisoned st"; simp add: reg_update_poisoned reg_update_missing; fail)+

lemma reg_entry_poison [simp]:
  "reg_entry j (st\<lparr>reg_poisoned := b\<rparr>) = reg_entry j st"
  "next_taken (st\<lparr>reg_poisoned := b\<rparr>) = next_taken st"
  by (simp_all add: reg_entry_def next_taken_def)

text \<open>No call through one handle changes the entry of another.\<close>

lemma reg_update_other:
  assumes "reg_update label noun h f (st, g) = (x, (st', g'))" "j \<noteq> h"
  shows "reg_entry j st' = reg_entry j st"
proof (cases "reg_poisoned st \<or> reg_entry h st = None")
  case True
  with reg_update_idle(1) [OF assms(1)] show ?thesis by simp
next
  case False
  then obtain v where v: "\<not> reg_poisoned st" "reg_entry h st = Some v" by auto
  obtain y v' g'' where "f (v, g) = (y, (v', g''))" by (metis surj_pair)
  from reg_update_found [where f = f and g = g, OF v this, of label noun] assms registry.put_other [of h j v' st]
  show ?thesis by (cases y) auto
qed

lemma reg_update_next:
  assumes "reg_update label noun h f (st, g) = (x, (st', g'))"
  shows "reg_next st' = reg_next st"
    "reg_entry j st' = None \<longleftrightarrow> reg_entry j st = None"
proof -
  have "reg_next st' = reg_next st \<and> (reg_entry j st' = None \<longleftrightarrow> reg_entry j st = None)"
  proof (cases "reg_poisoned st \<or> reg_entry h st = None")
    case True
    with reg_update_idle(1) [OF assms(1)] show ?thesis by simp
  next
    case False
    then obtain v where v: "\<not> reg_poisoned st" "reg_entry h st = Some v" by auto
    obtain y v' g'' where "f (v, g) = (y, (v', g''))" by (metis surj_pair)
    from reg_update_found [where f = f and g = g, OF v this, of label noun] assms v(2) show ?thesis
      by (cases y) (auto simp: reg_put_def reg_entry_def)
  qed
  then show "reg_next st' = reg_next st" "reg_entry j st' = None \<longleftrightarrow> reg_entry j st = None"
    by simp_all
qed

section \<open>The counter\<close>

text \<open>Every entry has a handle below the counter.\<close>

definition handles_below :: "'v registry \<Rightarrow> bool" where
  "handles_below st \<longleftrightarrow> (\<forall>h. reg_entry h st \<noteq> None \<longrightarrow> unat h < unat (reg_next st))"

lemma handles_below_next: "handles_below st \<Longrightarrow> \<not> next_taken st"
  by (auto simp: handles_below_def next_taken_def reg_entry_def)

lemma unat_next:
  fixes i :: u32
  assumes "unat i + 1 < 2 ^ 32"
  shows "unat (i + 1) = Suc (unat i)"
proof -
  have "i \<noteq> - 1"
  proof
    assume "i = - 1"
    then have "unat i = 2 ^ 32 - 1" by (simp add: unsigned_minus_1_eq_mask mask_eq_exp_minus_1)
    with assms show False by simp
  qed
  then show ?thesis by (rule unat_Suc_not_max)
qed

lemma below_empty: "handles_below reg_empty" "unat (reg_next reg_empty) = 1"
  by (simp_all add: handles_below_def reg_empty_def reg_entry_def)

lemma reg_register_entry:
  assumes "reg_register label v st = (x, st')"
  shows "reg_entry j st' =
    (if \<not> reg_poisoned st \<and> j = reg_next st then Some v else reg_entry j st)"
    and "reg_next st' = reg_next st + 1" "reg_poisoned st' = reg_poisoned st"
    and "x \<noteq> Panic" "x = Ok h \<Longrightarrow> h = reg_next st \<and> \<not> reg_poisoned st"
  using assms by (auto simp: reg_register_def reg_alloc_def reg_entry_def split: if_splits)

lemma unat_succ_le: "unat ((i :: u32) + 1) \<le> Suc (unat i)"
  using unat_next [of i] by (cases "unat i + 1 < 2 ^ 32") (auto intro: le_trans [OF less_imp_le [OF unsigned_less]])

text \<open>A map with one entry, under handle 1.\<close>

definition reg_single :: "'v \<Rightarrow> 'v registry" where
  "reg_single v = \<lparr>reg_next = 2, reg_map = fmupd 1 v fmempty, reg_poisoned = False\<rparr>"

lemma reg_single_facts:
  "reg_entry 1 (reg_single v) = Some v" "handles_below (reg_single v)" "reg_next (reg_single v) = 2"
  "\<not> reg_poisoned (reg_single v)" "reg_entry h (reg_single v) = (if h = 1 then Some v else None)"
  by (auto simp: reg_single_def reg_entry_def handles_below_def split: if_splits)

end
