(* ===== verification/Endpoint.thy ===== *)
theory Endpoint
  imports Ratchet_Properties Registry
begin

text \<open>
  Two devices that talk through one of the crate's interfaces. Each holds any number of sessions,
  of which one is the session with the other device; between the calls on that one the
  application makes any other call. The network in between carries what a sealing call returned,
  reorders and loses it. What the two devices see of each other is the abstract channel of
  \<open>Ratchet_Network\<close>. The interface is a record of its calls on a session behind a handle, and a
  locale states what it has to promise; both interfaces of the crate are instances.
\<close>

section \<open>The interface\<close>

text \<open>
  \<open>'d\<close> is the state of a device, \<open>'w\<close> what a sealing call returns and the application sends. The
  last four fields are what the model knows of them: the session behind a handle, the entropy,
  what the wire data stands for, and whether the device can still be called.
\<close>

record ('d, 'w) endpoint =
  ep_seal :: "u32 \<Rightarrow> bytes \<Rightarrow> 'd \<Rightarrow> 'w api_result \<times> 'd"
  ep_open :: "u32 \<Rightarrow> 'w \<Rightarrow> 'd \<Rightarrow> bytes api_result \<times> 'd"
  ep_other :: "u32 \<Rightarrow> 'd \<Rightarrow> 'd \<Rightarrow> bool"
  ep_error :: "CryptoError \<Rightarrow> string"
  ep_session :: "u32 \<Rightarrow> 'd \<Rightarrow> Session option"
  ep_rand :: "'d \<Rightarrow> rng"
  ep_content :: "'w \<Rightarrow> (MessageHeader \<times> encrypted) option"
  ep_ready :: "'d \<Rightarrow> bool"

locale session_endpoint =
  fixes P :: provider and E :: "('d, 'w) endpoint"
  assumes seal_keeps: "ep_ready E d \<Longrightarrow> ep_session E h d = Some s \<Longrightarrow>
      ratchet_encrypt P m (s, ep_rand E d) = (y, (s', r')) \<Longrightarrow> y \<noteq> Panic \<Longrightarrow> ep_seal E h m d = (x, d') \<Longrightarrow>
      ep_ready E d' \<and> ep_session E h d' = Some s'"
    and seal_answers: "ep_ready E d \<Longrightarrow> ep_session E h d = Some s \<Longrightarrow>
      ratchet_encrypt P m (s, ep_rand E d) = (y, (s', r')) \<Longrightarrow> y \<noteq> Panic \<Longrightarrow> ep_seal E h m d = (x, d') \<Longrightarrow>
      (case y of Ok he \<Rightarrow> \<exists>w. x = Ok w \<and> ep_content E w = Some he | _ \<Rightarrow> \<exists>t. x = Err t)"
    and open_keeps: "ep_ready E d \<Longrightarrow> ep_session E h d = Some s \<Longrightarrow> ep_content E w = Some (hdr, e) \<Longrightarrow>
      ratchet_decrypt P hdr e (s, ep_rand E d) = (z, (s', r')) \<Longrightarrow> ep_open E h w d = (t, d') \<Longrightarrow>
      ep_session E h d' = Some s' \<and> (z \<noteq> Panic \<longrightarrow> ep_ready E d')"
    and open_answers: "ep_ready E d \<Longrightarrow> ep_session E h d = Some s \<Longrightarrow> ep_content E w = Some (hdr, e) \<Longrightarrow>
      ratchet_decrypt P hdr e (s, ep_rand E d) = (z, (s', r')) \<Longrightarrow> z \<noteq> Panic \<Longrightarrow> ep_open E h w d = (t, d') \<Longrightarrow>
      t = map_err (ep_error E) z"
    and other_keeps: "ep_ready E d \<Longrightarrow> ep_session E h d = Some s \<Longrightarrow> ep_other E h d d' \<Longrightarrow>
      ep_ready E d' \<and> ep_session E h d' = Some s"

section \<open>Two devices\<close>

record ('d, 'w) link =
  link_dev :: "party \<Rightarrow> 'd"
  link_handle :: "party \<Rightarrow> u32"
  link_post :: "party \<Rightarrow> ('w \<times> bytes) list"
  link_used :: "bytes set"

definition session_at :: "('d, 'w) endpoint \<Rightarrow> ('d, 'w) link \<Rightarrow> party \<Rightarrow> 'd \<Rightarrow> Session" where
  "session_at E L a d = the (ep_session E (link_handle L a) d)"

abbreviation own_session :: "('d, 'w) endpoint \<Rightarrow> ('d, 'w) link \<Rightarrow> party \<Rightarrow> Session" where
  "own_session E L a \<equiv> session_at E L a (link_dev L a)"

text \<open>A call of party \<open>a\<close> on its session left its device in the state \<open>d\<close>.\<close>

definition acted :: "('d, 'w) endpoint \<Rightarrow> ('d, 'w) link \<Rightarrow> party \<Rightarrow> 'd \<Rightarrow> ('d, 'w) link" where
  "acted E L a d = L\<lparr>link_dev := (link_dev L)(a := d),
     link_used := insert (dh_public (session_at E L a d)) (link_used L)\<rparr>"

definition posted :: "party \<Rightarrow> 'w \<times> bytes \<Rightarrow> ('d, 'w) link \<Rightarrow> ('d, 'w) link" where
  "posted a p L = L\<lparr>link_post := (link_post L)(a := p # link_post L a)\<rparr>"

definition unposted :: "party \<Rightarrow> 'w \<times> bytes \<Rightarrow> ('d, 'w) link \<Rightarrow> ('d, 'w) link" where
  "unposted a p L = L\<lparr>link_post := (link_post L)(a := remove1 p (link_post L a))\<rparr>"

text \<open>What the two applications see: the results of the calls on the session.\<close>

datatype call_event =
    CSealed party bytes
  | CSealFailed party
  | CSealCrashed party
  | COpened party "bytes api_result"
  | CLost party
  | COther party

inductive link_step ::
  "('d, 'w) endpoint \<Rightarrow> ('d, 'w) link \<Rightarrow> call_event \<Rightarrow> ('d, 'w) link \<Rightarrow> bool" for E where
  seal: "ep_seal E (link_handle L a) m (link_dev L a) = (Ok w, d) \<Longrightarrow> chain_left (own_session E L a) \<Longrightarrow>
     link_step E L (CSealed a m) (posted (peer a) (w, m) (acted E L a d))"
| seal_fails: "ep_seal E (link_handle L a) m (link_dev L a) = (Err t, d) \<Longrightarrow>
     chain_left (own_session E L a) \<Longrightarrow> link_step E L (CSealFailed a) (acted E L a d)"
| seal_crashes: "ep_seal E (link_handle L a) m (link_dev L a) = (Panic, d) \<Longrightarrow>
     chain_left (own_session E L a) \<Longrightarrow> link_step E L (CSealCrashed a) (acted E L a d)"
| receive: "(w, m) \<in> set (link_post L a) \<Longrightarrow> ep_open E (link_handle L a) w (link_dev L a) = (x, d) \<Longrightarrow>
     (remote_dh_public (session_at E L a d) \<noteq> remote_dh_public (own_session E L a) \<longrightarrow>
        dh_public (session_at E L a d) \<notin> link_used L) \<Longrightarrow>
     link_step E L (COpened a x) (unposted a (w, m) (acted E L a d))"
| lose: "p \<in> set (link_post L a) \<Longrightarrow> link_step E L (CLost a) (unposted a p L)"
| other: "ep_other E (link_handle L a) (link_dev L a) d \<Longrightarrow>
     link_step E L (COther a) (L\<lparr>link_dev := (link_dev L)(a := d)\<rparr>)"

inductive link_runs ::
  "('d, 'w) endpoint \<Rightarrow> ('d, 'w) link \<Rightarrow> call_event list \<Rightarrow> ('d, 'w) link \<Rightarrow> bool" for E L0 where
  start: "link_runs E L0 [] L0"
| step: "link_runs E L0 evs L \<Longrightarrow> link_step E L ev L' \<Longrightarrow> link_runs E L0 (evs @ [ev]) L'"

text \<open>The devices hold the two sessions of a conversation that starts, whatever else they hold.\<close>

definition link_start ::
  "provider \<Rightarrow> ('d, 'w) endpoint \<Rightarrow> bytes \<Rightarrow> SignedPreKey \<Rightarrow> ('d, 'w) link \<Rightarrow> bool"
where
  "link_start P E ss spk L \<longleftrightarrow> (\<exists>r N. net_init P ss ss spk r = Ok N \<and>
     (\<forall>a. ep_ready E (link_dev L a) \<and> ep_session E (link_handle L a) (link_dev L a) = Some (sess N a)) \<and>
     link_post L = (\<lambda>_. []) \<and> link_used L = used N)"

section \<open>What is seen of the channel\<close>

text \<open>The one refusal the channel allows has one text; any other failure is none of its events.\<close>

fun seen :: "('d, 'w) endpoint \<Rightarrow> call_event \<Rightarrow> event option" where
  "seen E (CSealed a m) = Some (Sent a m)"
| "seen E (CSealFailed a) = Some (SealFailed a)"
| "seen E (CSealCrashed a) = Some (Crashed a)"
| "seen E (COpened a (Ok m)) = Some (Delivered a m)"
| "seen E (COpened a (Err t)) = Some (if t = ep_error E too_many then Refused a too_many else Crashed a)"
| "seen E (COpened a Panic) = Some (Crashed a)"
| "seen E (CLost a) = Some (Lost a)"
| "seen E (COther a) = None"

definition under_way :: "('d, 'w) link \<Rightarrow> channel" where
  "under_way L = (\<lambda>a. mset (map snd (link_post L a)))"

section \<open>The devices as a network\<close>

definition as_packet :: "('d, 'w) endpoint \<Rightarrow> 'w \<times> bytes \<Rightarrow> packet" where
  "as_packet E = (\<lambda>(w, m). let (h, e) = the (ep_content E w) in \<lparr>pk_header = h, pk_body = e, pk_plain = m\<rparr>)"

definition as_network :: "('d, 'w) endpoint \<Rightarrow> ('d, 'w) link \<Rightarrow> rng \<Rightarrow> network" where
  "as_network E L r = \<lparr>sess = (\<lambda>a. own_session E L a), inbox = (\<lambda>a. map (as_packet E) (link_post L a)),
     entropy = r, used = link_used L\<rparr>"

definition link_inv :: "provider \<Rightarrow> ('d, 'w) endpoint \<Rightarrow> ('d, 'w) link \<Rightarrow> bool" where
  "link_inv P E L \<longleftrightarrow> (\<forall>a. ep_ready E (link_dev L a) \<and> ep_session E (link_handle L a) (link_dev L a) \<noteq> None) \<and>
     (\<forall>a. \<forall>(w, m) \<in> set (link_post L a). ep_content E w \<noteq> None) \<and> (\<forall>r. net_inv P (as_network E L r))"

lemma net_inv_as_network: "net_inv P (as_network E L g) \<Longrightarrow> net_inv P (as_network E L r)"
  by (simp add: net_inv_def as_network_def)

lemma as_network_simps [simp]:
  "sess (as_network E L r) a = own_session E L a" "inbox (as_network E L r) a = map (as_packet E) (link_post L a)"
  "entropy (as_network E L r) = r" "used (as_network E L r) = link_used L"
  by (simp_all add: as_network_def)

lemma as_packet_plain [simp]: "pk_plain (as_packet E p) = snd p"
  by (cases p) (simp add: as_packet_def Let_def split: prod.split)

lemma in_transit_as_network [simp]: "in_transit (as_network E L r) = under_way L"
  by (simp add: in_transit_def under_way_def as_network_def comp_def)

text \<open>Moving a session behind its handle moves the network.\<close>

lemma acted_moves:
  assumes "session_at E L a d = s"
  shows "as_network E (acted E L a d) r = moved_to (as_network E L g) a s r"
  using assms by (auto simp: as_network_def acted_def moved_to_def session_at_def fun_eq_iff)

lemma posted_puts: "as_network E (posted a p L) r = put_packet a (as_packet E p) (as_network E L r)"
  by (auto simp: as_network_def posted_def put_packet_def session_at_def fun_eq_iff)

lemma acted_fields [simp]:
  "link_dev (acted E L a d) = (link_dev L)(a := d)" "link_handle (acted E L a d) = link_handle L"
  "link_post (acted E L a d) = link_post L"
  "link_dev (posted b p L) = link_dev L" "link_handle (posted b p L) = link_handle L"
  "link_post (posted b p L) = (link_post L)(b := p # link_post L b)"
  "link_dev (unposted b p L) = link_dev L" "link_handle (unposted b p L) = link_handle L"
  "link_post (unposted b p L) = (link_post L)(b := remove1 p (link_post L b))"
  by (simp_all add: acted_def posted_def unposted_def)

lemma remove1_map:
  "distinct (map f xs) \<Longrightarrow> p \<in> set xs \<Longrightarrow> map f (remove1 p xs) = remove1 (f p) (map f xs)"
  by (induction xs) (auto simp: image_iff)

lemma net_inv_distinct:
  assumes "net_inv P N"
  shows "distinct (inbox N a)"
  using assms
proof (cases rule: net_inv_cases [where a = a])
  case ahead
  from pair_invD(4) [OF this] show ?thesis by (auto simp: keys_in_def distinct_map)
next
  case behind
  from pair_invD(3) [OF this] show ?thesis by (auto simp: keys_in_def distinct_map)
qed

lemma unposted_takes:
  assumes "distinct (map (as_packet E) (link_post L a))" "p \<in> set (link_post L a)"
  shows "as_network E (unposted a p L) r = take_packet a (as_packet E p) (as_network E L r)"
  using remove1_map [OF assms]
  by (auto simp: as_network_def unposted_def take_packet_def session_at_def fun_eq_iff)

lemma link_start_inv:
  assumes "ratchet_laws P" "spk_wf P spk" "link_start P E ss spk L"
  shows "link_inv P E L" "under_way L = (\<lambda>_. {#})"
proof -
  from assms(3) obtain r N where N: "net_init P ss ss spk r = Ok N"
    "\<And>a. ep_ready E (link_dev L a) \<and> ep_session E (link_handle L a) (link_dev L a) = Some (sess N a)"
    "link_post L = (\<lambda>_. [])" "link_used L = used N"
    unfolding link_start_def by blast
  have "inbox N = (\<lambda>_. [])" using N(1) by (auto simp: net_init_def outcome_simps split: prod.splits)
  then have "as_network E L (entropy N) = N" using N(2-4) by (simp add: as_network_def session_at_def)
  then have "net_inv P (as_network E L (entropy N))" using net_init_inv [OF assms(1,2) N(1)] by simp
  with N(2,3) net_inv_as_network show "link_inv P E L" unfolding link_inv_def by fastforce
  show "under_way L = (\<lambda>_. {#})" using N(3) by (simp add: under_way_def)
qed

text \<open>
  What it takes to get a message through at once: a sending chain with an index left, a plaintext
  within the limit, room at the peer for the keys of the messages this one overtakes, and a new
  key from the peer's source of entropy should it have to ratchet.
\<close>

definition next_packet :: "Session \<Rightarrow> bytes \<Rightarrow> packet" where
  "next_packet s m = \<lparr>pk_header = header_new (dh_public s) (ck_index (the (sending_chain s))) (previous_sending_chain_length s),
     pk_body = \<lparr>nonce = [], ciphertext = []\<rparr>, pk_plain = m\<rparr>"

definition way_open :: "provider \<Rightarrow> ('d, 'w) endpoint \<Rightarrow> ('d, 'w) link \<Rightarrow> party \<Rightarrow> bytes \<Rightarrow> bool" where
  "way_open P E L a m \<longleftrightarrow> (\<exists>c. sending_chain (own_session E L a) = Some c \<and> ck_index c \<noteq> - 1) \<and>
     length m \<le> aes_limit \<and>
     map_len (skipped_keys (own_session E L (peer a))) +
       gap (own_session E L (peer a)) (next_packet (own_session E L a) m) \<le> 100 \<and>
     x_public P (map (ep_rand E (link_dev L (peer a))) [0..<32]) \<notin> link_used L"

lemma gap_header: "pk_header p = pk_header q \<Longrightarrow> gap R p = gap R q"
  by (simp add: gap_def)

section \<open>A call on the session is a step of the network\<close>

context session_endpoint
begin

lemma link_invD:
  assumes "link_inv P E L"
  shows "ep_ready E (link_dev L a)" "ep_session E (link_handle L a) (link_dev L a) = Some (own_session E L a)"
    "net_inv P (as_network E L g)" "(w, m) \<in> set (link_post L a) \<Longrightarrow> ep_content E w \<noteq> None"
  using assms by (fastforce simp: link_inv_def session_at_def)+

lemma post_distinct: "link_inv P E L \<Longrightarrow> distinct (map (as_packet E) (link_post L a))"
  using net_inv_distinct [OF link_invD(3)] by (metis as_network_simps(2))

lemma network_step:
  assumes laws: "ratchet_laws P" and inv: "link_inv P E L"
    and step: "net_step P (as_network E L g) e (as_network E L' r)"
    and d: "ep_ready E d" "ep_session E (link_handle L a) d \<noteq> None"
    and L': "link_dev L' = (link_dev L)(a := d)" "link_handle L' = link_handle L"
    and post: "\<And>b w m. (w, m) \<in> set (link_post L' b) \<Longrightarrow> ep_content E w \<noteq> None"
  shows "link_inv P E L' \<and> chan_step (under_way L) e (under_way L')"
proof -
  note net = link_invD(3) [OF inv, of g]
  have "net_inv P (as_network E L' r)" using net_step_inv [OF laws net step] .
  then have "link_inv P E L'"
    using inv d L' post net_inv_as_network [of P E L' r] by (fastforce simp: link_inv_def)
  moreover have "chan_step (under_way L) e (under_way L')"
    using net_step_chan_step [OF laws net step] by simp
  ultimately show ?thesis ..
qed

text \<open>A sealing call and the run of the session inside it.\<close>

lemma seal_run:
  assumes laws: "ratchet_laws P" and inv: "link_inv P E L"
    and call: "ep_seal E (link_handle L a) m (link_dev L a) = (x, d)"
  obtains y s r where
    "ratchet_encrypt P m (own_session E L a, ep_rand E (link_dev L a)) = (y, (s, r))"
    "session_at E L a d = s" "ep_ready E d" "ep_session E (link_handle L a) d \<noteq> None"
    "case y of Ok he \<Rightarrow> \<exists>w. x = Ok w \<and> ep_content E w = Some he | _ \<Rightarrow> \<exists>t. x = Err t" "y \<noteq> Panic"
proof -
  obtain y s r where run: "ratchet_encrypt P m (own_session E L a, ep_rand E (link_dev L a)) = (y, (s, r))"
    by (rule prod_cases3)
  then have np: "y \<noteq> Panic" using ratchet_encrypt_not_Panic [OF laws] by blast
  from seal_keeps [OF link_invD(1,2) [OF inv] run np call] seal_answers [OF link_invD(1,2) [OF inv] run np call]
  np show thesis by (intro that [OF run]) (simp_all add: session_at_def)
qed

lemma seal_channel:
  assumes laws: "ratchet_laws P" and inv: "link_inv P E L"
    and call: "ep_seal E (link_handle L a) m (link_dev L a) = (Ok w, d)" and left: "chain_left (own_session E L a)"
    and L': "L' = posted (peer a) (w, m) (acted E L a d)"
  shows "link_inv P E L' \<and> chan_step (under_way L) (Sent a m) (under_way L')"
proof -
  let ?g = "ep_rand E (link_dev L a)"
  from laws inv call obtain y s r where y: "ratchet_encrypt P m (own_session E L a, ?g) = (y, (s, r))"
    and d: "session_at E L a d = s" "ep_ready E d" "ep_session E (link_handle L a) d \<noteq> None"
    and x: "case y of Ok he \<Rightarrow> \<exists>w'. Ok w = (Ok w' :: 'w api_result) \<and> ep_content E w' = Some he
      | _ \<Rightarrow> \<exists>t. (Ok w :: 'w api_result) = Err t"
    by (rule seal_run)
  from x obtain h e where w: "y = Ok (h, e)" "ep_content E w = Some (h, e)" by (cases y) auto
  have "as_packet E (w, m) = \<lparr>pk_header = h, pk_body = e, pk_plain = m\<rparr>"
    by (simp add: as_packet_def w(2))
  then have "net_step P (as_network E L ?g) (Sent a m) (as_network E L' r)"
    unfolding L' posted_puts acted_moves [OF d(1), where g = ?g]
    using net_step.send [of P m "as_network E L ?g" a h e s r] y w(1) left by simp
  moreover have "ep_content E w' \<noteq> None" if "(w', m') \<in> set (link_post L' b)" for b w' m'
    using that w(2) link_invD(4) [OF inv, of w' m'] by (auto simp: L' split: if_splits)
  ultimately show ?thesis
    using d by (intro network_step [OF laws inv, where d = d and a = a]) (auto simp: L')
qed

lemma seal_fails_channel:
  assumes laws: "ratchet_laws P" and inv: "link_inv P E L"
    and call: "ep_seal E (link_handle L a) m (link_dev L a) = (x, d)" "\<not> is_ok x"
    and left: "chain_left (own_session E L a)" and L': "L' = acted E L a d"
  shows "x \<noteq> Panic \<and> link_inv P E L' \<and> chan_step (under_way L) (SealFailed a) (under_way L')"
proof -
  let ?g = "ep_rand E (link_dev L a)"
  from laws inv call(1) obtain y s r where y: "ratchet_encrypt P m (own_session E L a, ?g) = (y, (s, r))"
    and d: "session_at E L a d = s" "ep_ready E d" "ep_session E (link_handle L a) d \<noteq> None"
    and x: "case y of Ok he \<Rightarrow> \<exists>w. x = Ok w \<and> ep_content E w = Some he | _ \<Rightarrow> \<exists>t. x = Err t" "y \<noteq> Panic"
    by (rule seal_run)
  have bad: "\<not> is_ok y" "x \<noteq> Panic" using x call(2) by (cases y; auto)+
  then have "net_step P (as_network E L ?g) (SealFailed a) (as_network E L' r)"
    unfolding L' acted_moves [OF d(1), where g = ?g]
    using net_step.send_fails [of P m "as_network E L ?g" a y s r] y left bad(1) x(2) by simp
  then have "link_inv P E L' \<and> chan_step (under_way L) (SealFailed a) (under_way L')"
    using d link_invD(4) [OF inv] by (intro network_step [OF laws inv, where d = d and a = a]) (auto simp: L')
  with bad(2) show ?thesis ..
qed

lemma receive_channel:
  assumes laws: "ratchet_laws P" and inv: "link_inv P E L" and mem: "(w, m) \<in> set (link_post L a)"
    and call: "ep_open E (link_handle L a) w (link_dev L a) = (x, d)"
    and new: "remote_dh_public (session_at E L a d) \<noteq> remote_dh_public (own_session E L a) \<longrightarrow>
      dh_public (session_at E L a d) \<notin> link_used L"
    and L': "L' = unposted a (w, m) (acted E L a d)"
  obtains e where "seen E (COpened a x) = Some e" "link_inv P E L'" "chan_step (under_way L) e (under_way L')"
proof -
  let ?N = "as_network E L (ep_rand E (link_dev L a))"
  obtain h e where w: "ep_content E w = Some (h, e)" using link_invD(4) [OF inv mem] by auto
  obtain y s r where run: "ratchet_decrypt P h e (own_session E L a, ep_rand E (link_dev L a)) = (y, (s, r))"
    by (rule prod_cases3)
  note k = open_keeps [OF link_invD(1,2) [OF inv] w run call]
  have d: "session_at E L a d = s" using k by (simp add: session_at_def)
  have pk: "as_packet E (w, m) = \<lparr>pk_header = h, pk_body = e, pk_plain = m\<rparr>"
    by (simp add: as_packet_def w)
  have in_net: "as_packet E (w, m) \<in> set (inbox ?N a)" using mem by simp
  have dec: "ratchet_decrypt P (pk_header (as_packet E (w, m))) (pk_body (as_packet E (w, m)))
      (sess ?N a, entropy ?N) = (y, (s, r))" using run by (simp add: pk)
  have fresh: "new_key_fresh ?N a s" using new d by (simp add: new_key_fresh_def)
  have y: "y = Ok m \<or> y = Err too_many"
    using net_deliver(2) [OF laws link_invD(3) [OF inv] in_net _ fresh] dec by simp
  then have np: "y \<noteq> Panic" by auto
  have x: "x = map_err (ep_error E) y"
    by (rule open_answers [OF link_invD(1,2) [OF inv] w run np call])
  have "distinct (map (as_packet E) (link_post (acted E L a d) a))" using post_distinct [OF inv] by simp
  then have "net_step P ?N (delivery_event a y) (as_network E L' r)"
    unfolding L' by (subst unposted_takes) (use mem net_step.deliver [OF in_net dec fresh] in
        \<open>simp_all add: acted_moves [OF d, where g = "ep_rand E (link_dev L a)"]\<close>)
  moreover have "ep_content E w' \<noteq> None" if "(w', m') \<in> set (link_post L' b)" for b w' m'
    using that link_invD(4) [OF inv, of w' m'] by (auto simp: L' split: if_splits dest: notin_set_remove1)
  ultimately have "link_inv P E L' \<and> chan_step (under_way L) (delivery_event a y) (under_way L')"
    using k np by (intro network_step [OF laws inv, where d = d and a = a]) (auto simp: L')
  moreover have "seen E (COpened a x) = Some (delivery_event a y)" using y x by auto
  ultimately show thesis using that by blast
qed

lemma lose_channel:
  assumes laws: "ratchet_laws P" and inv: "link_inv P E L" and mem: "p \<in> set (link_post L a)"
  shows "link_inv P E (unposted a p L) \<and> chan_step (under_way L) (Lost a) (under_way (unposted a p L))"
proof -
  have "net_step P (as_network E L (\<lambda>_. 0)) (Lost a) (as_network E (unposted a p L) (\<lambda>_. 0))"
    unfolding unposted_takes [OF post_distinct [OF inv] mem] using mem by (intro net_step.lose) simp
  moreover have "ep_content E w' \<noteq> None" if "(w', m') \<in> set (link_post (unposted a p L) b)" for b w' m'
    using that link_invD(4) [OF inv, of w' m'] by (auto split: if_splits dest: notin_set_remove1)
  ultimately show ?thesis
    using link_invD(1,2) [OF inv, of a]
    by (intro network_step [OF laws inv, where d = "link_dev L a" and a = a]) auto
qed

lemma other_channel:
  assumes inv: "link_inv P E L" and call: "ep_other E (link_handle L a) (link_dev L a) d"
    and L': "L' = L\<lparr>link_dev := (link_dev L)(a := d)\<rparr>"
  shows "link_inv P E L' \<and> under_way L' = under_way L"
proof -
  from other_keeps [OF link_invD(1,2) [OF inv] call]
  have k: "ep_ready E d" "ep_session E (link_handle L a) d = Some (own_session E L a)" by simp_all
  then have "session_at E L a d = own_session E L a" by (simp add: session_at_def)
  then have view: "as_network E L' g = as_network E L g" for g
    unfolding L' by (auto simp: as_network_def session_at_def fun_eq_iff)
  have "link_inv P E L'" using inv k unfolding link_inv_def view by (auto simp: L')
  then show ?thesis by (simp add: under_way_def L')
qed

lemma link_step_channel:
  assumes laws: "ratchet_laws P" and inv: "link_inv P E L" and step: "link_step E L ev L'"
  shows "link_inv P E L' \<and> (case seen E ev of None \<Rightarrow> under_way L' = under_way L
    | Some e \<Rightarrow> chan_step (under_way L) e (under_way L'))"
  using step
proof cases
  case (seal a m w d)
  with seal_channel [OF laws inv seal(3,4,2)] show ?thesis by simp
next
  case (seal_fails a m t d)
  with seal_fails_channel [OF laws inv seal_fails(3) _ seal_fails(4,2)] show ?thesis by simp
next
  case (seal_crashes a m d)
  with seal_fails_channel [OF laws inv seal_crashes(3) _ seal_crashes(4,2)] show ?thesis by simp
next
  case (receive w m a x d)
  from laws inv receive(3,4,5,2) obtain e where "seen E (COpened a x) = Some e" "link_inv P E L'"
    "chan_step (under_way L) e (under_way L')" by (rule receive_channel)
  with receive(1) show ?thesis by simp
next
  case (lose p a)
  with lose_channel [OF laws inv lose(3)] show ?thesis by simp
next
  case (other a d)
  with other_channel [OF inv other(3,2)] show ?thesis by simp
qed

text \<open>The interface keeps the channel: a run of the devices is one of the channel.\<close>

lemma link_runs_channel:
  assumes "link_runs E L0 evs L" "ratchet_laws P" "link_inv P E L0"
  shows "link_inv P E L \<and> chan_runs (under_way L0) (List.map_filter (seen E) evs) (under_way L)"
  using assms
proof (induction rule: link_runs.induct)
  case start
  then show ?case by (simp add: chan_runs.start List.map_filter_def)
next
  case (step evs L ev L')
  then have IH: "link_inv P E L"
    "chan_runs (under_way L0) (List.map_filter (seen E) evs) (under_way L)" by simp_all
  from link_step_channel [OF step.prems(1) IH(1) step.hyps(2)] IH(2) show ?case
    by (cases "seen E ev") (auto simp: List.map_filter_def intro: chan_runs.step)
qed

lemma refines_channel:
  assumes "ratchet_laws P" "spk_wf P spk" "link_start P E ss spk L0" "link_runs E L0 evs L"
  shows "chan_runs (\<lambda>_. {#}) (List.map_filter (seen E) evs) (under_way L)"
  using link_runs_channel [OF assms(4,1) link_start_inv(1) [OF assms(1-3)]]
    link_start_inv(2) [OF assms(1-3)] by simp

text \<open>A message sealed and opened at once arrives.\<close>

lemma seal_goes_out:
  assumes laws: "ratchet_laws P" and inv: "link_inv P E L" and way: "way_open P E L a m"
  obtains w d h e where "ep_content E w = Some (h, e)" "h = pk_header (next_packet (own_session E L a) m)"
    "link_step E L (CSealed a m) (posted (peer a) (w, m) (acted E L a d))"
    "link_used (posted (peer a) (w, m) (acted E L a d)) = link_used L"
proof -
  let ?s = "own_session E L a" and ?r = "ep_rand E (link_dev L a)"
  note wf = net_inv_wf [OF link_invD(3) [OF inv], simplified]
  obtain c where c: "sending_chain ?s = Some c" "ck_index c \<noteq> - 1" "length m \<le> aes_limit"
    using way by (auto simp: way_open_def)
  obtain h e where enc: "ratchet_encrypt P m (?s, ?r) =
      (Ok (h, e), (?s\<lparr>sending_chain := Some (popped P c)\<rparr>, \<lambda>i. ?r (12 + i)))"
    and h: "h = header_new (dh_public ?s) (ck_index c) (previous_sending_chain_length ?s)"
    by (rule ratchet_encrypt_total [OF laws wf(1) c(1,3)])
  obtain x d where call: "ep_seal E (link_handle L a) m (link_dev L a) = (x, d)" by (meson surj_pair)
  obtain w where w: "x = Ok w" "ep_content E w = Some (h, e)"
    using seal_answers [OF link_invD(1,2) [OF inv] enc _ call] by auto
  have "dh_public (session_at E L a d) = dh_public ?s"
    using seal_keeps [OF link_invD(1,2) [OF inv] enc _ call] by (simp add: session_at_def)
  then have "link_used (posted (peer a) (w, m) (acted E L a d)) = link_used L"
    using wf(2) by (auto simp: posted_def acted_def)
  moreover have "link_step E L (CSealed a m) (posted (peer a) (w, m) (acted E L a d))"
    using c by (intro link_step.seal [OF call [unfolded w(1)]]) (simp add: chain_left_def)
  ultimately show thesis using w(2) h c(1) by (intro that) (auto simp: next_packet_def)
qed

lemma post_is_opened:
  assumes laws: "ratchet_laws P" and inv: "link_inv P E L" and mem: "(w, m) \<in> set (link_post L a)"
    and room: "map_len (skipped_keys (own_session E L a)) + gap (own_session E L a) (as_packet E (w, m)) \<le> 100"
    and fresh: "x_public P (map (ep_rand E (link_dev L a)) [0..<32]) \<notin> link_used L"
  shows "\<exists>L'. link_step E L (COpened a (Ok m)) L'"
proof -
  let ?N = "as_network E L (ep_rand E (link_dev L a))"
  note net = link_invD(3) [OF inv, of "ep_rand E (link_dev L a)"]
  obtain h e where w: "ep_content E w = Some (h, e)" using link_invD(4) [OF inv mem] by auto
  obtain x d where call: "ep_open E (link_handle L a) w (link_dev L a) = (x, d)" by (meson surj_pair)
  obtain y s r where run: "ratchet_decrypt P h e (own_session E L a, ep_rand E (link_dev L a)) = (y, (s, r))"
    by (rule prod_cases3)
  have d: "session_at E L a d = s"
    using open_keeps [OF link_invD(1,2) [OF inv] w run call] by (simp add: session_at_def)
  have new: "remote_dh_public s \<noteq> remote_dh_public (own_session E L a) \<longrightarrow> dh_public s \<notin> link_used L"
    using ratchet_decrypt_key [OF laws _ run] net_inv_wf(1) [OF net, of a] fresh by auto
  have pk: "as_packet E (w, m) = \<lparr>pk_header = h, pk_body = e, pk_plain = m\<rparr>" by (simp add: as_packet_def w)
  have in_net: "as_packet E (w, m) \<in> set (inbox ?N a)" using mem by simp
  have "y = Ok m"
    using net_deliver(3) [OF laws net in_net] run new room by (simp add: pk new_key_fresh_def)
  then have "x = Ok m" using open_answers [OF link_invD(1,2) [OF inv] w run _ call] by simp
  with link_step.receive [OF mem call] new d show ?thesis by blast
qed

lemma gets_through:
  assumes laws: "ratchet_laws P" and run: "link_runs E L0 evs L" "link_inv P E L0" and way: "way_open P E L a m"
  shows "\<exists>L'. link_runs E L0 (evs @ [CSealed a m, COpened (peer a) (Ok m)]) L'"
proof -
  have inv: "link_inv P E L" using link_runs_channel [OF run(1) laws run(2)] ..
  obtain w d h e where out: "ep_content E w = Some (h, e)" "h = pk_header (next_packet (own_session E L a) m)"
    "link_step E L (CSealed a m) (posted (peer a) (w, m) (acted E L a d))"
    "link_used (posted (peer a) (w, m) (acted E L a d)) = link_used L"
    by (rule seal_goes_out [OF laws inv way])
  let ?M = "posted (peer a) (w, m) (acted E L a d)"
  have inv': "link_inv P E ?M" using link_step_channel [OF laws inv out(3)] ..
  have same: "own_session E ?M (peer a) = own_session E L (peer a)" by (simp add: session_at_def)
  have "gap (own_session E L (peer a)) (as_packet E (w, m)) =
      gap (own_session E L (peer a)) (next_packet (own_session E L a) m)"
    by (rule gap_header) (simp add: as_packet_def out(1,2))
  then have "\<exists>L'. link_step E ?M (COpened (peer a) (Ok m)) L'"
    using way same out(4) by (intro post_is_opened [OF laws inv', where w = w]) (simp_all add: way_open_def)
  then obtain L' where "link_step E ?M (COpened (peer a) (Ok m)) L'" ..
  from link_runs.step [OF link_runs.step [OF run(1) out(3)] this] show ?thesis by auto
qed

text \<open>
  Two devices that hold the two sessions of a conversation that starts can begin: Alice's first
  message gets through.
\<close>

lemma way_open_at_start:
  assumes laws: "ratchet_laws P" and spk: "spk_wf P spk" and m: "length m \<le> aes_limit"
    and start: "link_start P E ss spk L0"
    and fresh: "x_public P (map (ep_rand E (link_dev L0 Bob)) [0..<32]) \<notin> link_used L0"
  shows "way_open P E L0 Alice m"
proof -
  from start obtain r N where N: "net_init P ss ss spk r = Ok N"
    and dev: "\<And>a. ep_session E (link_handle L0 a) (link_dev L0 a) = Some (sess N a)"
    unfolding link_start_def by blast
  then have own: "own_session E L0 a = sess N a" for a by (simp add: session_at_def)
  obtain N' c where "net_init P ss ss spk r = Ok N'" "sess N' Bob = init_bob ss spk"
    "sending_chain (sess N' Alice) = Some c" "ck_index c = 0"
    by (rule net_init_total [OF laws spk])
  with N have "sess N Bob = init_bob ss spk" "sending_chain (sess N Alice) = Some c" "ck_index c = 0" by auto
  then show ?thesis
    using m fresh own by (simp add: way_open_def next_packet_def init_bob_def gap_def chain_gap_def header_new_def)
qed

lemma first_message_from:
  assumes laws: "ratchet_laws P" and spk: "spk_wf P spk" and m: "length m \<le> aes_limit"
    and start: "link_start P E ss spk L0"
    and fresh: "x_public P (map (ep_rand E (link_dev L0 Bob)) [0..<32]) \<notin> link_used L0"
  obtains L where "link_runs E L0 [CSealed Alice m, COpened Bob (Ok m)] L"
  using gets_through [OF laws link_runs.start link_start_inv(1) [OF laws spk start] way_open_at_start [OF assms]]
  by auto

lemma first_message_on_link:
  assumes laws: "ratchet_laws P" and spk: "spk_wf P spk" and m: "length m \<le> aes_limit"
    and fresh: "x_public P (map r [44..<76]) \<notin> {x_public P (map r [0..<32]), spk_x25519_public spk}"
    and dev: "\<And>N a. net_init P ss ss spk r = Ok N \<Longrightarrow>
      ep_ready E (dev N a) \<and> ep_session E (hdl a) (dev N a) = Some (sess N a)"
    and rand: "\<And>N. ep_rand E (dev N Bob) = (\<lambda>i. r (44 + i))"
  shows "\<exists>L0. link_start P E ss spk L0 \<and> way_open P E L0 Alice m \<and>
    (\<exists>L. link_runs E L0 [CSealed Alice m, COpened Bob (Ok m)] L)"
proof -
  obtain N where N: "net_init P ss ss spk r = Ok N"
    "used N = {x_public P (map r [0..<32]), spk_x25519_public spk}"
    by (rule net_init_total [OF laws spk])
  define L0 :: "('d, 'w) link"
    where "L0 = \<lparr>link_dev = dev N, link_handle = hdl, link_post = (\<lambda>_. []), link_used = used N\<rparr>"
  have start: "link_start P E ss spk L0"
    unfolding link_start_def
    by (intro exI [of _ r] exI [of _ N]) (simp add: N(1) L0_def dev [OF N(1)])
  have "x_public P (map (ep_rand E (link_dev L0 Bob)) [0..<32]) \<notin> link_used L0"
    using fresh map_shift_upt [of r 44 32] N(2) by (simp add: L0_def rand)
  with first_message_from [OF laws spk m start] way_open_at_start [OF laws spk m start] start show ?thesis
    by metis
qed

end

end
