(* ===== verification/X3dh.thy ===== *)
theory X3dh
  imports Identity Kdf Interfaces
begin

text \<open>
  X3DH key agreement (\<open>src/x3dh/mod.rs\<close>, \<open>src/x3dh/bundle.rs\<close>): the initiator checks the
  signature on the pre-key, combines three or four Diffie-Hellman values and derives the
  secret; the responder mirrors the computation.
\<close>

record PreKeyBundle =
  pb_identity_key :: bytes
  pb_identity_verifying_key :: bytes
  pb_signed_pre_key :: bytes
  pb_signature :: bytes
  pb_one_time_pre_key :: "bytes option"

record X3DHResult =
  xr_shared_secret :: bytes
  xr_ephemeral_key :: bytes

definition ascii :: "string \<Rightarrow> bytes" where
  "ascii s = map of_char s"

definition X3DH_SALT :: bytes where "X3DH_SALT = ascii ''GhostCrypt_X3DH''"
definition X3DH_INFO :: bytes where "X3DH_INFO = ascii ''X3DH_shared_secret''"
definition X3DH_SECRET_LEN :: nat where "X3DH_SECRET_LEN = 32"

definition x3dh_initiate ::
  "provider \<Rightarrow> IdentityKeyPair \<Rightarrow> PreKeyBundle \<Rightarrow> rng \<Rightarrow> X3DHResult result \<times> rng"
where
  "x3dh_initiate P alice bob r =
     (if \<not> ik_verify P (pb_identity_verifying_key bob) (pb_signed_pre_key bob) (pb_signature bob) then
        (Err (InvalidSignature ''signed pre-key signature failed verification''), r)
      else
        let (ephemeral_secret, r') = draw_bytes 32 r;
            ephemeral_public = x_public P ephemeral_secret;
            dh1 = ik_dh P alice (pb_signed_pre_key bob);
            dh2 = x_dh P ephemeral_secret (pb_identity_key bob);
            dh3 = x_dh P ephemeral_secret (pb_signed_pre_key bob);
            dh_concat = dh1 @ dh2 @ dh3 @
              (case pb_one_time_pre_key bob of Some opk \<Rightarrow> x_dh P ephemeral_secret opk | None \<Rightarrow> [])
        in (and_then (derive P dh_concat X3DH_SALT X3DH_INFO X3DH_SECRET_LEN) (\<lambda>shared_secret.
              Ok \<lparr>xr_shared_secret = shared_secret, xr_ephemeral_key = ephemeral_public\<rparr>), r'))"

definition x3dh_respond ::
  "provider \<Rightarrow> IdentityKeyPair \<Rightarrow> SignedPreKey \<Rightarrow> OneTimePreKey option \<Rightarrow> bytes \<Rightarrow> bytes
   \<Rightarrow> X3DHResult result"
where
  "x3dh_respond P bob bob_spk bob_opk alice_identity_pub alice_ephemeral_pub =
     (let dh1 = spk_dh P bob_spk alice_identity_pub;
          dh2 = ik_dh P bob alice_ephemeral_pub;
          dh3 = spk_dh P bob_spk alice_ephemeral_pub;
          dh_concat = dh1 @ dh2 @ dh3 @
            (case bob_opk of Some opk \<Rightarrow> opk_dh P opk alice_ephemeral_pub | None \<Rightarrow> [])
      in and_then (derive P dh_concat X3DH_SALT X3DH_INFO X3DH_SECRET_LEN) (\<lambda>shared_secret.
           Ok \<lparr>xr_shared_secret = shared_secret, xr_ephemeral_key = alice_ephemeral_pub\<rparr>))"

text \<open>The bundle Bob publishes for his identity, pre-key and (optionally) one one-time key.\<close>

definition publish_bundle ::
  "provider \<Rightarrow> IdentityKeyPair \<Rightarrow> SignedPreKey \<Rightarrow> OneTimePreKey option \<Rightarrow> PreKeyBundle"
where
  "publish_bundle P bob spk opk =
     \<lparr>pb_identity_key = ik_x25519_public bob, pb_identity_verifying_key = ik_verifying_key P bob,
      pb_signed_pre_key = spk_x25519_public spk, pb_signature = spk_signature spk,
      pb_one_time_pre_key = map_option opk_x25519_public opk\<rparr>"

lemma X3DH_SECRET_LEN_le [simp]: "X3DH_SECRET_LEN \<le> hkdf_max"
  by (simp add: X3DH_SECRET_LEN_def hkdf_max_def)

lemma spk_generate_verifies:
  assumes "ed25519_signs P" and "spk_generate P bob r = (spk, r')"
  shows "spk_verify_signature P spk bob"
  using assms
  by (auto simp: spk_verify_signature_def ik_verify_def ik_verifying_key_def spk_generate_def
      draw_bytes_def Let_def ik_sign_def ed25519_signs_def)

section \<open>Agreement\<close>

text \<open>What initiator and responder each feed to the key derivation.\<close>

definition initiator_ikm :: "provider \<Rightarrow> IdentityKeyPair \<Rightarrow> PreKeyBundle \<Rightarrow> bytes \<Rightarrow> bytes" where
  "initiator_ikm P alice b secret =
     x_dh P (ik_x25519_secret alice) (pb_signed_pre_key b) @ x_dh P secret (pb_identity_key b) @
     x_dh P secret (pb_signed_pre_key b) @
     (case pb_one_time_pre_key b of Some opk \<Rightarrow> x_dh P secret opk | None \<Rightarrow> [])"

definition responder_ikm ::
  "provider \<Rightarrow> IdentityKeyPair \<Rightarrow> SignedPreKey \<Rightarrow> OneTimePreKey option \<Rightarrow> bytes \<Rightarrow> bytes \<Rightarrow> bytes"
where
  "responder_ikm P bob spk opk a e =
     x_dh P (spk_x25519_secret spk) a @ x_dh P (ik_x25519_secret bob) e @
     x_dh P (spk_x25519_secret spk) e @
     (case opk of Some k \<Rightarrow> x_dh P (opk_x25519_secret k) e | None \<Rightarrow> [])"

lemma initiate_derives:
  assumes "ik_verify P (pb_identity_verifying_key b) (pb_signed_pre_key b) (pb_signature b)"
  shows "x3dh_initiate P alice b r =
    (and_then (derive P (initiator_ikm P alice b (map r [0..<32])) X3DH_SALT X3DH_INFO 32) (\<lambda>s.
       Ok \<lparr>xr_shared_secret = s, xr_ephemeral_key = x_public P (map r [0..<32])\<rparr>), \<lambda>i. r (32 + i))"
  using assms
  by (simp add: x3dh_initiate_def initiator_ikm_def draw_bytes_def Let_def ik_dh_def X3DH_SECRET_LEN_def)

lemma respond_derives:
  "x3dh_respond P bob spk opk a e =
    and_then (derive P (responder_ikm P bob spk opk a e) X3DH_SALT X3DH_INFO 32) (\<lambda>s.
      Ok \<lparr>xr_shared_secret = s, xr_ephemeral_key = e\<rparr>)"
  by (cases opk) (simp_all add: x3dh_respond_def responder_ikm_def Let_def ik_dh_def spk_dh_def
      opk_dh_def X3DH_SECRET_LEN_def)

text \<open>The key material of a responder, its parts belonging together.\<close>

definition responder_ok ::
  "provider \<Rightarrow> IdentityKeyPair \<times> SignedPreKey \<times> OneTimePreKey option \<Rightarrow> bool"
where
  "responder_ok P = (\<lambda>(bob, spk, opk).
     ik_wf P bob \<and> spk_wf P spk \<and> spk_verify_signature P spk bob \<and>
     (case opk of None \<Rightarrow> True | Some k \<Rightarrow> opk_wf P k))"

lemma ikm_agree:
  assumes com: "dh_commutes P" and alice: "ik_wf P alice" and bob: "responder_ok P (bob, spk, opk)"
  shows "responder_ikm P bob spk opk (ik_x25519_public alice) (x_public P secret) =
    initiator_ikm P alice (publish_bundle P bob spk opk) secret"
proof -
  have swap: "x_dh P a (x_public P b) = x_dh P b (x_public P a)" for a b
    using com by (simp add: dh_commutes_def)
  from alice have a: "ik_x25519_public alice = x_public P (ik_x25519_secret alice)"
    by (simp add: ik_wf_def)
  from bob have b: "ik_x25519_public bob = x_public P (ik_x25519_secret bob)"
    "spk_x25519_public spk = x_public P (spk_x25519_secret spk)"
    by (simp_all add: responder_ok_def ik_wf_def spk_wf_def)
  have o: "opk_x25519_public k = x_public P (opk_x25519_secret k)" if "opk = Some k" for k
    using that bob by (simp add: responder_ok_def opk_wf_def)
  show ?thesis
    by (cases opk)
      (simp_all add: responder_ikm_def initiator_ikm_def publish_bundle_def a b o
        swap [of "ik_x25519_secret alice"] swap [of secret])
qed

lemma published_verifies:
  "responder_ok P (bob, spk, opk) \<Longrightarrow>
     ik_verify P (pb_identity_verifying_key (publish_bundle P bob spk opk))
       (pb_signed_pre_key (publish_bundle P bob spk opk)) (pb_signature (publish_bundle P bob spk opk))"
  by (simp add: responder_ok_def publish_bundle_def spk_verify_signature_def)

text \<open>X3DH as an agreement: the message is the initiator's identity and ephemeral key.\<close>

definition x3dh_offer ::
  "provider \<Rightarrow> PreKeyBundle \<Rightarrow> IdentityKeyPair \<times> rng \<Rightarrow> bytes result \<times> (bytes \<times> bytes)"
where
  "x3dh_offer P b = (\<lambda>(alice, r).
     case fst (x3dh_initiate P alice b r) of
       Ok x \<Rightarrow> (Ok (xr_shared_secret x), (ik_x25519_public alice, xr_ephemeral_key x))
     | Err e \<Rightarrow> (Err e, ([], [])) | Panic \<Rightarrow> (Panic, ([], [])))"

definition x3dh_accept ::
  "provider \<Rightarrow> IdentityKeyPair \<times> SignedPreKey \<times> OneTimePreKey option \<Rightarrow> bytes \<times> bytes \<Rightarrow> bytes result"
where
  "x3dh_accept P = (\<lambda>(bob, spk, opk) (a, e).
     and_then (x3dh_respond P bob spk opk a e) (\<lambda>x. Ok (xr_shared_secret x)))"

interpretation x3dh: agreement
    "\<lambda>k b. dh_commutes P \<and> hkdf_total P \<and> responder_ok P k \<and>
       b = (case k of (bob, spk, opk) \<Rightarrow> publish_bundle P bob spk opk)"
    "\<lambda>(alice, r). ik_wf P alice" "x3dh_offer P" "x3dh_accept P" for P
proof
  fix k b seed s m
  assume ok: "dh_commutes P \<and> hkdf_total P \<and> responder_ok P k \<and>
      b = (case k of (bob, spk, opk) \<Rightarrow> publish_bundle P bob spk opk)"
    and alice: "case seed of (alice, r) \<Rightarrow> ik_wf P alice" and offer: "x3dh_offer P b seed = (s, m)"
  obtain bob spk opk where k: "k = (bob, spk, opk)" by (cases k)
  obtain alice r where seed: "seed = (alice, r)" by (cases seed)
  define ikm where "ikm = initiator_ikm P alice b (map r [0..<32])"
  have "(32 :: nat) \<le> hkdf_max" by (simp add: hkdf_max_def)
  then obtain okm where okm: "derive P ikm X3DH_SALT X3DH_INFO 32 = Ok okm"
    using derive_Ok ok by blast
  have "fst (x3dh_initiate P alice b r) =
      Ok \<lparr>xr_shared_secret = okm, xr_ephemeral_key = x_public P (map r [0..<32])\<rparr>"
    using ok k okm initiate_derives [of P b alice r] published_verifies by (simp add: ikm_def)
  with offer seed have sm: "s = Ok okm" "m = (ik_x25519_public alice, x_public P (map r [0..<32]))"
    by (auto simp: x3dh_offer_def)
  have "responder_ikm P bob spk opk (ik_x25519_public alice) (x_public P (map r [0..<32])) = ikm"
    using ikm_agree ok k alice seed by (simp add: ikm_def)
  with sm k okm show "x3dh_accept P k m = s"
    by (simp add: x3dh_accept_def respond_derives)
qed

section \<open>Properties\<close>

lemma generated_responder_ok:
  assumes "ed25519_signs P" "ik_generate P r = (bob, r1)" "spk_generate P bob r1 = (spk, r2)"
    and "case opk of None \<Rightarrow> True | Some k \<Rightarrow> opk_wf P k"
  shows "responder_ok P (bob, spk, opk)"
  using assms ik_generate_wf [OF assms(2)] spk_generate_wf [OF assms(3)]
    spk_generate_verifies [OF assms(1,3)]
  by (simp add: responder_ok_def)

definition demo_identity :: "u8 \<Rightarrow> IdentityKeyPair" where
  "demo_identity b = fst (ik_generate demo_provider (\<lambda>_. b))"

definition demo_pre_key :: "u8 \<Rightarrow> SignedPreKey" where
  "demo_pre_key b = fst (spk_generate demo_provider (demo_identity b) (\<lambda>_. b + 1))"

definition demo_one_time_key :: OneTimePreKey where
  "demo_one_time_key = fst (opk_make demo_provider 0 (\<lambda>_. 77))"

lemma demo_identity_wf: "ik_wf demo_provider (demo_identity b)"
  unfolding demo_identity_def by (metis ik_generate_wf prod.collapse)

lemma demo_responder_ok:
  "responder_ok demo_provider (demo_identity b, demo_pre_key b, None)"
  "responder_ok demo_provider (demo_identity b, demo_pre_key b, Some demo_one_time_key)"
proof -
  have "spk_generate demo_provider (demo_identity b) (\<lambda>_. b + 1) =
      (demo_pre_key b, snd (spk_generate demo_provider (demo_identity b) (\<lambda>_. b + 1)))"
    by (simp add: demo_pre_key_def)
  note spk = spk_generate_wf [OF this] spk_generate_verifies [OF demo_ed25519_laws(1) this]
  have "opk_wf demo_provider demo_one_time_key"
    by (simp add: demo_one_time_key_def opk_make_def draw_bytes_def opk_wf_def)
  with spk demo_identity_wf
  show "responder_ok demo_provider (demo_identity b, demo_pre_key b, None)"
    "responder_ok demo_provider (demo_identity b, demo_pre_key b, Some demo_one_time_key)"
    by (simp_all add: responder_ok_def)
qed

text \<open>The secret both sides end with, by the interpretation above.\<close>

lemma x3dh_secret:
  assumes "dh_commutes P" and "hkdf_total P" and "ik_wf P alice"
    and "responder_ok P (bob, spk, opk)"
  shows "\<exists>res. x3dh_initiate P alice (publish_bundle P bob spk opk) r = (Ok res, \<lambda>i. r (32 + i)) \<and>
    x3dh_respond P bob spk opk (ik_x25519_public alice) (xr_ephemeral_key res) = Ok res \<and>
    xr_ephemeral_key res = x_public P (map r [0..<32]) \<and> length (xr_shared_secret res) = 32"
proof -
  define b where "b = publish_bundle P bob spk opk"
  define ikm where "ikm = initiator_ikm P alice b (map r [0..<32])"
  have "(32 :: nat) \<le> hkdf_max" by (simp add: hkdf_max_def)
  then obtain okm where okm: "derive P ikm X3DH_SALT X3DH_INFO 32 = Ok okm" "length okm = 32"
    using derive_Ok assms(2) by blast
  have run: "x3dh_initiate P alice b r =
      (Ok \<lparr>xr_shared_secret = okm, xr_ephemeral_key = x_public P (map r [0..<32])\<rparr>, \<lambda>i. r (32 + i))"
    using okm(1) initiate_derives [of P b alice r] published_verifies [OF assms(4)]
    by (simp add: ikm_def b_def)
  then have "x3dh_offer P b (alice, r) =
      (Ok okm, (ik_x25519_public alice, x_public P (map r [0..<32])))"
    by (simp add: x3dh_offer_def)
  with assms have "x3dh_accept P (bob, spk, opk)
      (ik_x25519_public alice, x_public P (map r [0..<32])) = Ok okm"
    by (intro x3dh.agree [where p = b and r = "(alice, r)"]) (simp_all add: b_def)
  then have "x3dh_respond P bob spk opk (ik_x25519_public alice) (x_public P (map r [0..<32])) =
      Ok \<lparr>xr_shared_secret = okm, xr_ephemeral_key = x_public P (map r [0..<32])\<rparr>"
    by (auto simp: x3dh_accept_def respond_derives outcome_simps)
  with run okm(2) show ?thesis unfolding b_def by auto
qed

text \<open>
  C17. X3DH agrees: against a bundle whose parts belong together, with or without a one-time
  key, the initiator succeeds, and the responder, given the initiator's identity key and the
  ephemeral key of the result and the same one-time key, computes the same 32-byte secret.
\<close>
theorem x3dh_agreement:
  assumes "dh_commutes P" and "hkdf_total P" and "ik_wf P alice"
    and "responder_ok P (bob, spk, opk)"
  shows "\<exists>res. x3dh_initiate P alice (publish_bundle P bob spk opk) r = (Ok res, \<lambda>i. r (32 + i)) \<and>
    x3dh_respond P bob spk opk (ik_x25519_public alice) (xr_ephemeral_key res) = Ok res \<and>
    xr_ephemeral_key res = x_public P (map r [0..<32]) \<and> length (xr_shared_secret res) = 32"
  using assms by (rule x3dh_secret)

lemma x3dh_agreement_witness:
  "\<exists>res. fst (x3dh_initiate demo_provider (demo_identity 3)
       (publish_bundle demo_provider (demo_identity 5) (demo_pre_key 5) (Some demo_one_time_key)) (\<lambda>_. 9)) = Ok res \<and>
     x3dh_respond demo_provider (demo_identity 5) (demo_pre_key 5) (Some demo_one_time_key)
       (ik_x25519_public (demo_identity 3)) (xr_ephemeral_key res) = Ok res"
proof -
  note l = ratchet_lawsD [OF demo_ratchet_laws]
  from x3dh_agreement [OF l(1,3) demo_identity_wf demo_responder_ok(2)] show ?thesis
    by (metis fst_conv)
qed

text \<open>
  A bundle whose signature does not verify under its identity key is refused before any
  key is drawn or combined.
\<close>
theorem x3dh_rejects_bad_signature:
  assumes "\<not> ed_verify P (pb_identity_verifying_key b) (pb_signed_pre_key b) (pb_signature b) \<or>
    length (pb_signature b) \<noteq> 64"
  shows "x3dh_initiate P alice b r =
    (Err (InvalidSignature ''signed pre-key signature failed verification''), r)"
  using assms by (auto simp: x3dh_initiate_def ik_verify_def)

lemma x3dh_rejects_bad_signature_witness:
  "x3dh_initiate demo_provider (demo_identity 3)
     ((publish_bundle demo_provider (demo_identity 5) (demo_pre_key 5) None)\<lparr>pb_signature := [1, 2]\<rparr>) (\<lambda>_. 9) =
   (Err (InvalidSignature ''signed pre-key signature failed verification''), \<lambda>_. 9)"
  by (rule x3dh_rejects_bad_signature) simp

end
