(* ===== verification/Api_Sessions.thy ===== *)
theory Api_Sessions
  imports Registry X3dh Ratchet_Properties
begin

text \<open>
  The foreign-function interface of \<open>src/api.rs\<close>, sections 1 to 10: key generation, X3DH, the
  sessions behind \<open>u32\<close> handles, and the plain AES calls. Errors are strings, the \<open>Display\<close> text
  of the crate's error. The state of the session calls is the registry \<open>SESSIONS\<close> with its
  counter, and the entropy source.
\<close>

section \<open>Helpers and stateless calls\<close>

definition bytes_to_public_key :: "bytes \<Rightarrow> bytes api_result" where
  "bytes_to_public_key b =
     (if length b \<noteq> 32 then Err (''Expected 32 bytes for public key, got '' @ show_nat (length b))
      else Ok b)"

definition bytes_to_verifying_key :: "provider \<Rightarrow> bytes \<Rightarrow> bytes api_result" where
  "bytes_to_verifying_key P b =
     (if length b \<noteq> 32 then Err (''Expected 32 bytes for verifying key, got '' @ show_nat (length b))
      else case ed_vk_error P b of
        Some e \<Rightarrow> Err (''Invalid Ed25519 verifying key: '' @ e)
      | None \<Rightarrow> Ok b)"

record IdentityKeyResult =
  ikr_identity_secret :: bytes
  ikr_identity_public :: bytes
  ikr_signing_secret :: bytes
  ikr_signing_public :: bytes

definition api_generate_identity_keypair :: "provider \<Rightarrow> rng \<Rightarrow> IdentityKeyResult \<times> rng" where
  "api_generate_identity_keypair P r =
     (let (kp, r') = ik_generate P r in
      (\<lparr>ikr_identity_secret = ik_secret_bytes kp, ikr_identity_public = ik_x25519_public kp,
        ikr_signing_secret = ik_signing_secret_bytes kp, ikr_signing_public = ik_verifying_key P kp\<rparr>, r'))"

record SignedPreKeyResult =
  spr_secret :: bytes
  spr_public_key :: bytes
  spr_signature :: bytes

definition api_generate_signed_pre_key ::
  "provider \<Rightarrow> bytes \<Rightarrow> bytes \<Rightarrow> rng \<Rightarrow> SignedPreKeyResult api_result \<times> rng"
where
  "api_generate_signed_pre_key P identity_secret signing_secret r =
     and_then_st (api_map_err (ik_from_bytes P identity_secret signing_secret), r) (\<lambda>identity r.
       let (spk, r') = spk_generate P identity r in
       (Ok \<lparr>spr_secret = spk_secret_bytes spk, spr_public_key = spk_x25519_public spk,
            spr_signature = spk_signature spk\<rparr>, r'))"

record OneTimePreKeyResult =
  opr_id :: u32
  opr_public_key :: bytes
  opr_secret :: bytes

definition api_generate_one_time_pre_keys ::
  "provider \<Rightarrow> u32 \<Rightarrow> rng \<Rightarrow> OneTimePreKeyResult list \<times> rng"
where
  "api_generate_one_time_pre_keys P num r =
     (let (keys, r') = opk_generate_batch P (unat num) r in
      (map (\<lambda>k. \<lparr>opr_id = opk_id k, opr_public_key = opk_x25519_public k,
                 opr_secret = opk_secret_bytes k\<rparr>) keys, r'))"

record X3dhInitResult =
  xir_shared_secret :: bytes
  xir_ephemeral_public :: bytes

definition api_x3dh_initiate ::
  "provider \<Rightarrow> bytes \<Rightarrow> bytes \<Rightarrow> bytes \<Rightarrow> bytes \<Rightarrow> bytes \<Rightarrow> bytes \<Rightarrow> bytes option \<Rightarrow> rng
   \<Rightarrow> X3dhInitResult api_result \<times> rng"
where
  "api_x3dh_initiate P alice_identity_secret alice_signing_secret bob_identity_public
     bob_signing_public bob_spk_public bob_spk_signature bob_opk_public r =
     and_then_st (api_map_err (ik_from_bytes P alice_identity_secret alice_signing_secret), r)
       (\<lambda>alice_identity r.
     and_then_st (bytes_to_public_key bob_identity_public, r) (\<lambda>bob_ik r.
     and_then_st (bytes_to_public_key bob_spk_public, r) (\<lambda>bob_spk r.
     and_then_st (bytes_to_verifying_key P bob_signing_public, r) (\<lambda>bob_vk r.
     and_then_st (case bob_opk_public of
         Some b \<Rightarrow> and_then (bytes_to_public_key b) (\<lambda>k. Ok (Some k)) | None \<Rightarrow> Ok None, r) (\<lambda>bob_opk r.
     let bundle = \<lparr>pb_identity_key = bob_ik, pb_identity_verifying_key = bob_vk,
                   pb_signed_pre_key = bob_spk, pb_signature = bob_spk_signature,
                   pb_one_time_pre_key = bob_opk\<rparr>;
         (x, r') = x3dh_initiate P alice_identity bundle r
     in and_then_st (api_map_err x, r') (\<lambda>res r'.
          (Ok \<lparr>xir_shared_secret = xr_shared_secret res,
               xir_ephemeral_public = xr_ephemeral_key res\<rparr>, r')))))))"

definition api_x3dh_respond ::
  "provider \<Rightarrow> bytes \<Rightarrow> bytes \<Rightarrow> bytes \<Rightarrow> bytes \<Rightarrow> bytes \<Rightarrow> bytes \<Rightarrow> bytes \<Rightarrow> bytes api_result"
where
  "api_x3dh_respond P bob_identity_secret bob_signing_secret bob_spk_secret bob_spk_public
     bob_spk_signature alice_identity_public alice_ephemeral_public =
     and_then (api_map_err (ik_from_bytes P bob_identity_secret bob_signing_secret)) (\<lambda>bob_identity.
     and_then (api_map_err (spk_from_bytes bob_spk_secret bob_spk_public bob_spk_signature)) (\<lambda>bob_spk.
     and_then (bytes_to_public_key alice_identity_public) (\<lambda>alice_ik.
     and_then (bytes_to_public_key alice_ephemeral_public) (\<lambda>alice_ek.
     and_then (api_map_err (x3dh_respond P bob_identity bob_spk None alice_ik alice_ek)) (\<lambda>res.
       Ok (xr_shared_secret res))))))"

definition api_aes_encrypt :: "provider \<Rightarrow> bytes \<Rightarrow> bytes \<Rightarrow> rng \<Rightarrow> encrypted api_result \<times> rng" where
  "api_aes_encrypt P key plaintext r =
     (if length key \<noteq> 32 then (Err (''Key must be 32 bytes, got '' @ show_nat (length key)), r)
      else (let (x, r') = aead_encrypt P key plaintext [] r in (api_map_err x, r')))"

definition api_aes_decrypt :: "provider \<Rightarrow> bytes \<Rightarrow> bytes \<Rightarrow> bytes \<Rightarrow> bytes api_result" where
  "api_aes_decrypt P key ct n =
     (if length key \<noteq> 32 then Err (''Key must be 32 bytes, got '' @ show_nat (length key))
      else api_map_err (aead_decrypt P key \<lparr>nonce = n, ciphertext = ct\<rparr> []))"

section \<open>Sessions behind handles\<close>

record EncryptResult =
  er_header :: MessageHeader
  er_ciphertext :: bytes
  er_nonce :: bytes

type_synonym api_state = "Session registry \<times> rng"

definition create_session_initiator ::
  "provider \<Rightarrow> bytes \<Rightarrow> bytes \<Rightarrow> api_state \<Rightarrow> u32 api_result \<times> api_state"
where
  "create_session_initiator P shared_secret responder_spk_public = (\<lambda>(st, r).
     and_then_st (bytes_to_public_key responder_spk_public, (st, r)) (\<lambda>bob_spk_pub (st, r).
       let (session, r') = init_alice P shared_secret bob_spk_pub r in
       and_then_st (session, (st, r')) (\<lambda>session (st, r').
         let (h, st') = reg_register ''Session'' session st in (h, (st', r')))))"

definition create_session_responder ::
  "bytes \<Rightarrow> bytes \<Rightarrow> bytes \<Rightarrow> bytes \<Rightarrow> api_state \<Rightarrow> u32 api_result \<times> api_state"
where
  "create_session_responder shared_secret our_spk_secret our_spk_public our_spk_signature = (\<lambda>(st, r).
     and_then_st (api_map_err (spk_from_bytes our_spk_secret our_spk_public our_spk_signature), (st, r))
       (\<lambda>spk (st, r).
         let (h, st') = reg_register ''Session'' (init_bob shared_secret spk) st in (h, (st', r))))"

definition session_encrypt :: "provider \<Rightarrow> u32 \<Rightarrow> bytes \<Rightarrow> api_state \<Rightarrow> EncryptResult api_result \<times> api_state" where
  "session_encrypt P session_handle plaintext =
     reg_update ''Session'' ''session'' session_handle (\<lambda>s.
       let (x, s') = ratchet_encrypt P plaintext s in
       (and_then (api_map_err x) (\<lambda>(header, enc).
          Ok \<lparr>er_header = header, er_ciphertext = ciphertext enc, er_nonce = nonce enc\<rparr>), s'))"

definition session_decrypt ::
  "provider \<Rightarrow> u32 \<Rightarrow> MessageHeader \<Rightarrow> bytes \<Rightarrow> bytes \<Rightarrow> api_state \<Rightarrow> bytes api_result \<times> api_state"
where
  "session_decrypt P session_handle header ct n =
     reg_update ''Session'' ''session'' session_handle (\<lambda>s.
       let (x, s') = ratchet_decrypt P header \<lparr>nonce = n, ciphertext = ct\<rparr> s in (api_map_err x, s'))"

definition destroy_session :: "u32 \<Rightarrow> api_state \<Rightarrow> bool \<times> api_state" where
  "destroy_session session_handle = (\<lambda>(st, r).
     let (b, st') = reg_remove session_handle st in (b, (st', r)))"

section \<open>The calls as one component\<close>

datatype api_op =
    CreateInitiator bytes bytes
  | CreateResponder bytes bytes bytes bytes
  | Encrypt u32 bytes
  | Decrypt u32 MessageHeader bytes bytes
  | Destroy u32

datatype api_reply =
    Handle "u32 api_result"
  | Encrypted "EncryptResult api_result"
  | Decrypted "bytes api_result"
  | Destroyed bool

fun api_call :: "provider \<Rightarrow> api_op \<Rightarrow> api_state \<Rightarrow> api_reply \<times> api_state" where
  "api_call P (CreateInitiator ss pub) st =
     (let (x, st') = create_session_initiator P ss pub st in (Handle x, st'))"
| "api_call P (CreateResponder ss sec pub sig) st =
     (let (x, st') = create_session_responder ss sec pub sig st in (Handle x, st'))"
| "api_call P (Encrypt h m) st = (let (x, st') = session_encrypt P h m st in (Encrypted x, st'))"
| "api_call P (Decrypt h hdr c n) st = (let (x, st') = session_decrypt P h hdr c n st in (Decrypted x, st'))"
| "api_call P (Destroy h) st = (let (b, st') = destroy_session h st in (Destroyed b, st'))"

text \<open>The handle a call goes through, if it names one.\<close>

fun op_handle :: "api_op \<Rightarrow> u32 option" where
  "op_handle (Encrypt h m) = Some h"
| "op_handle (Decrypt h hdr c n) = Some h"
| "op_handle (Destroy h) = Some h"
| "op_handle _ = None"

section \<open>What the calls leave of the registry\<close>

text \<open>Both ways to create a session: nothing happens, or a well-formed session is registered.\<close>

lemma create_initiator_cases:
  assumes "hkdf_total P" "x25519_sizes P" "create_session_initiator P ss pub (st, r) = (x, (st', r'))"
  obtains "length pub \<noteq> 32" "st' = st" "\<not> is_ok x" "x \<noteq> Panic"
  | s where "length pub = 32" "init_alice P ss pub r = (Ok s :: (string, Session) outcome, r')" "session_wf s"
      "reg_register ''Session'' s st = (x, st')"
proof (cases "length pub = 32")
  case False
  with assms(3) show thesis
    by (intro that(1)) (auto simp: create_session_initiator_def bytes_to_public_key_def)
next
  case True
  obtain s g where s: "init_alice P ss pub r = (Ok s :: (string, Session) outcome, g)"
    using init_alice_total [OF assms(1), of ss pub r] by (auto simp: Let_def split: prod.splits)
  moreover have "session_wf s" using assms(1,2) True s by (rule init_alice_wf)
  ultimately show thesis
    using True assms(3)
    by (intro that(2)) (auto simp: create_session_initiator_def bytes_to_public_key_def Let_def split: prod.splits)
qed

lemma create_responder_cases:
  assumes "create_session_responder ss sec pub sg (st, r) = (x, (st', r'))"
  obtains "st' = st" "\<not> is_ok x" "x \<noteq> Panic"
  | spk where "spk_from_bytes sec pub sg = Ok spk" "session_wf (init_bob ss spk)"
      "reg_register ''Session'' (init_bob ss spk) st = (x, st')"
proof (cases "spk_from_bytes sec pub sg")
  case (Ok spk)
  then have "length (spk_x25519_public spk) = 32"
    by (auto simp: spk_from_bytes_def split: if_splits)
  with Ok assms init_bob_wf show thesis
    by (intro that(2)) (auto simp: create_session_responder_def api_map_err_def split: prod.splits)
next
  case (Err e)
  with assms show thesis
    by (intro that(1)) (auto simp: create_session_responder_def api_map_err_def)
next
  case Panic
  then show thesis by (auto simp: spk_from_bytes_def split: if_splits)
qed

text \<open>Every session in the registry is well-formed.\<close>

definition api_wf :: "api_state \<Rightarrow> bool" where
  "api_wf st \<longleftrightarrow> (\<forall>h s. reg_entry h (fst st) = Some s \<longrightarrow> session_wf s)"

lemma api_wf_rng: "api_wf (st, g) \<Longrightarrow> api_wf (st, g')"
  by (simp add: api_wf_def)

lemma api_wf_update:
  assumes wf: "api_wf (st, g)" and run: "reg_update l n h f (st, g) = (x, (st', g'))"
    and step: "\<And>v y v' u'. session_wf v \<Longrightarrow> f (v, g) = (y, (v', u')) \<Longrightarrow> session_wf v'"
  shows "api_wf (st', g')"
proof (cases "reg_poisoned st \<or> reg_entry h st = None")
  case True
  with reg_update_idle [OF run] wf show ?thesis by simp
next
  case False
  then obtain v where v: "\<not> reg_poisoned st" "reg_entry h st = Some v" by auto
  obtain y v' u' where f: "f (v, g) = (y, (v', u'))" by (metis surj_pair)
  have "session_wf v'" using wf v(2) step [OF _ f] by (simp add: api_wf_def)
  moreover have "reg_entry j st' = reg_entry j (reg_put h v' st)" for j
    using reg_update_found [where f = f and g = g, OF v f, of l n] run by (cases y) auto
  ultimately show ?thesis
    using wf by (auto simp: api_wf_def registry.get_put)
qed

lemma api_wf_register:
  "api_wf (st, g) \<Longrightarrow> session_wf v \<Longrightarrow> reg_register l v st = (x, st') \<Longrightarrow> api_wf (st', g')"
  unfolding api_wf_def by (auto simp: reg_register_entry(1) split: if_splits)

lemma session_call_in_api:
  assumes laws: "ratchet_laws P" and wf: "session_wf v"
  shows "(let (x, s') = ratchet_encrypt P m (v, g) in (F x, s')) = (y, (v', g')) \<Longrightarrow> session_wf v'"
    and "(let (x, s') = ratchet_decrypt P hdr e (v, g) in (G x, s')) = (z, (v', g')) \<Longrightarrow> session_wf v'"
proof -
  note l = ratchet_lawsD [OF laws]
  show "session_wf v'" if "(let (x, s') = ratchet_encrypt P m (v, g) in (F x, s')) = (y, (v', g'))"
    using that wf by (auto split: prod.splits intro: ratchet_encrypt_wf)
  show "session_wf v'" if "(let (x, s') = ratchet_decrypt P hdr e (v, g) in (G x, s')) = (z, (v', g'))"
    using that wf l by (auto split: prod.splits intro: ratchet_decrypt_wf)
qed

interpretation api: component "api_call P" "\<lambda>st. ratchet_laws P \<and> api_wf st" for P
proof
  fix st st' :: api_state and op reply
  assume inv: "ratchet_laws P \<and> api_wf st" and call: "api_call P op st = (reply, st')"
  note laws = conjunct1 [OF inv] and l = ratchet_lawsD [OF conjunct1 [OF inv]]
  obtain s g s' g' where st: "st = (s, g)" "st' = (s', g')" by (metis surj_pair)
  have "api_wf (s', g')"
  proof (cases op)
    case (CreateInitiator ss pub)
    with call st obtain x where run: "create_session_initiator P ss pub (s, g) = (x, (s', g'))"
      by (auto split: prod.splits)
    with l(3,2) show ?thesis
      by (rule create_initiator_cases) (use inv st in \<open>auto intro: api_wf_register api_wf_rng\<close>)
  next
    case (CreateResponder ss sec pub sg)
    with call st obtain x where run: "create_session_responder ss sec pub sg (s, g) = (x, (s', g'))"
      by (auto split: prod.splits)
    then show ?thesis
      by (rule create_responder_cases) (use inv st in \<open>auto intro: api_wf_register api_wf_rng\<close>)
  next
    case (Encrypt h m)
    with call st obtain x where run: "session_encrypt P h m (s, g) = (x, (s', g'))"
      by (auto split: prod.splits)
    show ?thesis
      using _ run [unfolded session_encrypt_def] session_call_in_api(1) [OF laws]
      by (rule api_wf_update) (use inv st in simp)
  next
    case (Decrypt h hdr c n)
    with call st obtain x where run: "session_decrypt P h hdr c n (s, g) = (x, (s', g'))"
      by (auto split: prod.splits)
    show ?thesis
      using _ run [unfolded session_decrypt_def] session_call_in_api(2) [OF laws]
      by (rule api_wf_update) (use inv st in simp)
  next
    case (Destroy h)
    with call st inv show ?thesis
      by (auto simp: destroy_session_def reg_remove_def api_wf_def reg_entry_def split: if_splits prod.splits)
  qed
  with inv st show "ratchet_laws P \<and> api_wf st'" by simp
qed

end
