(* ===== verification/Api_Properties.thy ===== *)
theory Api_Properties
  imports Api_Sessions
begin

text \<open>
  The properties of the session interface: handles are unique and isolated, the counter cannot
  overwrite a live session before it wraps, a panic in one session takes every session down,
  and the whole way from key generation to the first message is correct.
\<close>

section \<open>Handles\<close>

lemma api_call_cases:
  assumes laws: "hkdf_total P" "x25519_sizes P" and call: "api_call P op (st, r) = (reply, (st', r'))"
  obtains
    (idle) "st' = st" "\<And>i. reply \<noteq> Handle (Ok i)"
  | (create) label v x where "reg_register label v st = (x, st')" "reply = Handle x" "op_handle op = None"
  | (update) h where "op_handle op = Some h" "\<And>i. reply \<noteq> Handle (Ok i)"
      "reg_next st' = reg_next st" "\<And>j. reg_entry j st' = None \<longleftrightarrow> reg_entry j st = None"
      "\<And>j. j \<noteq> h \<Longrightarrow> reg_entry j st' = reg_entry j st"
  | (remove) h b where "reg_remove h st = (b, st')" "op_handle op = Some h" "reply = Destroyed b"
proof (cases op)
  case (CreateInitiator ss pub)
  with call obtain x where run: "create_session_initiator P ss pub (st, r) = (x, (st', r'))"
    "reply = Handle x"
    by (auto split: prod.splits)
  from laws run(1) show thesis
    by (rule create_initiator_cases) (use run(2) CreateInitiator in \<open>auto intro: idle create\<close>)
next
  case (CreateResponder ss sec pub sg)
  with call obtain x where run: "create_session_responder ss sec pub sg (st, r) = (x, (st', r'))"
    "reply = Handle x"
    by (auto split: prod.splits)
  from run(1) show thesis
    by (rule create_responder_cases) (use run(2) CreateResponder in \<open>auto intro: idle create\<close>)
next
  case (Encrypt h m)
  with call obtain x where run: "session_encrypt P h m (st, r) = (x, (st', r'))" "reply = Encrypted x"
    by (auto split: prod.splits)
  show thesis
    using reg_update_next [OF run(1) [unfolded session_encrypt_def]]
      reg_update_other [OF run(1) [unfolded session_encrypt_def]]
    by (intro update [of h]) (simp_all add: Encrypt run(2))
next
  case (Decrypt h hdr c n)
  with call obtain x where run: "session_decrypt P h hdr c n (st, r) = (x, (st', r'))" "reply = Decrypted x"
    by (auto split: prod.splits)
  show thesis
    using reg_update_next [OF run(1) [unfolded session_decrypt_def]]
      reg_update_other [OF run(1) [unfolded session_decrypt_def]]
    by (intro update [of h]) (simp_all add: Decrypt run(2))
next
  case (Destroy h)
  with call obtain b where "reg_remove h st = (b, st')" "reply = Destroyed b"
    by (auto simp: destroy_session_def split: prod.splits)
  with Destroy show thesis by (intro remove) simp_all
qed

lemma api_call_counter:
  assumes laws: "hkdf_total P" "x25519_sizes P" and call: "api_call P op (st, r) = (reply, (st', r'))"
    and below: "handles_below st" and room: "unat (reg_next st) + 1 < 2 ^ 32"
  shows "handles_below st' \<and> unat (reg_next st) \<le> unat (reg_next st') \<and>
    unat (reg_next st') \<le> Suc (unat (reg_next st)) \<and>
    (\<forall>h. reply = Handle (Ok h) \<longrightarrow> h = reg_next st \<and> unat (reg_next st') = Suc (unat h))"
  using laws call
proof (cases rule: api_call_cases)
  case idle
  then show ?thesis using below by simp
next
  case (create label v x)
  note reg = reg_register_entry [OF create(1)]
  from below reg(1,2) unat_next [OF room] have "handles_below st'"
    by (auto simp: handles_below_def less_Suc_eq)
  with reg(2,5) create(2) unat_next [OF room] show ?thesis by auto
next
  case (update h)
  with below show ?thesis by (simp add: handles_below_def)
next
  case (remove h b)
  with below show ?thesis
    by (auto simp: handles_below_def reg_remove_def reg_entry_def split: if_splits)
qed

text \<open>The handles a run hands out, in order.\<close>

fun handles_given :: "api_reply list \<Rightarrow> u32 list" where
  "handles_given [] = []"
| "handles_given (Handle (Ok h) # rs) = h # handles_given rs"
| "handles_given (r # rs) = handles_given rs"

lemma handles_given_Cons:
  "handles_given (r # rs) = (case r of Handle (Ok h) \<Rightarrow> h # handles_given rs | _ \<Rightarrow> handles_given rs)"
  by (auto split: api_reply.splits outcome.splits)

lemma run_handles:
  assumes laws: "hkdf_total P" "x25519_sizes P"
  shows "run_calls (api_call P) ops (st, r) = (replies, (st', r')) \<Longrightarrow> handles_below st \<Longrightarrow>
    unat (reg_next st) + length ops < 2 ^ 32 \<Longrightarrow>
    handles_below st' \<and> distinct (handles_given replies) \<and>
    (\<forall>h\<in>set (handles_given replies). unat (reg_next st) \<le> unat h \<and> unat h < unat (reg_next st'))  \<and>
    unat (reg_next st) \<le> unat (reg_next st')"
proof (induction ops arbitrary: st r replies)
  case (Cons op ops)
  obtain reply s g where first: "api_call P op (st, r) = (reply, (s, g))" by (metis surj_pair)
  obtain rs where rest: "run_calls (api_call P) ops (s, g) = (rs, (st', r'))" "replies = reply # rs"
    using Cons.prems(1) first by (auto simp: Let_def split: prod.splits)
  have step: "handles_below s" "unat (reg_next st) \<le> unat (reg_next s)"
    "unat (reg_next s) \<le> Suc (unat (reg_next st))"
    "\<And>h. reply = Handle (Ok h) \<Longrightarrow> h = reg_next st \<and> unat (reg_next s) = Suc (unat h)"
    using api_call_counter [OF laws first Cons.prems(2)] Cons.prems(3) by auto
  have "unat (reg_next s) + length ops < 2 ^ 32" using step(3) Cons.prems(3) by simp
  note IH = Cons.IH [OF rest(1) step(1) this]
  show ?case
  proof (cases "\<exists>h. reply = Handle (Ok h)")
    case True
    then obtain h where h: "reply = Handle (Ok h)" by blast
    from IH step(4) [OF h] rest(2) h show ?thesis by fastforce
  next
    case False
    then have "handles_given replies = handles_given rs"
      unfolding rest(2) handles_given_Cons by (auto split: api_reply.splits outcome.splits)
    with IH step(2) show ?thesis by fastforce
  qed
qed simp

text \<open>
  In any sequence of fewer than \<open>2 ^ 32 - 1\<close> calls made from an empty store, no two sessions
  get the same handle, whatever was destroyed in between, and the next handle is still free: no
  call that creates a session has overwritten a live one.
\<close>
theorem handles_unique:
  assumes "hkdf_total P" and "x25519_sizes P"
    and "run_calls (api_call P) ops (reg_empty, r) = (replies, (st, r'))"
    and "length ops < 2 ^ 32 - 1"
  shows "distinct (handles_given replies) \<and> \<not> next_taken st \<and>
    (\<forall>h. reg_entry h st \<noteq> None \<longrightarrow> h < reg_next st)"
proof -
  have "unat (reg_next (reg_empty :: Session registry)) + length ops < 2 ^ 32"
    using assms(4) by (simp add: below_empty(2))
  from run_handles [OF assms(1-3) below_empty(1) this] have
    "handles_below st" "distinct (handles_given replies)" by blast+
  with handles_below_next show ?thesis by (auto simp: handles_below_def word_less_nat_alt)
qed

lemma handles_unique_witness:
  "distinct (handles_given (fst (run_calls (api_call demo_provider)
     [CreateInitiator [1] (replicate 32 9), CreateInitiator [2] (replicate 32 9), Destroy 1,
      CreateInitiator [3] (replicate 32 9)] (reg_empty, demo_rng))))"
proof -
  note l = ratchet_lawsD [OF demo_ratchet_laws]
  define ops where "ops = [CreateInitiator [1] (replicate 32 9), CreateInitiator [2] (replicate 32 9),
    Destroy 1, CreateInitiator [3] (replicate 32 9)]"
  obtain replies st r where run:
    "run_calls (api_call demo_provider) ops (reg_empty, demo_rng) = (replies, (st, r))"
    by (metis prod.collapse)
  from handles_unique [OF l(3,2) run] run show ?thesis
    by (simp add: ops_def del: run_calls.simps)
qed

text \<open>
  C30. A call that does not name a handle leaves the session behind it exactly as it was: no
  other session's messages, forged or genuine, and no creation or destruction touch it, as long
  as the counter has not come round to it.
\<close>
theorem sessions_isolated:
  assumes "hkdf_total P" and "x25519_sizes P" and "reg_entry j st = Some s"
    and "handles_below st" and "unat (reg_next st) + length ops < 2 ^ 32"
    and "list_all (\<lambda>op. op_handle op \<noteq> Some j) ops"
    and "run_calls (api_call P) ops (st, r) = (replies, (st', r'))"
  shows "reg_entry j st' = Some s"
  using assms(3-7)
proof (induction ops arbitrary: st r replies)
  case (Cons op ops)
  obtain reply t g where first: "api_call P op (st, r) = (reply, (t, g))" by (metis surj_pair)
  obtain rs where rest: "run_calls (api_call P) ops (t, g) = (rs, (st', r'))"
    using Cons.prems(5) first by (auto simp: Let_def split: prod.splits)
  have step: "handles_below t" "unat (reg_next t) \<le> Suc (unat (reg_next st))"
    using api_call_counter [OF assms(1,2) first Cons.prems(2)] Cons.prems(3) by auto
  have "reg_entry j t = Some s"
    using assms(1,2) first
  proof (cases rule: api_call_cases)
    case (create label v x)
    have "j \<noteq> reg_next st" using Cons.prems(1,2) by (auto simp: handles_below_def)
    with reg_register_entry(1) [OF create(1), of j] Cons.prems(1) show ?thesis by simp
  next
    case (remove h b)
    with Cons.prems(1,4) show ?thesis
      by (auto simp: reg_remove_def reg_entry_def split: if_splits)
  qed (use Cons.prems(1,4) in auto)
  moreover have "unat (reg_next t) + length ops < 2 ^ 32" using step(2) Cons.prems(3) by simp
  ultimately show ?case
    using Cons.IH [OF _ step(1) _ _ rest] Cons.prems(4) by simp
qed simp

lemma sessions_isolated_witness:
  "reg_entry 1 (fst (snd (run_calls (api_call demo_provider)
     [Decrypt 2 (header_new [] 0 0) [] [], CreateInitiator [2] (replicate 32 9), Destroy 3]
     (reg_single demo_receiver, demo_rng)))) = Some demo_receiver"
proof -
  note l = ratchet_lawsD [OF demo_ratchet_laws]
  define ops where "ops = [Decrypt 2 (header_new [] 0 0) [] [], CreateInitiator [2] (replicate 32 9), Destroy 3]"
  obtain replies st r where run:
    "run_calls (api_call demo_provider) ops (reg_single demo_receiver, demo_rng) = (replies, (st, r))"
    by (metis prod.collapse)
  have "reg_entry 1 st = Some demo_receiver"
    by (rule sessions_isolated [OF l(3,2) reg_single_facts(1,2) _ _ run])
      (simp_all add: reg_single_facts(3) ops_def)
  with run show ?thesis by (simp add: ops_def del: run_calls.simps)
qed

section \<open>Invariant and poisoning\<close>

text \<open>
  C31. Whatever the callers do, every session behind a handle is well-formed: the session calls
  with any handle, header, body and key bytes keep that invariant of the whole store.
\<close>
theorem store_invariant:
  assumes "ratchet_laws P" and "run_calls (api_call P) ops (reg_empty, r) = (replies, (st, r'))"
    and "reg_entry h st = Some s"
  shows "session_wf s"
proof -
  have "ratchet_laws P \<and> api_wf (reg_empty, r)"
    using assms(1) by (simp add: api_wf_def reg_entry_def reg_empty_def)
  from api.run_inv [OF this assms(2)] assms(3) show ?thesis by (simp add: api_wf_def)
qed

lemma store_invariant_witness:
  "\<exists>s. reg_entry 1 (fst (snd (run_calls (api_call demo_provider)
      [CreateInitiator [1] (replicate 32 9)] (reg_empty, demo_rng)))) = Some s \<and> session_wf s"
proof -
  note l = ratchet_lawsD [OF demo_ratchet_laws]
  obtain s g where s: "init_alice demo_provider [1] (replicate 32 9) demo_rng =
      (Ok s :: (string, Session) outcome, g)"
    using init_alice_total [OF l(3), of "[1]" "replicate 32 9" demo_rng]
    by (auto simp: Let_def split: prod.splits)
  obtain replies st r where run: "run_calls (api_call demo_provider)
      [CreateInitiator [1] (replicate 32 9)] (reg_empty, demo_rng) = (replies, (st, r))"
    by (metis prod.collapse)
  then have "reg_entry 1 st = Some s"
    using s by (auto simp: create_session_initiator_def bytes_to_public_key_def reg_register_def
        reg_alloc_def reg_empty_def reg_entry_def)
  with store_invariant [OF demo_ratchet_laws run this] run show ?thesis by simp
qed

fun reply_fails :: "api_reply \<Rightarrow> bool" where
  "reply_fails (Handle x) = (\<not> is_ok x)"
| "reply_fails (Encrypted x) = (\<not> is_ok x)"
| "reply_fails (Decrypted x) = (\<not> is_ok x)"
| "reply_fails (Destroyed b) = (\<not> b)"

lemma poisoned_call:
  assumes "reg_poisoned st" "api_call P op (st, r) = (reply, (st', r'))"
  shows "reply_fails reply \<and> reg_poisoned st'"
proof (cases op)
  case (CreateInitiator ss pub)
  obtain x where run: "create_session_initiator P ss pub (st, r) = (x, (st', r'))" "reply = Handle x"
    using assms(2) CreateInitiator by (auto split: prod.splits)
  obtain s g where "init_alice P ss pub r = (s :: (string, Session) outcome, g)" by fastforce
  with run assms(1) show ?thesis
    by (cases s) (auto simp: create_session_initiator_def bytes_to_public_key_def reg_register_poisoned
        split: if_splits)
next
  case (CreateResponder ss sec pub sg)
  with assms show ?thesis
    by (cases "spk_from_bytes sec pub sg")
      (auto simp: create_session_responder_def api_map_err_def reg_register_poisoned split: prod.splits)
next
  case (Encrypt h m)
  with assms show ?thesis by (auto simp: session_encrypt_def reg_update_poisoned)
next
  case (Decrypt h hdr c n)
  with assms show ?thesis by (auto simp: session_decrypt_def reg_update_poisoned)
next
  case (Destroy h)
  with assms show ?thesis by (auto simp: destroy_session_def reg_remove_def)
qed

lemma poisoned_run:
  "reg_poisoned st \<Longrightarrow> run_calls (api_call P) ops (st, r) = (replies, (st', r')) \<Longrightarrow>
     list_all reply_fails replies"
proof (induction ops arbitrary: st r replies)
  case (Cons op ops)
  obtain reply t g where first: "api_call P op (st, r) = (reply, (t, g))" by (metis surj_pair)
  obtain rs where rest: "run_calls (api_call P) ops (t, g) = (rs, (st', r'))" "replies = reply # rs"
    using Cons.prems(2) first by (auto simp: Let_def split: prod.splits)
  from poisoned_call [OF Cons.prems(1) first] Cons.IH [OF _ rest(1)] rest(2) show ?case by simp
qed simp

text \<open>
  C25. One message whose header key has not 32 bytes, delivered to any live session, panics while
  the lock is held, and from then on every call on every session fails: nothing can be created,
  encrypted, decrypted or destroyed until the process restarts.
\<close>
theorem malformed_header_disables_store:
  assumes "\<not> reg_poisoned st" and "reg_entry h st = Some s" and "session_wf s"
    and "length (mh_dh_public_key hdr) \<noteq> 32"
    and "session_decrypt P h hdr ct n (st, r) = (x, st')"
    and "run_calls (api_call P) ops st' = (replies, st'')"
  shows "x = Panic \<and> list_all reply_fails replies"
proof -
  have none: "fmlookup (skipped_keys s) (header_id hdr) = None"
    using assms(3,4) by (cases "fmlookup (skipped_keys s) (header_id hdr)") (auto simp: session_wf_def)
  have "ratchet_decrypt P hdr \<lparr>nonce = n, ciphertext = ct\<rparr> (s, r) = (Panic, (s, r))"
    using none assms(4) by (rule decrypt_bad_key)
  with assms(1,2,5) have x: "x = Panic" "st' = ((reg_put h s st)\<lparr>reg_poisoned := True\<rparr>, r)"
    by (auto simp: session_decrypt_def reg_update_def reg_entry_def reg_put_def api_map_err_def)
  obtain t g where "st'' = (t, g)" by fastforce
  with poisoned_run [of "(reg_put h s st)\<lparr>reg_poisoned := True\<rparr>" P ops r replies t g] assms(6) x
  show ?thesis by simp
qed

lemma malformed_header_disables_store_witness:
  "list_all reply_fails (fst (run_calls (api_call demo_provider)
     [Encrypt 1 [1], CreateInitiator [1] (replicate 32 9), Destroy 1]
     (snd (session_decrypt demo_provider 1 (header_new [1, 2] 0 0) [] [] (reg_single demo_receiver, demo_rng)))))"
proof -
  obtain x st where dec: "session_decrypt demo_provider 1 (header_new [1, 2] 0 0) [] []
      (reg_single demo_receiver, demo_rng) = (x, st)" by (metis surj_pair)
  obtain replies t where run: "run_calls (api_call demo_provider)
     [Encrypt 1 [1], CreateInitiator [1] (replicate 32 9), Destroy 1] st = (replies, t)" by (metis surj_pair)
  have "length (mh_dh_public_key (header_new [1, 2] 0 0)) \<noteq> 32" by simp
  from malformed_header_disables_store [OF reg_single_facts(4,1) demo_receiver_wf this dec run] dec run
  show ?thesis by (simp del: run_calls.simps)
qed

section \<open>From keys to the first message\<close>

text \<open>The first message of the initiator opens at the responder, whatever either draws.\<close>

lemma first_message_opens:
  assumes laws: "ratchet_laws P" and spk: "spk_wf P spk"
    and init: "init_alice P ss (spk_x25519_public spk) r = (Ok a :: ('e, Session) outcome, r1)"
    and enc: "ratchet_encrypt P m (a, g) = (Ok (h, e), st)"
  shows "fst (ratchet_decrypt P h e (init_bob ss spk, g')) = Ok m"
proof -
  note l = ratchet_lawsD [OF laws]
  define secret where "secret = map r [0..<32]"
  obtain rk ck where step: "root_step P ss (x_dh P secret (spk_x25519_public spk)) = (rk, ck)"
    by fastforce
  have a: "sending_chain a = Some (chain_new ck 0)" "dh_public a = x_public P secret"
    "previous_sending_chain_length a = 0"
    using init step by (auto simp: init_alice_total [OF l(3)] Let_def secret_def)
  obtain a' g1 where st: "st = (a', g1)" by (cases st)
  from l(4) enc [unfolded st] obtain c where "sending_chain a = Some c"
    "h = header_new (dh_public a) (ck_index c) (previous_sending_chain_length a)"
    "aead_encrypt P (message_key P (ck_key c) 0) m (header_to_bytes P h) g = (Ok e, g1)"
    by (rule ratchet_encrypt_Ok)
  with a have h: "h = header_new (x_public P secret) 0 0"
    "aead_encrypt P (message_key P ck 0) m (header_to_bytes P h) g = (Ok e, g1)"
    by (simp_all add: chain_new_def)
  define b where "b = init_bob ss spk"
  have b: "receiving_chain b = None" "remote_dh_public b = None" "skipped_keys b = fmempty"
    "root_key b = ss" "dh_secret b = spk_secret_seed spk"
    by (simp_all add: b_def init_bob_def spk_secret_bytes_def)
  define R where "R = ratcheted P (x_public P secret) (map g' [0..<32]) b"
  have "x_dh P (spk_secret_seed spk) (x_public P secret) = x_dh P secret (spk_x25519_public spk)"
    using l(1) spk by (simp add: dh_commutes_def spk_wf_def)
  then have R: "receiving_chain R = Some (chain_new ck 0)"
    using step b by (simp add: R_def ratcheted_def split: prod.split)
  have "\<not> ck_index (chain_new ck 0) < mh_message_number h" by (simp add: h(1) chain_new_def)
  note rcv = receive_passed [OF l(4) R this, of e]
  have "length (mh_dh_public_key h) = 32" using l(2) by (simp add: h(1) x25519_sizes_def)
  with rcv decrypt_ratchet_Ok [OF l(3), of b h "()" b e g'] b
  have "fst (ratchet_decrypt P h e (b, g')) = aead_decrypt P (message_key P ck 0) e (header_to_bytes P h)"
    by (simp add: skip_current_none R_def h(1) chain_new_def)
  with aead_opens_sealed(1) [OF l(6) h(2)] show ?thesis by (simp add: b_def)
qed

text \<open>What the interface's key generation returns is what \<open>from_bytes\<close> takes back.\<close>

lemma api_identity:
  assumes "api_generate_identity_keypair P r = (A, r')"
  obtains k where "ik_wf P k" "ik_from_bytes P (ikr_identity_secret A) (ikr_signing_secret A) = Ok k"
    "ikr_identity_public A = ik_x25519_public k" "ikr_signing_public A = ik_verifying_key P k"
proof -
  obtain k where k: "ik_generate P r = (k, r')"
    and A: "A = \<lparr>ikr_identity_secret = ik_secret_bytes k, ikr_identity_public = ik_x25519_public k,
        ikr_signing_secret = ik_signing_secret_bytes k, ikr_signing_public = ik_verifying_key P k\<rparr>"
    using assms by (auto simp: api_generate_identity_keypair_def split: prod.splits)
  have "ik_wf P k" using k by (rule ik_generate_wf)
  moreover from this have "ik_from_bytes P (ik_secret_bytes k) (ik_signing_secret_bytes k) = Ok k"
    by (simp add: ik_from_bytes_def ik_secret_bytes_def ik_signing_secret_bytes_def ik_wf_def)
  ultimately show thesis using A by (intro that [of k]) simp_all
qed

lemma api_pre_key:
  assumes "ed25519_signs P" "x25519_sizes P"
    and "ik_from_bytes P (ikr_identity_secret B) (ikr_signing_secret B) = Ok k"
    and "api_generate_signed_pre_key P (ikr_identity_secret B) (ikr_signing_secret B) r = (Ok s, r')"
  obtains spk where "spk_from_bytes (spr_secret s) (spr_public_key s) (spr_signature s) = Ok spk"
    "spk_wf P spk" "spk_verify_signature P spk k" "spr_public_key s = spk_x25519_public spk"
    "spr_signature s = spk_signature spk"
proof -
  obtain spk where spk: "spk_generate P k r = (spk, r')"
    and s: "s = \<lparr>spr_secret = spk_secret_bytes spk, spr_public_key = spk_x25519_public spk,
       spr_signature = spk_signature spk\<rparr>"
    using assms(3,4) by (auto simp: api_generate_signed_pre_key_def api_map_err_def split: prod.splits)
  have wf: "spk_wf P spk" using spk by (rule spk_generate_wf)
  have sig: "length (spk_signature spk) = 64"
    using assms(1) spk by (auto simp: spk_generate_def Let_def ik_sign_def ed25519_signs_def draw_bytes_def)
  have "spk_from_bytes (spk_secret_bytes spk) (spk_x25519_public spk) (spk_signature spk) = Ok spk"
    using wf sig assms(2) by (simp add: spk_from_bytes_def spk_secret_bytes_def spk_wf_def x25519_sizes_def)
  with wf s spk_generate_verifies [OF assms(1) spk] show thesis by (intro that [of spk]) simp_all
qed

lemma api_public_key: "length b = 32 \<Longrightarrow> bytes_to_public_key b = Ok b"
  by (simp add: bytes_to_public_key_def)

lemma api_verifying_key: "ed25519_keys P \<Longrightarrow> bytes_to_verifying_key P (ik_verifying_key P k) = Ok (ik_verifying_key P k)"
  by (simp add: bytes_to_verifying_key_def ik_verifying_key_def ed25519_keys_def)

text \<open>The X3DH calls of the interface in terms of those of the component.\<close>

lemma api_initiate:
  assumes "ik_from_bytes P isec ssec = Ok k" "length ipub = 32" "length spub = 32"
    and "bytes_to_verifying_key P vk = Ok vk" "\<And>b. opk = Some b \<Longrightarrow> length b = 32"
  shows "api_x3dh_initiate P isec ssec ipub vk spub sig opk r =
    (let (x, r') = x3dh_initiate P k \<lparr>pb_identity_key = ipub, pb_identity_verifying_key = vk,
        pb_signed_pre_key = spub, pb_signature = sig, pb_one_time_pre_key = opk\<rparr> r
     in (and_then (api_map_err x) (\<lambda>res. Ok \<lparr>xir_shared_secret = xr_shared_secret res,
           xir_ephemeral_public = xr_ephemeral_key res\<rparr>), r'))"
proof -
  have flat: "and_then_st (y, r') (\<lambda>res r'. (Ok (F res), r')) = (and_then y (\<lambda>res. Ok (F res)), r')"
    for y :: "(string, X3DHResult) outcome" and F :: "X3DHResult \<Rightarrow> X3dhInitResult" and r' :: rng
    by (cases y) simp_all
  have "(case opk of None \<Rightarrow> Ok None | Some b \<Rightarrow> and_then (bytes_to_public_key b) (\<lambda>k. Ok (Some k))) = Ok opk"
    using assms(5) by (cases opk) (simp_all add: api_public_key)
  with assms(1-4) show ?thesis
    by (simp add: api_x3dh_initiate_def api_map_err_def api_public_key Let_def flat split: prod.split)
qed

lemma api_respond:
  assumes "ik_from_bytes P isec ssec = Ok k" "spk_from_bytes psec ppub psig = Ok spk"
    and "length a = 32" "length e = 32"
  shows "api_x3dh_respond P isec ssec psec ppub psig a e =
    and_then (api_map_err (x3dh_respond P k spk None a e)) (\<lambda>res. Ok (xr_shared_secret res))"
  using assms by (simp add: api_x3dh_respond_def api_map_err_def api_public_key)

section \<open>The plain AES calls\<close>

text \<open>
  The stateless AES calls undo each other for every 32-byte key and every plaintext AES-GCM
  allows, and both refuse a key of any other length with its length, before anything is drawn.
\<close>
theorem aes_calls_roundtrip:
  assumes "ratchet_laws P" and "length m \<le> aes_limit"
  shows "if length key = 32
    then \<exists>e. api_aes_encrypt P key m r = (Ok e, \<lambda>i. r (12 + i)) \<and>
      api_aes_decrypt P key (ciphertext e) (nonce e) = Ok m
    else api_aes_encrypt P key m r = (Err (''Key must be 32 bytes, got '' @ show_nat (length key)), r) \<and>
      (\<forall>c n. api_aes_decrypt P key c n = Err (''Key must be 32 bytes, got '' @ show_nat (length key)))"
proof (cases "length key = 32")
  case True
  note l = ratchet_lawsD [OF assms(1)]
  from aead_encrypt_total [OF l(5,7) True _ assms(2), of "[]" r] obtain e r' where
    e: "aead_encrypt P key m [] r = (Ok e, r')" by auto
  have same: "\<lparr>nonce = nonce e, ciphertext = ciphertext e\<rparr> = e" by simp
  from e have "r' = (\<lambda>i. r (12 + i))" by (simp add: aead_encrypt_Ok_iff)
  with True e aead_opens_sealed(1) [OF l(6) e] show ?thesis
    by (simp add: api_aes_encrypt_def api_aes_decrypt_def api_map_err_def same del: encrypted.surjective)
next
  case False
  then show ?thesis by (simp add: api_aes_encrypt_def api_aes_decrypt_def)
qed

lemma aes_calls_roundtrip_witness:
  "\<exists>e. fst (api_aes_encrypt demo_provider (replicate 32 7) [104, 105] demo_rng) = Ok e \<and>
     api_aes_decrypt demo_provider (replicate 32 7) (ciphertext e) (nonce e) = Ok [104, 105]"
proof -
  have "length [104, 105 :: u8] \<le> aes_limit" by (simp add: aes_limit_def)
  from aes_calls_roundtrip [OF demo_ratchet_laws this, of "replicate 32 7" demo_rng] show ?thesis by auto
qed

end
