(* ===== verification/Api_Channel.thy ===== *)
theory Api_Channel
  imports Endpoint Api_Properties
begin

text \<open>
  The calls of \<open>src/api.rs\<close> as the interface of two devices that talk: what a sealing call returns,
  the header, the ciphertext and the nonce, is what the application sends, and any other call on
  another handle may come in between.
\<close>

section \<open>The interface\<close>

definition api_endpoint :: "provider \<Rightarrow> (api_state, EncryptResult) endpoint" where
  "api_endpoint P = \<lparr>
     ep_seal = session_encrypt P,
     ep_open = (\<lambda>h w. session_decrypt P h (er_header w) (er_ciphertext w) (er_nonce w)),
     ep_other = (\<lambda>h d d'. \<exists>op reply. api_call P op d = (reply, d') \<and> op_handle op \<noteq> Some h \<and>
        reg_next (fst d) \<noteq> h \<and> \<not> reg_poisoned (fst d')),
     ep_error = error_display,
     ep_session = (\<lambda>h d. reg_entry h (fst d)),
     ep_rand = snd,
     ep_content = (\<lambda>w. Some (er_header w, \<lparr>nonce = er_nonce w, ciphertext = er_ciphertext w\<rparr>)),
     ep_ready = (\<lambda>d. \<not> reg_poisoned (fst d) \<and> ratchet_laws P)\<rparr>"

lemma api_endpoint_simps [simp]:
  "ep_seal (api_endpoint P) = session_encrypt P"
  "ep_open (api_endpoint P) h w = session_decrypt P h (er_header w) (er_ciphertext w) (er_nonce w)"
  "ep_other (api_endpoint P) h d d' \<longleftrightarrow> (\<exists>op reply. api_call P op d = (reply, d') \<and> op_handle op \<noteq> Some h \<and>
     reg_next (fst d) \<noteq> h \<and> \<not> reg_poisoned (fst d'))"
  "ep_error (api_endpoint P) = error_display"
  "ep_session (api_endpoint P) h d = reg_entry h (fst d)"
  "ep_rand (api_endpoint P) = snd"
  "ep_content (api_endpoint P) w = Some (er_header w, \<lparr>nonce = er_nonce w, ciphertext = er_ciphertext w\<rparr>)"
  "ep_ready (api_endpoint P) d \<longleftrightarrow> \<not> reg_poisoned (fst d) \<and> ratchet_laws P"
  by (simp_all add: api_endpoint_def)

text \<open>A call on the session behind a handle is the call on the session.\<close>

lemma api_seals:
  assumes "\<not> reg_poisoned (fst d)" "reg_entry h (fst d) = Some s"
    and "ratchet_encrypt P m (s, snd d) = (y, (s', r'))" "y \<noteq> Panic"
    and "session_encrypt P h m d = (x, d')"
  shows "x = and_then (api_map_err y) (\<lambda>(header, enc).
       Ok \<lparr>er_header = header, er_ciphertext = ciphertext enc, er_nonce = nonce enc\<rparr>)"
    "\<not> reg_poisoned (fst d')" "reg_entry h (fst d') = Some s'"
proof -
  let ?f = "\<lambda>s. let (x, s') = ratchet_encrypt P m s in (and_then (api_map_err x) (\<lambda>(header, enc).
       Ok \<lparr>er_header = header, er_ciphertext = ciphertext enc, er_nonce = nonce enc\<rparr>), s')"
  let ?x = "and_then (api_map_err y) (\<lambda>(header, enc).
       Ok \<lparr>er_header = header, er_ciphertext = ciphertext enc, er_nonce = nonce enc\<rparr>)"
  have np: "?x \<noteq> Panic" using assms(4) by (cases y) (auto simp: api_map_err_def)
  have "?f (s, snd d) = (?x, (s', r'))" by (simp add: assms(3))
  from reg_update_found [where f = ?f, OF assms(1,2) this] np
  have "(x, d') = (?x, (reg_put h s' (fst d), r'))"
    using assms(5) by (cases d; cases ?x) (auto simp: session_encrypt_def)
  then show "x = ?x" "\<not> reg_poisoned (fst d')" "reg_entry h (fst d') = Some s'"
    using assms(1) by (simp_all add: reg_put_def reg_entry_def)
qed

lemma api_opens:
  assumes "\<not> reg_poisoned (fst d)" "reg_entry h (fst d) = Some s"
    and "ratchet_decrypt P hdr \<lparr>nonce = n, ciphertext = ct\<rparr> (s, snd d) = (z, (s', r'))"
    and "session_decrypt P h hdr ct n d = (x, d')"
  shows "x = api_map_err z" "reg_entry h (fst d') = Some s'" "z \<noteq> Panic \<Longrightarrow> \<not> reg_poisoned (fst d')"
proof -
  have "session_decrypt P h hdr ct n (fst d, snd d) =
      (api_map_err z, (case api_map_err z of Panic \<Rightarrow> (reg_put h s' (fst d))\<lparr>reg_poisoned := True\<rparr>
         | _ \<Rightarrow> reg_put h s' (fst d), r'))"
    unfolding session_decrypt_def
    by (rule reg_update_found [OF assms(1,2)]) (use assms(3) in simp)
  then have d: "x = api_map_err z" "d' = (case api_map_err z of
      Panic \<Rightarrow> (reg_put h s' (fst d))\<lparr>reg_poisoned := True\<rparr> | _ \<Rightarrow> reg_put h s' (fst d), r')"
    using assms(4) by (metis prod.inject prod.collapse)+
  show "x = api_map_err z" by (rule d)
  show "reg_entry h (fst d') = Some s'"
    by (simp add: d(2) reg_put_def reg_entry_def split: outcome.split)
  show "\<not> reg_poisoned (fst d')" if "z \<noteq> Panic"
    using that assms(1) by (cases z) (simp_all add: d(2) api_map_err_def reg_put_def)
qed

lemma api_leaves:
  assumes "ratchet_laws P" "api_call P op d = (reply, d')" "op_handle op \<noteq> Some h" "reg_next (fst d) \<noteq> h"
  shows "reg_entry h (fst d') = reg_entry h (fst d)"
proof -
  note l = ratchet_lawsD [OF assms(1)]
  obtain st g st' r where dev: "d = (st, g)" "d' = (st', r)" by (metis surj_pair)
  from l(3,2) assms(2) [unfolded dev] have "reg_entry h st' = reg_entry h st"
  proof (cases rule: api_call_cases)
    case (create label v x)
    with reg_register_entry(1) [OF create(1), of h] assms(4) dev(1) show ?thesis by simp
  next
    case (remove k b)
    with assms(3) show ?thesis by (auto simp: reg_remove_def reg_entry_def split: if_splits)
  qed (use assms(3) in auto)
  with dev show ?thesis by simp
qed

interpretation calls: session_endpoint P "api_endpoint P" for P
proof (unfold_locales, goal_cases)
  case (1 d h s m y s' r' x d')
  with api_seals(2,3) [of d h s P m y s' r' x d'] show ?case by simp
next
  case (2 d h s m y s' r' x d')
  with api_seals(1) [of d h s P m y s' r' x d'] show ?case by (cases y) (auto simp: api_map_err_def)
next
  case (3 d h s w hdr e z s' r' t d')
  then have "e = \<lparr>nonce = er_nonce w, ciphertext = er_ciphertext w\<rparr>" "hdr = er_header w" by simp_all
  with 3 api_opens(2,3) [of d h s P hdr "er_nonce w" "er_ciphertext w" z s' r' t d'] show ?case by simp
next
  case (4 d h s w hdr e z s' r' t d')
  then have "e = \<lparr>nonce = er_nonce w, ciphertext = er_ciphertext w\<rparr>" "hdr = er_header w" by simp_all
  with 4 api_opens(1) [of d h s P hdr "er_nonce w" "er_ciphertext w" z s' r' t d'] show ?case
    by (simp add: api_map_err_def)
next
  case (5 d h s d')
  then obtain op reply where "api_call P op d = (reply, d')" "op_handle op \<noteq> Some h" "reg_next (fst d) \<noteq> h"
    by auto
  with 5 api_leaves [of P op d reply d' h] show ?case by auto
qed

section \<open>The property\<close>

text \<open>
  C6. The channel holds at the interface: two devices whose stores hold the two ends of a
  conversation, among any other sessions, exchange messages by \<open>session_encrypt\<close> and
  \<open>session_decrypt\<close> over a network that reorders and loses them, while either application makes
  any other calls on other sessions. What the calls return is a run of the abstract channel: a
  plaintext that was sent to that side and not yet delivered, or the one text that says too many
  messages were skipped; an encryption may fail, as the channel allows. No decryption reports
  another error, a missing session or a poisoned lock, and neither of the two calls panics. It
  takes that no other call crashes its device (a malformed header to any session would), that the
  handle counter has not come back to the handle, that ratchet keys are new, and that no chain is
  used past its \<open>2 ^ 32 - 1\<close> messages, where the index wraps.
\<close>
theorem calls_refine_channel:
  assumes "ratchet_laws P" and "spk_wf P spk" and "link_start P (api_endpoint P) ss spk L0"
    and "link_runs (api_endpoint P) L0 evs L"
  shows "chan_runs (\<lambda>_. {#}) (List.map_filter (seen (api_endpoint P)) evs) (under_way L)"
  using assms by (rule calls.refines_channel)

text \<open>Alice's first message over two fresh devices.\<close>

lemma demo_link:
  "\<exists>L0. link_start demo_provider (api_endpoint demo_provider) (replicate 32 1) demo_spk L0 \<and>
     way_open demo_provider (api_endpoint demo_provider) L0 Alice [104, 105] \<and>
     (\<exists>L. link_runs (api_endpoint demo_provider) L0 [CSealed Alice [104, 105], COpened Bob (Ok [104, 105])] L)"
  by (rule calls.first_message_on_link [OF demo_ratchet_laws demo_spk_wf _ demo_fresh,
        where dev = "\<lambda>N a. (reg_single (sess N a), \<lambda>i. demo_rng (44 + i))" and hdl = "\<lambda>_. 1"])
    (simp_all add: aes_limit_def reg_single_facts demo_ratchet_laws)

lemma calls_refine_channel_witness:
  "\<exists>L0 L. link_start demo_provider (api_endpoint demo_provider) (replicate 32 1) demo_spk L0 \<and>
     link_runs (api_endpoint demo_provider) L0 [CSealed Alice [104, 105], COpened Bob (Ok [104, 105])] L \<and>
     chan_runs (\<lambda>_. {#}) (List.map_filter (seen (api_endpoint demo_provider))
       [CSealed Alice [104, 105], COpened Bob (Ok [104, 105])]) (under_way L)"
proof -
  obtain L0 L where run: "link_start demo_provider (api_endpoint demo_provider) (replicate 32 1) demo_spk L0"
    "link_runs (api_endpoint demo_provider) L0 [CSealed Alice [104, 105], COpened Bob (Ok [104, 105])] L"
    using demo_link by blast
  from calls_refine_channel [OF demo_ratchet_laws demo_spk_wf this] run show ?thesis by blast
qed

text \<open>
  C8. The interface never gets stuck: wherever two conversing devices have come to, whatever is
  under way, lost or stored, and whatever else they hold, a device whose session has a sending
  chain can encrypt, and if the other device decrypts what it was given at once, its call returns
  exactly the plaintext. What it takes is room for the keys of the messages this one overtakes,
  a plaintext within the limit of AES-GCM, an index left on the chain, and a new ratchet key.
\<close>
theorem calls_get_through:
  assumes "ratchet_laws P" and "spk_wf P spk" and "link_start P (api_endpoint P) ss spk L0"
    and "link_runs (api_endpoint P) L0 evs L" and "way_open P (api_endpoint P) L a m"
  shows "\<exists>L'. link_runs (api_endpoint P) L0 (evs @ [CSealed a m, COpened (peer a) (Ok m)]) L'"
  using assms(1,4) link_start_inv(1) [OF assms(1-3)] assms(5) by (rule calls.gets_through)

lemma calls_get_through_witness:
  "\<exists>L0 L. link_start demo_provider (api_endpoint demo_provider) (replicate 32 1) demo_spk L0 \<and>
     link_runs (api_endpoint demo_provider) L0 [CSealed Alice [104, 105], COpened Bob (Ok [104, 105])] L"
proof -
  obtain L0 where start: "link_start demo_provider (api_endpoint demo_provider) (replicate 32 1) demo_spk L0"
    and way: "way_open demo_provider (api_endpoint demo_provider) L0 Alice [104, 105]"
    using demo_link by blast
  from calls_get_through [OF demo_ratchet_laws demo_spk_wf start link_runs.start way] start show ?thesis by auto
qed

end
