(* ===== verification/Api_Setup.thy ===== *)
theory Api_Setup
  imports Api_Channel
begin

text \<open>
  Setting up a conversation through the calls of \<open>src/api.rs\<close>: two identities and a signed pre-key
  are generated, both sides run X3DH, and each creates its session. The two devices are then the
  start of the channel of \<open>Api_Channel\<close>.
\<close>

section \<open>Key agreement\<close>

lemma api_agreement:
  assumes "ratchet_laws P" "ed25519_signs P" "ed25519_keys P"
    and "api_generate_identity_keypair P r1 = (A, r1')"
    and "api_generate_identity_keypair P r2 = (B, r2')"
    and "api_generate_signed_pre_key P (ikr_identity_secret B) (ikr_signing_secret B) r3 = (Ok K, r3')"
  obtains spk init where
    "spk_from_bytes (spr_secret K) (spr_public_key K) (spr_signature K) = Ok spk" "spk_wf P spk"
    "spr_public_key K = spk_x25519_public spk"
    "api_x3dh_initiate P (ikr_identity_secret A) (ikr_signing_secret A) (ikr_identity_public B)
      (ikr_signing_public B) (spr_public_key K) (spr_signature K) None r = (Ok init, \<lambda>i. r (32 + i))"
    "api_x3dh_respond P (ikr_identity_secret B) (ikr_signing_secret B) (spr_secret K)
      (spr_public_key K) (spr_signature K) (ikr_identity_public A) (xir_ephemeral_public init) =
      Ok (xir_shared_secret init)"
proof -
  note l = ratchet_lawsD [OF assms(1)]
  obtain a where a: "ik_wf P a" "ik_from_bytes P (ikr_identity_secret A) (ikr_signing_secret A) = Ok a"
    "ikr_identity_public A = ik_x25519_public a"
    using assms(4) by (rule api_identity)
  obtain b where b: "ik_wf P b" "ik_from_bytes P (ikr_identity_secret B) (ikr_signing_secret B) = Ok b"
    "ikr_identity_public B = ik_x25519_public b" "ikr_signing_public B = ik_verifying_key P b"
    using assms(5) by (rule api_identity)
  obtain spk where spk: "spk_from_bytes (spr_secret K) (spr_public_key K) (spr_signature K) = Ok spk"
    "spk_wf P spk" "spk_verify_signature P spk b" "spr_public_key K = spk_x25519_public spk"
    "spr_signature K = spk_signature spk"
    using assms(2) l(2) b(2) assms(6) by (rule api_pre_key)
  have ok: "responder_ok P (b, spk, None)" using b(1) spk(2,3) by (simp add: responder_ok_def)
  have len: "length (ik_x25519_public a) = 32" "length (ik_x25519_public b) = 32"
    "length (spk_x25519_public spk) = 32" "length (x_public P (map r [0..<32])) = 32"
    using a(1) b(1) spk(2) l(2) by (simp_all add: ik_wf_def spk_wf_def x25519_sizes_def)
  obtain x where x: "x3dh_initiate P a (publish_bundle P b spk None) r = (Ok x, \<lambda>i. r (32 + i))"
    "x3dh_respond P b spk None (ik_x25519_public a) (xr_ephemeral_key x) = Ok x"
    "xr_ephemeral_key x = x_public P (map r [0..<32])"
    using x3dh_secret [OF l(1,3) a(1) ok] by blast
  define res where "res = \<lparr>xir_shared_secret = xr_shared_secret x, xir_ephemeral_public = xr_ephemeral_key x\<rparr>"
  have 1: "api_x3dh_initiate P (ikr_identity_secret A) (ikr_signing_secret A) (ikr_identity_public B)
      (ikr_signing_public B) (spr_public_key K) (spr_signature K) None r = (Ok res, \<lambda>i. r (32 + i))"
    using api_initiate [OF a(2) len(2,3) api_verifying_key [OF assms(3)], of None b] x(1)
    by (simp add: b(3,4) spk(4,5) publish_bundle_def api_map_err_def res_def)
  have 2: "api_x3dh_respond P (ikr_identity_secret B) (ikr_signing_secret B) (spr_secret K)
      (spr_public_key K) (spr_signature K) (ikr_identity_public A) (xir_ephemeral_public res) =
      Ok (xir_shared_secret res)"
    using api_respond [OF b(2) spk(1) len(1,4)] x(2,3) by (simp add: a(3) res_def api_map_err_def)
  show thesis by (rule that [OF spk(1,2,4) 1 2])
qed

section \<open>The devices after the sessions are created\<close>

text \<open>Alice's device and Bob's, with the handles they were given; nothing is under way.\<close>

definition session_link ::
  "api_state \<Rightarrow> u32 \<Rightarrow> api_state \<Rightarrow> u32 \<Rightarrow> bytes \<Rightarrow> (api_state, EncryptResult) link"
where
  "session_link sa ha sb hb pre_key = \<lparr>
     link_dev = (\<lambda>a. case a of Alice \<Rightarrow> sa | Bob \<Rightarrow> sb),
     link_handle = (\<lambda>a. case a of Alice \<Rightarrow> ha | Bob \<Rightarrow> hb),
     link_post = (\<lambda>_. []),
     link_used = {dh_public (the (reg_entry ha (fst sa))), pre_key}\<rparr>"

lemma initiator_creates:
  assumes "hkdf_total P" "length pub = 32" "\<not> reg_poisoned st"
  obtains s where "create_session_initiator P ss pub (st, r) = (Ok (reg_next st), s)"
proof -
  obtain a g where "init_alice P ss pub r = (Ok a :: Session api_result, g)"
    using init_alice_total [OF assms(1), of ss pub r] by (auto simp: Let_def split: prod.splits)
  with assms(2,3) that show thesis
    by (simp add: create_session_initiator_def api_public_key reg_register_insert reg_insert_def
        reg_alloc_def Let_def)
qed

lemma responder_creates:
  assumes "spk_from_bytes sec pub sig = Ok spk" "\<not> reg_poisoned st"
  obtains s where "create_session_responder ss sec pub sig (st, r) = (Ok (reg_next st), s)"
  using assms that
  by (simp add: create_session_responder_def api_map_err_def reg_register_insert reg_insert_def
      reg_alloc_def Let_def)

lemma initiator_created:
  assumes "create_session_initiator P ss pub (st, r) = (Ok h, s)"
  obtains a g st' where "init_alice P ss pub r = (Ok a :: Session api_result, g)" "s = (st', g)"
    "\<not> reg_poisoned st'" "reg_entry h st' = Some a"
proof -
  have b: "bytes_to_public_key pub = Ok pub"
    using assms by (cases "bytes_to_public_key pub") (auto simp: create_session_initiator_def bytes_to_public_key_def split: if_splits)
  obtain y g where i: "init_alice P ss pub r = (y :: Session api_result, g)" by (meson surj_pair)
  with assms b obtain a where a: "y = Ok a" by (cases y) (auto simp: create_session_initiator_def)
  obtain x st' where reg: "reg_register ''Session'' a st = (x, st')" by (meson surj_pair)
  with assms b i a have "x = Ok h" "s = (st', g)" by (auto simp: create_session_initiator_def)
  with reg_register_entry [OF reg] i a show thesis by (intro that) auto
qed

lemma responder_created:
  assumes "create_session_responder ss sec pub sig (st, r) = (Ok h, s)"
  obtains spk st' where "spk_from_bytes sec pub sig = Ok spk" "s = (st', r)"
    "\<not> reg_poisoned st'" "reg_entry h st' = Some (init_bob ss spk)"
proof -
  from assms obtain spk where spk: "spk_from_bytes sec pub sig = Ok spk"
    by (cases "spk_from_bytes sec pub sig") (auto simp: create_session_responder_def api_map_err_def)
  obtain x st' where reg: "reg_register ''Session'' (init_bob ss spk) st = (x, st')" by (meson surj_pair)
  with assms spk have "x = Ok h" "s = (st', r)" by (auto simp: create_session_responder_def api_map_err_def)
  with reg_register_entry [OF reg] spk show thesis by (intro that) auto
qed

lemma session_link_starts:
  assumes "ratchet_laws P" "spk_from_bytes sec pub sig = Ok spk" "spk_x25519_public spk = pub"
    and "create_session_initiator P ss pub dA = (Ok ha, sa)"
    and "create_session_responder ss sec pub sig dB = (Ok hb, sb)"
  shows "link_start P (api_endpoint P) ss spk (session_link sa ha sb hb pub)"
    and "snd sb = snd dB" "link_used (session_link sa ha sb hb pub) = {x_public P (map (snd dA) [0..<32]), pub}"
proof -
  obtain st r where dA: "dA = (st, r)" by (cases dA)
  obtain a g st' where a: "init_alice P ss pub r = (Ok a :: Session api_result, g)" "sa = (st', g)"
    "\<not> reg_poisoned st'" "reg_entry ha st' = Some a"
    using assms(4) unfolding dA by (rule initiator_created)
  obtain st2 r2 where dB: "dB = (st2, r2)" by (cases dB)
  obtain spk' st'' where b: "spk_from_bytes sec pub sig = Ok spk'" "sb = (st'', r2)"
    "\<not> reg_poisoned st''" "reg_entry hb st'' = Some (init_bob ss spk')"
    using assms(5) unfolding dB by (rule responder_created)
  note l = ratchet_lawsD [OF assms(1)]
  obtain A where A: "init_alice P ss pub r = (Ok A :: Session result, g)" "A = a" "dh_public a = x_public P (map r [0..<32])"
    using a(1) by (auto simp: init_alice_total [OF l(3)] Let_def split: prod.splits)
  have N: "net_init P ss ss spk r = Ok \<lparr>sess = (\<lambda>p. case p of Alice \<Rightarrow> a | Bob \<Rightarrow> init_bob ss spk),
      inbox = (\<lambda>_. []), entropy = g, used = {dh_public a, pub}\<rparr>"
    using A(1,2) assms(3) by (simp add: net_init_def)
  show "link_start P (api_endpoint P) ss spk (session_link sa ha sb hb pub)"
    unfolding link_start_def
    by (intro exI conjI, rule N) (use a b assms(1,2) in \<open>auto simp: session_link_def split: party.split\<close>)
  show "snd sb = snd dB" by (simp add: b(2) dB)
  show "link_used (session_link sa ha sb hb pub) = {x_public P (map (snd dA) [0..<32]), pub}"
    using a A(3) by (simp add: session_link_def dA)
qed

section \<open>The property\<close>

text \<open>
  C1. The interface as a whole is an end-to-end channel: two users generate their keys by its
  calls, run its two X3DH calls, create their sessions on any two devices, and exchange messages
  by \<open>session_encrypt\<close> and \<open>session_decrypt\<close> over a network that reorders and loses them, among
  calls on other sessions. The secret the two sides derive is the same, and what they see is a run
  of the abstract channel from the first message on: every plaintext that comes out is one that
  went in and was not yet delivered, or the answer is that too many messages were skipped, and
  neither call panics. It takes what the channel of the calls takes: that no call on another
  session poisons the store (one malformed header to it would), that the handle counter has not
  come back to the handle of the conversation, that the keys of ratchet steps are new, and that
  no chain is used past its \<open>2 ^ 32 - 1\<close> messages.
\<close>
theorem channel_from_keys:
  assumes "ratchet_laws P" and "ed25519_signs P" and "ed25519_keys P"
    and "api_generate_identity_keypair P r1 = (A, r1')"
    and "api_generate_identity_keypair P r2 = (B, r2')"
    and "api_generate_signed_pre_key P (ikr_identity_secret B) (ikr_signing_secret B) r3 = (Ok K, r3')"
    and "api_x3dh_initiate P (ikr_identity_secret A) (ikr_signing_secret A) (ikr_identity_public B)
      (ikr_signing_public B) (spr_public_key K) (spr_signature K) None r = (Ok init, r')"
    and "api_x3dh_respond P (ikr_identity_secret B) (ikr_signing_secret B) (spr_secret K)
      (spr_public_key K) (spr_signature K) (ikr_identity_public A) (xir_ephemeral_public init) = Ok ss"
    and "create_session_initiator P (xir_shared_secret init) (spr_public_key K) dA = (Ok ha, sa)"
    and "create_session_responder ss (spr_secret K) (spr_public_key K) (spr_signature K) dB = (Ok hb, sb)"
    and "link_runs (api_endpoint P) (session_link sa ha sb hb (spr_public_key K)) evs L"
  shows "ss = xir_shared_secret init \<and>
    chan_runs (\<lambda>_. {#}) (List.map_filter (seen (api_endpoint P)) evs) (under_way L)"
proof -
  obtain spk init' where k: "spk_from_bytes (spr_secret K) (spr_public_key K) (spr_signature K) = Ok spk"
    "spk_wf P spk" "spr_public_key K = spk_x25519_public spk"
    "api_x3dh_initiate P (ikr_identity_secret A) (ikr_signing_secret A) (ikr_identity_public B)
      (ikr_signing_public B) (spr_public_key K) (spr_signature K) None r = (Ok init', \<lambda>i. r (32 + i))"
    "api_x3dh_respond P (ikr_identity_secret B) (ikr_signing_secret B) (spr_secret K)
      (spr_public_key K) (spr_signature K) (ikr_identity_public A) (xir_ephemeral_public init') =
      Ok (xir_shared_secret init')"
    by (rule api_agreement [OF assms(1-6)])
  have "init' = init" using k(4) assms(7) by simp
  then have same: "ss = xir_shared_secret init" using k(5) assms(8) by simp
  with session_link_starts(1) [OF assms(1) k(1) k(3) [symmetric] assms(9)] assms(10)
  have "link_start P (api_endpoint P) ss spk (session_link sa ha sb hb (spr_public_key K))" by simp
  from same calls.refines_channel [OF assms(1) k(2) this assms(11)] show ?thesis ..
qed

text \<open>The demo: keys from three streams of entropy, and the first message.\<close>

lemma demo_new_key:
  "\<exists>b. x_public demo_provider (replicate 32 b) \<notin> {x, y}"
proof -
  have hd: "hd (x_public demo_provider (replicate 32 b)) = b" for b
    by (simp add: demo_provider_def pad_to_def hd_append hd_replicate)
  have "(0 :: u8) \<noteq> 1" "(0 :: u8) \<noteq> 2" "(1 :: u8) \<noteq> 2" by simp_all
  then obtain b :: u8 where "b \<noteq> hd x" "b \<noteq> hd y" by metis
  with hd show ?thesis by (metis insertE singletonD)
qed

definition demo_api_identity :: "u8 \<Rightarrow> IdentityKeyResult" where
  "demo_api_identity b = fst (api_generate_identity_keypair demo_provider (\<lambda>_. b))"

lemma demo_api_pre_key:
  "\<exists>K r'. api_generate_signed_pre_key demo_provider (ikr_identity_secret (demo_api_identity b))
     (ikr_signing_secret (demo_api_identity b)) r = (Ok K, r')"
proof -
  have "api_generate_identity_keypair demo_provider (\<lambda>_. b) =
      (demo_api_identity b, snd (api_generate_identity_keypair demo_provider (\<lambda>_. b)))"
    by (simp add: demo_api_identity_def)
  then obtain k where "ik_from_bytes demo_provider (ikr_identity_secret (demo_api_identity b))
      (ikr_signing_secret (demo_api_identity b)) = Ok k"
    by (rule api_identity)
  then show ?thesis
    by (auto simp: api_generate_signed_pre_key_def api_map_err_def split: prod.splits)
qed

lemma channel_from_keys_witness:
  "\<exists>K init r ss ha sa hb sb L dB.
    fst (api_generate_signed_pre_key demo_provider (ikr_identity_secret (demo_api_identity 5))
      (ikr_signing_secret (demo_api_identity 5)) demo_rng) = Ok K \<and>
    api_x3dh_initiate demo_provider (ikr_identity_secret (demo_api_identity 3))
      (ikr_signing_secret (demo_api_identity 3)) (ikr_identity_public (demo_api_identity 5))
      (ikr_signing_public (demo_api_identity 5)) (spr_public_key K) (spr_signature K) None demo_rng = (Ok init, r) \<and>
    create_session_initiator demo_provider ss (spr_public_key K) (reg_empty, r) = (Ok ha, sa) \<and>
    create_session_responder ss (spr_secret K) (spr_public_key K) (spr_signature K) dB = (Ok hb, sb) \<and>
    link_runs (api_endpoint demo_provider) (session_link sa ha sb hb (spr_public_key K))
      [CSealed Alice [104, 105], COpened Bob (Ok [104, 105])] L \<and>
    chan_runs (\<lambda>_. {#}) (List.map_filter (seen (api_endpoint demo_provider))
      [CSealed Alice [104, 105], COpened Bob (Ok [104, 105])]) (under_way L)"
proof -
  note l = ratchet_lawsD [OF demo_ratchet_laws]
  obtain K r' where K: "api_generate_signed_pre_key demo_provider (ikr_identity_secret (demo_api_identity 5))
      (ikr_signing_secret (demo_api_identity 5)) demo_rng = (Ok K, r')"
    using demo_api_pre_key by blast
  have gen: "api_generate_identity_keypair demo_provider (\<lambda>_. b) =
      (demo_api_identity b, snd (api_generate_identity_keypair demo_provider (\<lambda>_. b)))" for b
    by (simp add: demo_api_identity_def)
  note laws = demo_ratchet_laws demo_ed25519_laws gen gen K
  obtain spk init where k: "spk_from_bytes (spr_secret K) (spr_public_key K) (spr_signature K) = Ok spk"
    "spk_wf demo_provider spk" "spr_public_key K = spk_x25519_public spk"
    "api_x3dh_initiate demo_provider (ikr_identity_secret (demo_api_identity 3))
      (ikr_signing_secret (demo_api_identity 3)) (ikr_identity_public (demo_api_identity 5))
      (ikr_signing_public (demo_api_identity 5)) (spr_public_key K) (spr_signature K) None demo_rng =
      (Ok init, \<lambda>i. demo_rng (32 + i))"
    "api_x3dh_respond demo_provider (ikr_identity_secret (demo_api_identity 5))
      (ikr_signing_secret (demo_api_identity 5)) (spr_secret K) (spr_public_key K) (spr_signature K)
      (ikr_identity_public (demo_api_identity 3)) (xir_ephemeral_public init) = Ok (xir_shared_secret init)"
    by (rule api_agreement [OF laws])
  have live: "\<not> reg_poisoned (reg_empty :: Session registry)" by (simp add: reg_empty_def)
  have len: "length (spr_public_key K) = 32"
    using k(2,3) l(2) by (simp add: spk_wf_def x25519_sizes_def)
  obtain b where b: "x_public demo_provider (replicate 32 b) \<notin>
      {x_public demo_provider (map (\<lambda>i. demo_rng (32 + i)) [0..<32]), spr_public_key K}"
    using demo_new_key by blast
  obtain ha sa hb sb where c:
    "create_session_initiator demo_provider (xir_shared_secret init) (spr_public_key K)
       (reg_empty, \<lambda>i. demo_rng (32 + i)) = (Ok ha, sa)"
    "create_session_responder (xir_shared_secret init) (spr_secret K) (spr_public_key K) (spr_signature K)
       (reg_empty, \<lambda>_. b) = (Ok hb, sb)"
    using initiator_creates [OF l(3) len live] responder_creates [OF k(1) live] by metis
  note start = session_link_starts [OF demo_ratchet_laws k(1) k(3) [symmetric] c]
  have "snd sb = (\<lambda>_. b)" using start(2) by simp
  then have "x_public demo_provider (map (ep_rand (api_endpoint demo_provider)
      (link_dev (session_link sa ha sb hb (spr_public_key K)) Bob)) [0..<32]) \<notin>
      link_used (session_link sa ha sb hb (spr_public_key K))"
    using b start(3) by (simp add: session_link_def map_replicate_const)
  moreover have "length [104, 105 :: u8] \<le> aes_limit" by (simp add: aes_limit_def)
  ultimately obtain L where run: "link_runs (api_endpoint demo_provider) (session_link sa ha sb hb (spr_public_key K))
      [CSealed Alice [104, 105], COpened Bob (Ok [104, 105])] L"
    using calls.first_message_from [OF demo_ratchet_laws k(2) _ start(1)] by metis
  from channel_from_keys [OF laws k(4,5) c run] K k(4) c run show ?thesis by (metis fst_conv)
qed

end
