(* ===== verification/Api_Threads.thy ===== *)
theory Api_Threads
  imports Api_Properties
begin

text \<open>
  The session calls of \<open>src/api.rs\<close> made by several threads at once. \<open>session_encrypt\<close>,
  \<open>session_decrypt\<close> and \<open>destroy_session\<close> do their work under one write guard and are one step;
  the two calls that create a session take their handle from the atomic counter first and the
  lock afterwards, and other threads may run in between. The development elsewhere treats every
  call as one step; the refinement proved here says what of that picture survives.
\<close>

section \<open>The two halves of a creation\<close>

text \<open>What a creating call computes before it touches anything shared but the entropy.\<close>

fun session_for :: "provider \<Rightarrow> api_op \<Rightarrow> rng \<Rightarrow> Session api_result \<times> rng" where
  "session_for P (CreateInitiator ss pub) r =
     and_then_st (bytes_to_public_key pub, r) (\<lambda>bob_spk_pub r. init_alice P ss bob_spk_pub r)"
| "session_for P (CreateResponder ss sec pub sig) r =
     and_then_st (api_map_err (spk_from_bytes sec pub sig), r) (\<lambda>spk r. (Ok (init_bob ss spk), r))"
| "session_for P _ r = (Panic, r)"

fun creates :: "api_op \<Rightarrow> bool" where
  "creates (CreateInitiator ss pub) = True"
| "creates (CreateResponder ss sec pub sig) = True"
| "creates _ = False"

text \<open>Run without interruption, the halves are the call.\<close>

lemma creation_halves:
  assumes "creates op"
  shows "api_call P op (st, r) =
    (let (x, r') = session_for P op r in
     case x of
       Ok s \<Rightarrow> (let (h, st1) = reg_alloc st; (y, st2) = reg_store_at ''Session'' h s st1 in (Handle y, (st2, r')))
     | Err e \<Rightarrow> (Handle (Err e), (st, r'))
     | Panic \<Rightarrow> (Handle Panic, (st, r')))"
proof (cases op)
  case (CreateInitiator ss pub)
  obtain s g where i: "init_alice P ss pub r = (s :: (string, Session) outcome, g)" by fastforce
  with CreateInitiator show ?thesis
    by (cases "bytes_to_public_key pub"; cases s)
      (auto simp: create_session_initiator_def reg_register_halves bytes_to_public_key_def Let_def
        split: prod.splits if_splits)
next
  case (CreateResponder ss sec pub sig)
  then show ?thesis
    by (cases "api_map_err (spk_from_bytes sec pub sig)")
      (auto simp: create_session_responder_def reg_register_halves Let_def split: prod.splits)
qed (use assms in simp_all)

section \<open>Threads\<close>

record device =
  store :: "Session registry"
  source :: rng
  pending :: "nat \<Rightarrow> (api_op \<times> u32 \<times> Session) option"

definition device_init :: "rng \<Rightarrow> device" where
  "device_init r = \<lparr>store = reg_empty, source = r, pending = (\<lambda>_. None)\<rparr>"

text \<open>What is seen from outside: a thread's call returning, or nothing.\<close>

datatype visible = Silent | Returns nat api_op api_reply

inductive thread_step :: "provider \<Rightarrow> device \<Rightarrow> visible \<Rightarrow> device \<Rightarrow> bool" for P where
  take_handle: "pending D t = None \<Longrightarrow> creates op \<Longrightarrow> session_for P op (source D) = (Ok s, r) \<Longrightarrow>
     reg_alloc (store D) = (h, st) \<Longrightarrow>
     thread_step P D Silent \<lparr>store = st, source = r, pending = (pending D)(t \<mapsto> (op, h, s))\<rparr>"
| not_created: "pending D t = None \<Longrightarrow> creates op \<Longrightarrow> session_for P op (source D) = (x, r) \<Longrightarrow> \<not> is_ok x \<Longrightarrow>
     thread_step P D (Returns t op (Handle (case x of Err e \<Rightarrow> Err e | _ \<Rightarrow> Panic))) (D\<lparr>source := r\<rparr>)"
| store_session: "pending D t = Some (op, h, s) \<Longrightarrow> reg_store_at ''Session'' h s (store D) = (x, st) \<Longrightarrow>
     thread_step P D (Returns t op (Handle x)) (D\<lparr>store := st, pending := (pending D)(t := None)\<rparr>)"
| under_lock: "pending D t = None \<Longrightarrow> \<not> creates op \<Longrightarrow> api_call P op (store D, source D) = (reply, (st, r)) \<Longrightarrow>
     thread_step P D (Returns t op reply) (D\<lparr>store := st, source := r\<rparr>)"

inductive thread_runs :: "provider \<Rightarrow> device \<Rightarrow> visible list \<Rightarrow> device \<Rightarrow> bool" for P D0 where
  start: "thread_runs P D0 [] D0"
| step: "thread_runs P D0 evs D \<Longrightarrow> thread_step P D ev D' \<Longrightarrow> thread_runs P D0 (evs @ [ev]) D'"

section \<open>What the threads are promised\<close>

text \<open>
  A store without a counter: a creation puts its session under any handle never given before;
  every other call works on the sessions alone, as the sequential call does on any store that
  holds them.
\<close>

record spec =
  live :: "u32 \<Rightarrow> Session option"
  broken :: bool
  given :: "u32 set"

definition spec_init :: spec where
  "spec_init = \<lparr>live = (\<lambda>_. None), broken = False, given = {}\<rparr>"

inductive spec_step :: "provider \<Rightarrow> spec \<Rightarrow> visible \<Rightarrow> spec \<Rightarrow> bool" for P where
  silent: "spec_step P S Silent S"
| created: "creates op \<Longrightarrow> session_for P op r = (Ok s, r') \<Longrightarrow> \<not> broken S \<Longrightarrow> h \<notin> given S \<Longrightarrow>
     spec_step P S (Returns t op (Handle (Ok h))) (S\<lparr>live := (live S)(h \<mapsto> s), given := insert h (given S)\<rparr>)"
| refused: "creates op \<Longrightarrow> session_for P op r = (x, r') \<Longrightarrow> \<not> is_ok x \<Longrightarrow>
     spec_step P S (Returns t op (Handle (case x of Err e \<Rightarrow> Err e | _ \<Rightarrow> Panic))) S"
| locked_out: "creates op \<Longrightarrow> session_for P op r = (Ok s, r') \<Longrightarrow> broken S \<Longrightarrow>
     spec_step P S (Returns t op (Handle (Err (''Session lock poisoned: '' @ poison_text)))) S"
| used: "\<not> creates op \<Longrightarrow> (\<And>h. reg_entry h st = live S h) \<Longrightarrow> reg_poisoned st = broken S \<Longrightarrow>
     api_call P op (st, r) = (reply, (st', r')) \<Longrightarrow>
     spec_step P S (Returns t op reply) (S\<lparr>live := (\<lambda>h. reg_entry h st'), broken := reg_poisoned st'\<rparr>)"

inductive spec_runs :: "provider \<Rightarrow> visible list \<Rightarrow> spec \<Rightarrow> bool" for P where
  start: "spec_runs P [] spec_init"
| step: "spec_runs P evs S \<Longrightarrow> spec_step P S ev S' \<Longrightarrow> spec_runs P (evs @ [ev]) S'"

inductive_cases thread_stepE: "thread_step P D ev D'"
inductive_cases spec_stepE: "spec_step P S ev S'"

fun given_by :: "visible \<Rightarrow> u32 list" where
  "given_by (Returns t op (Handle (Ok h))) = [h]"
| "given_by _ = []"

text \<open>In the promise, handles are never given twice.\<close>

lemma spec_given:
  assumes "spec_runs P evs S"
  shows "distinct (concat (map given_by evs)) \<and> set (concat (map given_by evs)) = given S"
  using assms
proof induction
  case start
  then show ?case by (simp add: spec_init_def)
next
  case (step evs S ev S')
  from step.hyps(2) have "given_by ev = [] \<and> given S' = given S \<or>
      (\<exists>h. given_by ev = [h] \<and> h \<notin> given S \<and> given S' = insert h (given S))"
  proof cases
    case (refused op r x r' t)
    then show ?thesis by (cases x) auto
  next
    case (used op st r reply st' r' t)
    then have "given_by ev = []" by (cases op) (auto split: prod.splits)
    with used show ?thesis by simp
  qed auto
  with step.IH show ?case by auto
qed

section \<open>The threads keep the promise\<close>

definition agrees :: "provider \<Rightarrow> device \<Rightarrow> spec \<Rightarrow> bool" where
  "agrees P D S \<longleftrightarrow>
     live S = (\<lambda>h. reg_entry h (store D)) \<and> broken S = reg_poisoned (store D) \<and>
     (\<forall>h\<in>given S. unat h < unat (reg_next (store D))) \<and>
     (\<forall>h. reg_entry h (store D) \<noteq> None \<longrightarrow> h \<in> given S) \<and>
     (\<forall>t op h s. pending D t = Some (op, h, s) \<longrightarrow>
        unat h < unat (reg_next (store D)) \<and> h \<notin> given S \<and> creates op \<and> (\<exists>r r'. session_for P op r = (Ok s, r'))) \<and>
     (\<forall>t t' op op' h s s'. pending D t = Some (op, h, s) \<longrightarrow> pending D t' = Some (op', h, s') \<longrightarrow> t = t')"

lemma locked_call_frame:
  assumes "api_call P op (st, r) = (reply, (st', r'))" "\<not> creates op"
  shows "reg_next st' = reg_next st" "reg_entry h st' \<noteq> None \<Longrightarrow> reg_entry h st \<noteq> None"
proof -
  have "reg_next st' = reg_next st \<and> (reg_entry h st' \<noteq> None \<longrightarrow> reg_entry h st \<noteq> None)"
  proof (cases op)
    case (Encrypt j m)
    with assms(1) obtain x where "session_encrypt P j m (st, r) = (x, (st', r'))"
      by (auto split: prod.splits)
    from reg_update_next [OF this [unfolded session_encrypt_def]] show ?thesis by simp
  next
    case (Decrypt j hdr c n)
    with assms(1) obtain x where "session_decrypt P j hdr c n (st, r) = (x, (st', r'))"
      by (auto split: prod.splits)
    from reg_update_next [OF this [unfolded session_decrypt_def]] show ?thesis by simp
  next
    case (Destroy j)
    with assms(1) show ?thesis
      by (auto simp: destroy_session_def reg_remove_def reg_entry_def split: if_splits prod.splits)
  qed (use assms(2) in simp_all)
  then show "reg_next st' = reg_next st" "reg_entry h st' \<noteq> None \<Longrightarrow> reg_entry h st \<noteq> None"
    by simp_all
qed

lemma agrees_init: "agrees P (device_init r) spec_init"
  by (simp add: agrees_def device_init_def spec_init_def below_empty reg_empty_def reg_entry_def)

lemma thread_step_next:
  assumes "thread_step P D ev D'"
  shows "reg_next (store D') = reg_next (store D) \<or> reg_next (store D') = reg_next (store D) + 1"
  using assms
  by cases (auto simp: reg_alloc_def reg_store_at_def locked_call_frame(1) split: if_splits)

text \<open>The handle a thread is about to be given is held by no other.\<close>

lemma agrees_fresh:
  assumes "agrees P D S"
  shows "pending D t \<noteq> Some (op, reg_next (store D), s)" "reg_next (store D) \<notin> given S"
  using assms by (fastforce simp: agrees_def)+

lemma agrees_stored:
  assumes "agrees P D S" "pending D t = Some (op, h, s)"
  shows "agrees P (D\<lparr>store := (store D)\<lparr>reg_map := fmupd h s (reg_map (store D))\<rparr>, pending := (pending D)(t := None)\<rparr>)
    (S\<lparr>live := (live S)(h \<mapsto> s), given := insert h (given S)\<rparr>)"
proof -
  note p = assms(1) [unfolded agrees_def]
  from p assms(2) have h: "unat h < unat (reg_next (store D))" by blast
  from p assms(2) have one: "pending D t' = Some (op', h, s') \<Longrightarrow> t' = t" for t' op' s' by metis
  show ?thesis
    using p h one by (auto simp: agrees_def reg_entry_def fun_eq_iff split: if_splits)
qed

lemma thread_step_spec:
  assumes "thread_step P D ev D'" "agrees P D S" "unat (reg_next (store D)) + 1 < 2 ^ 32"
  obtains S' where "spec_step P S ev S'" "agrees P D' S'"
  using assms(1)
proof cases
  case (take_handle t op s r h st)
  then have h: "h = reg_next (store D)" "st = (store D)\<lparr>reg_next := h + 1\<rparr>" by (auto simp: reg_alloc_def)
  have "agrees P D' S"
    using assms(2) take_handle(1,4,5) agrees_fresh [OF assms(2)] unat_next [OF assms(3)]
    unfolding agrees_def take_handle(2) h
    by (auto simp: reg_entry_def less_Suc_eq split: if_splits)
  moreover have "spec_step P S ev S" using take_handle by (simp add: spec_step.silent)
  ultimately show thesis by (rule that [rotated])
next
  case (not_created t op x r)
  have "agrees P D' S" using assms(2) not_created by (simp add: agrees_def)
  moreover have "spec_step P S ev S"
    using not_created by (auto intro: spec_step.refused)
  ultimately show thesis by (rule that [rotated])
next
  case (store_session t op h s x st)
  note p = assms(2) [unfolded agrees_def]
  from p store_session have pend: "unat h < unat (reg_next (store D))" "h \<notin> given S" "creates op"
    "\<exists>r r'. session_for P op r = (Ok s, r')" by blast+
  show thesis
  proof (cases "reg_poisoned (store D)")
    case True
    with store_session have x: "st = store D" "x = Err (''Session lock poisoned: '' @ poison_text)"
      by (auto simp: reg_store_at_def)
    then have "agrees P D' S" using assms(2) store_session by (auto simp: agrees_def split: if_splits)
    moreover obtain r1 r2 where "session_for P op r1 = (Ok s, r2)" using pend(4) by blast
    then have "spec_step P S ev S"
      unfolding store_session(1) x(2) using pend(3) True p by (intro spec_step.locked_out) simp_all
    ultimately show thesis by (rule that [rotated])
  next
    case False
    with store_session(4) have st: "x = Ok h" "st = (store D)\<lparr>reg_map := fmupd h s (reg_map (store D))\<rparr>"
      by (auto simp: reg_store_at_def)
    have "agrees P D' (S\<lparr>live := (live S)(h \<mapsto> s), given := insert h (given S)\<rparr>)"
      using agrees_stored [OF assms(2) store_session(3)] store_session(2) st(2) by simp
    moreover obtain r1 r2 where "session_for P op r1 = (Ok s, r2)" using pend(4) by blast
    then have "spec_step P S ev (S\<lparr>live := (live S)(h \<mapsto> s), given := insert h (given S)\<rparr>)"
      unfolding store_session(1) st(1) using pend(2,3) False p by (intro spec_step.created) simp_all
    ultimately show thesis by (rule that [rotated])
  qed
next
  case (under_lock t op reply st r)
  let ?S = "S\<lparr>live := (\<lambda>h. reg_entry h st), broken := reg_poisoned st\<rparr>"
  have "agrees P D' ?S"
    using assms(2) under_lock locked_call_frame [OF under_lock(5,4)]
    unfolding agrees_def by auto
  moreover have "spec_step P S ev ?S"
    using under_lock assms(2) by (auto simp: agrees_def intro!: spec_step.used)
  ultimately show thesis by (rule that [rotated])
qed

lemma thread_runs_next:
  assumes "thread_runs P (device_init r) evs D"
  shows "unat (reg_next (store D)) \<le> Suc (length evs)"
  using assms
proof induction
  case start
  then show ?case by (simp add: device_init_def below_empty)
next
  case (step evs D ev D')
  from thread_step_next [OF step.hyps(2)] step.IH
  show ?case by (auto intro: order_trans [OF unat_succ_le])
qed

lemma thread_runs_spec:
  assumes "thread_runs P (device_init r) evs D" "length evs < 2 ^ 32 - 1"
  shows "\<exists>S. spec_runs P evs S \<and> agrees P D S"
  using assms
proof induction
  case start
  then show ?case using spec_runs.start agrees_init by blast
next
  case (step evs D ev D')
  from step.prems have n: "Suc (length evs) < 2 ^ 32 - 1" "length evs < 2 ^ 32 - 1" by simp_all
  from step.IH [OF n(2)] obtain S where S: "spec_runs P evs S" "agrees P D S" by blast
  have "unat (reg_next (store D)) + 1 < 2 ^ 32"
    using thread_runs_next [OF step.hyps(1)] n by simp
  with thread_step_spec [OF step.hyps(2) S(2)] obtain S' where "spec_step P S ev S'" "agrees P D' S'" by blast
  with S(1) show ?case by (blast intro: spec_runs.step)
qed

text \<open>
  C14. However the threads interleave, the session store behaves as a store without a counter:
  every call that returns does so as the promise allows (a creation returns a handle never given
  before and its session is there, a call under the lock does what it does alone), the sessions
  held at the end are those the promise holds, and no two creations return the same handle. The
  counter must not have come round: fewer than 2^32 - 1 steps.
\<close>

theorem threads_refine_store:
  assumes "thread_runs P (device_init r) evs D" "length evs < 2 ^ 32 - 1"
  shows "\<exists>S. spec_runs P evs S \<and> live S = (\<lambda>h. reg_entry h (store D)) \<and>
    broken S = reg_poisoned (store D) \<and> distinct (concat (map given_by evs))"
proof -
  from thread_runs_spec [OF assms] obtain S where S: "spec_runs P evs S" "agrees P D S" by blast
  then show ?thesis using spec_given [OF S(1)] by (auto simp: agrees_def)
qed

text \<open>Two threads take their handles, and the second to take one is the first to return.\<close>

lemma two_threads_run:
  "\<exists>D op. thread_runs demo_provider (device_init demo_rng)
      [Silent, Silent, Returns 1 op (Handle (Ok 2)), Returns 0 op (Handle (Ok 1))] D \<and>
    reg_entry 1 (store D) \<noteq> None"
proof -
  define op where "op = CreateInitiator [1] (replicate 32 9)"
  have total: "\<exists>s g. session_for demo_provider op r = (Ok s, g)" for r
    using init_alice_total [OF ratchet_lawsD(3) [OF demo_ratchet_laws], of "[1]" "replicate 32 9" r]
    by (auto simp: op_def api_public_key Let_def split: prod.splits)
  from total obtain s g where s: "session_for demo_provider op demo_rng = (Ok s, g)" by blast
  from total obtain s' g' where s': "session_for demo_provider op g = (Ok s', g')" by blast
  let ?D0 = "device_init demo_rng"
  let ?D1 = "\<lparr>store = reg_empty\<lparr>reg_next := 2\<rparr>, source = g, pending = (\<lambda>_. None)(0 \<mapsto> (op, 1, s))\<rparr>"
  let ?D2 = "\<lparr>store = reg_empty\<lparr>reg_next := 3\<rparr>, source = g',
    pending = (\<lambda>_. None)(0 \<mapsto> (op, 1, s), 1 \<mapsto> (op, 2, s'))\<rparr>"
  let ?m = "\<lparr>reg_next = 3, reg_map = fmupd 2 s' fmempty, reg_poisoned = False\<rparr>"
  let ?D3 = "?D2\<lparr>store := ?m, pending := (pending ?D2)(1 := None)\<rparr>"
  let ?D4 = "?D3\<lparr>store := ?m\<lparr>reg_map := fmupd 1 s (reg_map ?m)\<rparr>, pending := (pending ?D3)(0 := None)\<rparr>"
  have c: "creates op" by (simp add: op_def)
  have "thread_step demo_provider ?D0 Silent ?D1"
    using thread_step.take_handle [of ?D0 0 op demo_provider s g 1 "reg_empty\<lparr>reg_next := 2\<rparr>"] c s
    by (simp add: device_init_def reg_alloc_def reg_empty_def)
  moreover have "thread_step demo_provider ?D1 Silent ?D2"
    using thread_step.take_handle [of ?D1 1 op demo_provider s' g' 2 "reg_empty\<lparr>reg_next := 3\<rparr>"] c s'
    by (simp add: reg_alloc_def reg_empty_def)
  moreover have "thread_step demo_provider ?D2 (Returns 1 op (Handle (Ok 2))) ?D3"
    by (rule thread_step.store_session [of _ _ _ 2 s']) (simp_all add: reg_store_at_def reg_empty_def)
  moreover have "thread_step demo_provider ?D3 (Returns 0 op (Handle (Ok 1))) ?D4"
    by (rule thread_step.store_session [of _ _ _ 1 s]) (simp_all add: reg_store_at_def)
  ultimately have run: "thread_runs demo_provider ?D0
      [Silent, Silent, Returns 1 op (Handle (Ok 2)), Returns 0 op (Handle (Ok 1))] ?D4"
    using thread_runs.step [OF thread_runs.step [OF thread_runs.step [OF thread_runs.step [OF thread_runs.start]]]]
    by fastforce
  moreover have "reg_entry 1 (store ?D4) \<noteq> None" by (simp add: reg_entry_def)
  ultimately show ?thesis by - (rule exI [of _ ?D4], rule exI [of _ op], rule conjI)
qed

lemma threads_refine_store_witness:
  "\<exists>(D :: device) op S. spec_runs demo_provider [Silent, Silent, Returns 1 op (Handle (Ok 2)), Returns 0 op (Handle (Ok 1))] S \<and>
     live S 1 = reg_entry 1 (store D) \<and> reg_entry 1 (store D) \<noteq> None"
proof -
  obtain D op where run: "thread_runs demo_provider (device_init demo_rng)
      [Silent, Silent, Returns 1 op (Handle (Ok 2)), Returns 0 op (Handle (Ok 1))] D"
    and e: "reg_entry 1 (store D) \<noteq> None" using two_threads_run by blast
  have "length [Silent, Silent, Returns 1 op (Handle (Ok 2)), Returns 0 op (Handle (Ok 1))] < 2 ^ 32 - 1" by simp
  from threads_refine_store [OF run this] obtain S where
    S: "spec_runs demo_provider [Silent, Silent, Returns 1 op (Handle (Ok 2)), Returns 0 op (Handle (Ok 1))] S"
    and l: "live S = (\<lambda>h. reg_entry h (store D))" by (elim exE conjE)
  have "live S 1 = reg_entry 1 (store D)" unfolding l by (rule refl)
  with S e show ?thesis by - (rule exI [of _ D], rule exI [of _ op], rule exI [of _ S], intro conjI)
qed

end
