(* ===== verification/Mls_Lib.thy ===== *)
theory Mls_Lib
  imports Errors Interfaces "HOL-Library.List_Lexorder" "HOL-Library.Char_ord"
begin

text \<open>
  What \<open>src/mls/mod.rs\<close> calls: openmls, base64 and serde_json. Their code is not in the
  repository, so it is one record of functions. Groups, signers, credentials and group
  identifiers have a type each; the other objects that only pass through (key packages,
  messages, staged commits, proposals) share the type \<open>'o\<close>. An error is the text its
  \<open>Display\<close> gives.
\<close>

section \<open>The interface\<close>

type_synonym mls_store = "(bytes, bytes) fmap"
type_synonym portable_store = "(string, string) fmap"

text \<open>An \<open>OpenMlsRustCrypto\<close> is its key store and its random source.\<close>

type_synonym mls_env = "mls_store \<times> rng"

datatype ciphersuite = MLS_128_DHKEMX25519_AES128GCM_SHA256_Ed25519

record group_config =
  gc_ciphersuite :: "ciphersuite option"
  gc_use_ratchet_tree_extension :: bool

text \<open>\<open>ProcessedMessageContent\<close>\<close>

datatype 'o mls_content =
    ApplicationMessage bytes
  | StagedCommitMessage 'o
  | ProposalMessage 'o
  | ExternalJoinProposalMessage 'o

record GroupBundle =
  gb_store :: portable_store
  gb_signer :: bytes
  gb_credential_with_key :: bytes
  gb_group_id :: bytes

record KeyPackageSecretBundle =
  sb_store :: portable_store
  sb_signer :: bytes
  sb_credential_with_key :: bytes

record ('g, 'k, 'c, 'i, 'o) openmls =
  sig_new :: "rng \<Rightarrow> (string, 'k) outcome \<times> rng"
  sig_store :: "'k \<Rightarrow> mls_store \<Rightarrow> (string, unit) outcome \<times> mls_store"
  credential_for :: "bytes \<Rightarrow> 'k \<Rightarrow> 'c"
  kp_build :: "ciphersuite \<Rightarrow> 'k \<Rightarrow> 'c \<Rightarrow> mls_env \<Rightarrow> (string, 'o) outcome \<times> mls_env"
  kp_serialize :: "'o \<Rightarrow> (string, bytes) outcome"
  kp_deserialize :: "bytes \<Rightarrow> (string, 'o) outcome"
  kp_validate :: "'o \<Rightarrow> (string, 'o) outcome"
  grp_new :: "'k \<Rightarrow> group_config \<Rightarrow> 'c \<Rightarrow> mls_env \<Rightarrow> (string, 'g) outcome \<times> mls_env"
  grp_load :: "mls_store \<Rightarrow> 'i \<Rightarrow> (string, 'g option) outcome"
  grp_id :: "'g \<Rightarrow> 'i"
  grp_epoch :: "'g \<Rightarrow> u64"
  gid_slice :: "'i \<Rightarrow> bytes"
  grp_add :: "'k \<Rightarrow> 'o \<Rightarrow> 'g \<times> mls_env \<Rightarrow> (string, 'o \<times> 'o) outcome \<times> ('g \<times> mls_env)"
  grp_remove :: "'k \<Rightarrow> u32 \<Rightarrow> 'g \<times> mls_env \<Rightarrow> (string, 'o) outcome \<times> ('g \<times> mls_env)"
  grp_merge_pending :: "'g \<times> mls_env \<Rightarrow> (string, unit) outcome \<times> ('g \<times> mls_env)"
  grp_create_message :: "'k \<Rightarrow> bytes \<Rightarrow> 'g \<times> mls_env \<Rightarrow> (string, 'o) outcome \<times> ('g \<times> mls_env)"
  grp_process_message :: "'o \<Rightarrow> 'g \<times> mls_env \<Rightarrow> (string, 'o mls_content) outcome \<times> ('g \<times> mls_env)"
  grp_merge_staged :: "'o \<Rightarrow> 'g \<times> mls_env \<Rightarrow> (string, unit) outcome \<times> ('g \<times> mls_env)"
  grp_store_proposal :: "'o \<Rightarrow> 'g \<times> mls_env \<Rightarrow> (string, unit) outcome \<times> ('g \<times> mls_env)"
  msg_serialize :: "'o \<Rightarrow> (string, bytes) outcome"
  msg_deserialize :: "bytes \<Rightarrow> (string, 'o) outcome"
  msg_into_protocol :: "'o \<Rightarrow> (string, 'o) outcome"
  msg_welcome :: "'o \<Rightarrow> 'o option"
  content_debug :: "'o mls_content \<Rightarrow> string"
  welcome_stage :: "group_config \<Rightarrow> 'o \<Rightarrow> mls_env \<Rightarrow> (string, 'o) outcome \<times> mls_env"
  welcome_into_group :: "'o \<Rightarrow> mls_env \<Rightarrow> (string, 'g) outcome \<times> mls_env"
  b64_encode :: "bytes \<Rightarrow> string"
  b64_decode :: "string \<Rightarrow> bytes option"
  signer_to_json :: "'k \<Rightarrow> (string, bytes) outcome"
  signer_from_json :: "bytes \<Rightarrow> (string, 'k) outcome"
  credential_to_json :: "'c \<Rightarrow> (string, bytes) outcome"
  credential_from_json :: "bytes \<Rightarrow> (string, 'c) outcome"
  gid_to_json :: "'i \<Rightarrow> (string, bytes) outcome"
  gid_from_json :: "bytes \<Rightarrow> (string, 'i) outcome"
  bundle_to_json :: "GroupBundle \<Rightarrow> (string, bytes) outcome"
  bundle_from_json :: "bytes \<Rightarrow> (string, GroupBundle) outcome"
  secrets_to_json :: "KeyPackageSecretBundle \<Rightarrow> (string, bytes) outcome"
  secrets_from_json :: "bytes \<Rightarrow> (string, KeyPackageSecretBundle) outcome"

section \<open>The laws\<close>

text \<open>Encoding and printing can be undone.\<close>

definition b64_ok :: "('g, 'k, 'c, 'i, 'o) openmls \<Rightarrow> bool" where
  "b64_ok L \<longleftrightarrow> (\<forall>b. b64_decode L (b64_encode L b) = Some b)"

definition json_ok :: "('g, 'k, 'c, 'i, 'o) openmls \<Rightarrow> bool" where
  "json_ok L \<longleftrightarrow>
     (\<forall>k b. signer_to_json L k = Ok b \<longrightarrow> signer_from_json L b = Ok k) \<and>
     (\<forall>c b. credential_to_json L c = Ok b \<longrightarrow> credential_from_json L b = Ok c) \<and>
     (\<forall>i b. gid_to_json L i = Ok b \<longrightarrow> gid_from_json L b = Ok i) \<and>
     (\<forall>g b. bundle_to_json L g = Ok b \<longrightarrow> bundle_from_json L b = Ok g) \<and>
     (\<forall>s b. secrets_to_json L s = Ok b \<longrightarrow> secrets_from_json L b = Ok s)"

text \<open>
  openmls keeps a group in the storage provider: \<open>saved L g st\<close> says that loading its identifier
  from \<open>st\<close> gives the group. Creating or joining a group, merging a commit and creating a message
  write it through.
\<close>

definition saved :: "('g, 'k, 'c, 'i, 'o) openmls \<Rightarrow> 'g \<Rightarrow> mls_store \<Rightarrow> bool" where
  "saved L g st \<longleftrightarrow> grp_load L st (grp_id L g) = Ok (Some g)"

definition writes_through ::
  "('g, 'k, 'c, 'i, 'o) openmls \<Rightarrow> ('g \<times> mls_env \<Rightarrow> (string, 'a) outcome \<times> ('g \<times> mls_env)) \<Rightarrow> bool"
where
  "writes_through L f \<longleftrightarrow>
     (\<forall>s a g' st' r'. f s = (Ok a, (g', (st', r'))) \<longrightarrow> saved L g' st')"

definition storage_ok :: "('g, 'k, 'c, 'i, 'o) openmls \<Rightarrow> bool" where
  "storage_ok L \<longleftrightarrow>
     (\<forall>k cfg c e g st r. grp_new L k cfg c e = (Ok g, (st, r)) \<longrightarrow> saved L g st) \<and>
     (\<forall>w e g st r. welcome_into_group L w e = (Ok g, (st, r)) \<longrightarrow> saved L g st) \<and>
     writes_through L (grp_merge_pending L) \<and> (\<forall>w. writes_through L (grp_merge_staged L w)) \<and>
     (\<forall>k m. writes_through L (grp_create_message L k m))"

text \<open>
  Of the calls that only process an incoming message it is not assumed that they write the group
  through, only that what the store has under its identifier is not lost, and that a group is loaded
  under its own identifier.
\<close>

definition in_store :: "('g, 'k, 'c, 'i, 'o) openmls \<Rightarrow> 'g \<Rightarrow> mls_store \<Rightarrow> bool" where
  "in_store L g st \<longleftrightarrow> (\<exists>g'. grp_load L st (grp_id L g) = Ok (Some g'))"

definition keeps_entry ::
  "('g, 'k, 'c, 'i, 'o) openmls \<Rightarrow> ('g \<times> mls_env \<Rightarrow> (string, 'a) outcome \<times> ('g \<times> mls_env)) \<Rightarrow> bool"
where
  "keeps_entry L f \<longleftrightarrow> (\<forall>g st r a g' st' r'.
     in_store L g st \<longrightarrow> f (g, (st, r)) = (Ok a, (g', (st', r'))) \<longrightarrow> in_store L g' st')"

definition incoming_ok :: "('g, 'k, 'c, 'i, 'o) openmls \<Rightarrow> bool" where
  "incoming_ok L \<longleftrightarrow> (\<forall>st i g. grp_load L st i = Ok (Some g) \<longrightarrow> grp_id L g = i) \<and>
     (\<forall>m. keeps_entry L (grp_process_message L m)) \<and> (\<forall>p. keeps_entry L (grp_store_proposal L p))"

definition mls_laws :: "('g, 'k, 'c, 'i, 'o) openmls \<Rightarrow> bool" where
  "mls_laws L \<longleftrightarrow> b64_ok L \<and> json_ok L \<and> storage_ok L"

end
