(* ===== verification/Mls.thy ===== *)
theory Mls
  imports Mls_Lib
begin

text \<open>
  MLS group encryption (\<open>src/mls/mod.rs\<close>): every call takes the serialised state of a group,
  restores a provider and the group from it, runs openmls, and serialises the result. A call
  that fails returns no new state; a stored entry that is not base64 panics.
\<close>

section \<open>The key store as text\<close>

definition CIPHERSUITE :: ciphersuite where
  "CIPHERSUITE = MLS_128_DHKEMX25519_AES128GCM_SHA256_Ed25519"

text \<open>\<open>values.iter().map(|(k, v)| (encode(k), encode(v))).collect()\<close>\<close>

definition snapshot_store :: "('g, 'k, 'c, 'i, 'o) openmls \<Rightarrow> mls_store \<Rightarrow> portable_store" where
  "snapshot_store L values =
     fmap_of_list (map (\<lambda>(k, v). (b64_encode L k, b64_encode L v)) (sorted_list_of_fmap values))"

text \<open>\<open>for (k, v) in store { values.insert(decode(k).expect(..), decode(v).expect(..)) }\<close>\<close>

fun restore_entries ::
  "('g, 'k, 'c, 'i, 'o) openmls \<Rightarrow> (string \<times> string) list \<Rightarrow> mls_store \<Rightarrow> ('e, mls_store) outcome"
where
  "restore_entries L [] values = Ok values"
| "restore_entries L ((k, v) # rest) values =
     (case (b64_decode L k, b64_decode L v) of
        (Some key, Some val) \<Rightarrow> restore_entries L rest (fmupd key val values)
      | _ \<Rightarrow> Panic)"

definition restore_store ::
  "('g, 'k, 'c, 'i, 'o) openmls \<Rightarrow> portable_store \<Rightarrow> mls_store \<Rightarrow> ('e, mls_store) outcome"
where
  "restore_store L store values = restore_entries L (sorted_list_of_fmap store) values"

definition provider_from_store ::
  "('g, 'k, 'c, 'i, 'o) openmls \<Rightarrow> portable_store \<Rightarrow> ('e, mls_store) outcome"
where
  "provider_from_store L store = restore_store L store fmempty"

section \<open>Saving and loading a group\<close>

definition ser_err :: "(string, 'a) outcome \<Rightarrow> 'a result" where
  "ser_err = map_err Serialization"

definition serialize_bundle :: "('g, 'k, 'c, 'i, 'o) openmls \<Rightarrow> GroupBundle \<Rightarrow> bytes result" where
  "serialize_bundle L b = ser_err (bundle_to_json L b)"

definition deserialize_bundle :: "('g, 'k, 'c, 'i, 'o) openmls \<Rightarrow> bytes \<Rightarrow> GroupBundle result" where
  "deserialize_bundle L b = ser_err (bundle_from_json L b)"

definition load_group ::
  "('g, 'k, 'c, 'i, 'o) openmls \<Rightarrow> GroupBundle \<Rightarrow> ('g \<times> mls_store \<times> 'k \<times> 'c) result"
where
  "load_group L bundle =
     and_then (provider_from_store L (gb_store bundle)) (\<lambda>store.
     and_then (map_err (\<lambda>e. Serialization (''signer: '' @ e)) (signer_from_json L (gb_signer bundle)))
       (\<lambda>signer.
     and_then (map_err (\<lambda>e. Serialization (''credential: '' @ e))
         (credential_from_json L (gb_credential_with_key bundle))) (\<lambda>credential.
     and_then (map_err (\<lambda>e. Serialization (''group_id: '' @ e)) (gid_from_json L (gb_group_id bundle)))
       (\<lambda>gid.
     and_then (map_err (\<lambda>e. Mls (''storage error loading group: '' @ e)) (grp_load L store gid)) (\<lambda>found.
     and_then (ok_or (MlsGroupNotFound (''no group found for id '' @ show_bytes_debug (gid_slice L gid)))
         found) (\<lambda>grp.
       Ok (grp, store, signer, credential)))))))"

definition save_group ::
  "('g, 'k, 'c, 'i, 'o) openmls \<Rightarrow> 'g \<Rightarrow> mls_store \<Rightarrow> 'k \<Rightarrow> 'c \<Rightarrow> bytes result"
where
  "save_group L grp store signer credential =
     and_then (ser_err (signer_to_json L signer)) (\<lambda>s.
     and_then (ser_err (credential_to_json L credential)) (\<lambda>c.
     and_then (ser_err (gid_to_json L (grp_id L grp))) (\<lambda>i.
       serialize_bundle L \<lparr>gb_store = snapshot_store L store, gb_signer = s,
         gb_credential_with_key = c, gb_group_id = i\<rparr>)))"

definition serialize_mls_message :: "('g, 'k, 'c, 'i, 'o) openmls \<Rightarrow> 'o \<Rightarrow> bytes result" where
  "serialize_mls_message L msg = map_err (\<lambda>e. Serialization (''tls_serialize: '' @ e)) (msg_serialize L msg)"

definition deserialize_mls_message :: "('g, 'k, 'c, 'i, 'o) openmls \<Rightarrow> bytes \<Rightarrow> 'o result" where
  "deserialize_mls_message L b =
     map_err (\<lambda>e. Serialization (''tls_deserialize MlsMessageIn: '' @ e)) (msg_deserialize L b)"

definition default_group_create_config :: group_config where
  "default_group_create_config =
     \<lparr>gc_ciphersuite = Some CIPHERSUITE, gc_use_ratchet_tree_extension = True\<rparr>"

definition default_group_join_config :: group_config where
  "default_group_join_config = \<lparr>gc_ciphersuite = None, gc_use_ratchet_tree_extension = True\<rparr>"

section \<open>Result types\<close>

record MlsKeyPackageResult =
  kpr_key_package :: bytes
  kpr_secret_bundle :: bytes

record CreateGroupResult =
  cgr_group_state :: bytes
  cgr_group_id :: bytes
  cgr_epoch :: u64

record AddMemberResult =
  amr_commit :: bytes
  amr_welcome :: bytes
  amr_group_state :: bytes
  amr_epoch :: u64

record RemoveMemberResult =
  rmr_commit :: bytes
  rmr_group_state :: bytes
  rmr_epoch :: u64

record MlsEncryptResult =
  mer_mls_ciphertext :: bytes
  mer_group_state :: bytes
  mer_epoch :: u64

record DecryptResult =
  dcr_plaintext :: bytes
  dcr_group_state :: bytes

record ProcessCommitResult =
  pcr_group_state :: bytes
  pcr_epoch :: u64

record ProcessWelcomeResult =
  pwr_group_state :: bytes
  pwr_group_id :: bytes
  pwr_epoch :: u64

section \<open>The operations\<close>

text \<open>
  \<open>lift_mls wrap x\<close> is \<open>.map_err(|e| wrap(format!(prefix, e)))\<close> on a call that leaves a state.
\<close>

definition lift_mls ::
  "(string \<Rightarrow> CryptoError) \<Rightarrow> string \<Rightarrow> (string, 'a) outcome \<times> 's \<Rightarrow> 'a result \<times> 's"
where
  "lift_mls wrap prefix = (\<lambda>(x, s). (map_err (\<lambda>e. wrap (prefix @ e)) x, s))"

text \<open>The signer and credential both constructors of key material start with.\<close>

definition new_signer ::
  "('g, 'k, 'c, 'i, 'o) openmls \<Rightarrow> bytes \<Rightarrow> rng \<Rightarrow> ('k \<times> 'c) result \<times> mls_env"
where
  "new_signer L identity r =
     and_then_st (let (x, r) = lift_mls KeyGeneration ''signature keypair: '' (sig_new L r) in (x, (fmempty, r)))
       (\<lambda>signer (store, r).
     and_then_st (let (x, store) = lift_mls KeyGeneration ''store signer: '' (sig_store L signer store)
         in (x, (store, r))) (\<lambda>_ env.
       (Ok (signer, credential_for L identity signer), env)))"

definition mls_generate_key_package ::
  "('g, 'k, 'c, 'i, 'o) openmls \<Rightarrow> bytes \<Rightarrow> rng \<Rightarrow> MlsKeyPackageResult result \<times> rng"
where
  "mls_generate_key_package L identity r =
     (let (x, (store, r)) =
        and_then_st (new_signer L identity r) (\<lambda>(signer, credential) env.
        and_then_st (lift_mls KeyGeneration ''key package build: '' (kp_build L CIPHERSUITE signer credential env))
          (\<lambda>kp (store, r).
          (and_then (map_err (\<lambda>e. Serialization (''key package tls: '' @ e)) (kp_serialize L kp)) (\<lambda>kp_bytes.
           and_then (ser_err (signer_to_json L signer)) (\<lambda>s.
           and_then (ser_err (credential_to_json L credential)) (\<lambda>c.
           and_then (ser_err (secrets_to_json L \<lparr>sb_store = snapshot_store L store, sb_signer = s,
               sb_credential_with_key = c\<rparr>)) (\<lambda>secret_bytes.
             Ok \<lparr>kpr_key_package = kp_bytes, kpr_secret_bundle = secret_bytes\<rparr>)))), (store, r))))
      in (x, r))"

definition mls_create_group ::
  "('g, 'k, 'c, 'i, 'o) openmls \<Rightarrow> bytes \<Rightarrow> rng \<Rightarrow> CreateGroupResult result \<times> rng"
where
  "mls_create_group L identity r =
     (let (x, (store, r)) =
        and_then_st (new_signer L identity r) (\<lambda>(signer, credential) env.
        and_then_st (lift_mls Mls ''create group: ''
            (grp_new L signer default_group_create_config credential env)) (\<lambda>grp (store, r).
          (and_then (save_group L grp store signer credential) (\<lambda>state.
             Ok \<lparr>cgr_group_state = state, cgr_group_id = gid_slice L (grp_id L grp),
                  cgr_epoch = grp_epoch L grp\<rparr>), (store, r))))
      in (x, r))"

text \<open>
  The frame of every operation on an existing group: parse the blob, load the group, and run
  the body on it with the signer and the credential.
\<close>

definition with_group ::
  "('g, 'k, 'c, 'i, 'o) openmls \<Rightarrow> bytes \<Rightarrow>
   ('k \<Rightarrow> 'c \<Rightarrow> 'g \<times> mls_env \<Rightarrow> 'a result \<times> ('g \<times> mls_env)) \<Rightarrow> rng \<Rightarrow> 'a result \<times> rng"
where
  "with_group L group_state body r =
     (case and_then (deserialize_bundle L group_state) (load_group L) of
        Ok (grp, store, signer, credential) \<Rightarrow>
          (let (x, (g, (st, r'))) = body signer credential (grp, (store, r)) in (x, r'))
      | Err e \<Rightarrow> (Err e, r)
      | Panic \<Rightarrow> (Panic, r))"

definition mls_add_member ::
  "('g, 'k, 'c, 'i, 'o) openmls \<Rightarrow> bytes \<Rightarrow> bytes \<Rightarrow> rng \<Rightarrow> AddMemberResult result \<times> rng"
where
  "mls_add_member L group_state key_package_bytes =
     with_group L group_state (\<lambda>signer credential s.
     and_then_st (map_err (\<lambda>e. Serialization (''key package tls deser: '' @ e))
         (kp_deserialize L key_package_bytes), s) (\<lambda>kp_in s.
     and_then_st (map_err (\<lambda>e. Mls (''key package validation: '' @ e)) (kp_validate L kp_in), s) (\<lambda>kp s.
     and_then_st (lift_mls Mls ''add_members: '' (grp_add L signer kp s)) (\<lambda>(commit_msg, welcome_msg) s.
     and_then_st (lift_mls Mls ''merge_pending_commit: '' (grp_merge_pending L s)) (\<lambda>_ (grp, (store, r)).
       (and_then (save_group L grp store signer credential) (\<lambda>state.
        and_then (serialize_mls_message L commit_msg) (\<lambda>commit.
        and_then (serialize_mls_message L welcome_msg) (\<lambda>welcome.
          Ok \<lparr>amr_commit = commit, amr_welcome = welcome, amr_group_state = state,
               amr_epoch = grp_epoch L grp\<rparr>))), (grp, (store, r))))))))"

definition mls_remove_member ::
  "('g, 'k, 'c, 'i, 'o) openmls \<Rightarrow> bytes \<Rightarrow> u32 \<Rightarrow> rng \<Rightarrow> RemoveMemberResult result \<times> rng"
where
  "mls_remove_member L group_state leaf_index =
     with_group L group_state (\<lambda>signer credential s.
     and_then_st (lift_mls Mls ''remove_members: '' (grp_remove L signer leaf_index s)) (\<lambda>commit_msg s.
     and_then_st (lift_mls Mls ''merge_pending_commit: '' (grp_merge_pending L s)) (\<lambda>_ (grp, (store, r)).
       (and_then (save_group L grp store signer credential) (\<lambda>state.
        and_then (serialize_mls_message L commit_msg) (\<lambda>commit.
          Ok \<lparr>rmr_commit = commit, rmr_group_state = state, rmr_epoch = grp_epoch L grp\<rparr>)),
        (grp, (store, r))))))"

definition mls_encrypt_message ::
  "('g, 'k, 'c, 'i, 'o) openmls \<Rightarrow> bytes \<Rightarrow> bytes \<Rightarrow> rng \<Rightarrow> MlsEncryptResult result \<times> rng"
where
  "mls_encrypt_message L group_state plaintext =
     with_group L group_state (\<lambda>signer credential s.
     and_then_st (lift_mls Encryption ''create_message: '' (grp_create_message L signer plaintext s))
       (\<lambda>msg (grp, (store, r)).
       (and_then (save_group L grp store signer credential) (\<lambda>state.
        and_then (serialize_mls_message L msg) (\<lambda>ct.
          Ok \<lparr>mer_mls_ciphertext = ct, mer_group_state = state, mer_epoch = grp_epoch L grp\<rparr>)),
        (grp, (store, r)))))"

text \<open>Parsing and processing of an incoming message; \<open>wrap\<close> is the error kind of the caller.\<close>

definition process_incoming ::
  "('g, 'k, 'c, 'i, 'o) openmls \<Rightarrow> (string \<Rightarrow> CryptoError) \<Rightarrow> bytes \<Rightarrow> 'g \<times> mls_env \<Rightarrow>
   'o mls_content result \<times> ('g \<times> mls_env)"
where
  "process_incoming L wrap b s =
     and_then_st (deserialize_mls_message L b, s) (\<lambda>msg_in s.
     and_then_st (map_err (\<lambda>e. wrap (''not a protocol message: '' @ e)) (msg_into_protocol L msg_in), s)
       (\<lambda>protocol_message s.
     lift_mls wrap ''process_message: '' (grp_process_message L protocol_message s)))"

definition mls_decrypt_message ::
  "('g, 'k, 'c, 'i, 'o) openmls \<Rightarrow> bytes \<Rightarrow> bytes \<Rightarrow> rng \<Rightarrow> DecryptResult result \<times> rng"
where
  "mls_decrypt_message L group_state mls_message_bytes =
     with_group L group_state (\<lambda>signer credential s.
     let finish = (\<lambda>plaintext (grp, (store, r)).
           (and_then (save_group L grp store signer credential) (\<lambda>state.
              Ok \<lparr>dcr_plaintext = plaintext, dcr_group_state = state\<rparr>), (grp, (store, r))))
     in and_then_st (process_incoming L Decryption mls_message_bytes s) (\<lambda>content s.
       case content of
         ApplicationMessage app_msg \<Rightarrow> finish app_msg s
       | StagedCommitMessage staged \<Rightarrow>
           and_then_st (lift_mls Mls ''merge_staged_commit: '' (grp_merge_staged L staged s)) (\<lambda>_ s. finish [] s)
       | ProposalMessage proposal \<Rightarrow>
           and_then_st (lift_mls Mls ''store_pending_proposal: '' (grp_store_proposal L proposal s))
             (\<lambda>_ s. finish [] s)
       | ExternalJoinProposalMessage proposal \<Rightarrow>
           and_then_st (lift_mls Mls ''store_pending_proposal: '' (grp_store_proposal L proposal s))
             (\<lambda>_ s. finish [] s)))"

definition mls_process_commit ::
  "('g, 'k, 'c, 'i, 'o) openmls \<Rightarrow> bytes \<Rightarrow> bytes \<Rightarrow> rng \<Rightarrow> ProcessCommitResult result \<times> rng"
where
  "mls_process_commit L group_state commit_bytes =
     with_group L group_state (\<lambda>signer credential s.
     and_then_st (process_incoming L Mls commit_bytes s) (\<lambda>content s.
     and_then_st
       (case content of
          StagedCommitMessage staged \<Rightarrow> lift_mls Mls ''merge_staged_commit: '' (grp_merge_staged L staged s)
        | other \<Rightarrow> (Err (Mls (''expected a commit message, got: '' @ content_debug L other)), s))
       (\<lambda>_ (grp, (store, r)).
       (and_then (save_group L grp store signer credential) (\<lambda>state.
          Ok \<lparr>pcr_group_state = state, pcr_epoch = grp_epoch L grp\<rparr>), (grp, (store, r))))))"

definition mls_process_welcome ::
  "('g, 'k, 'c, 'i, 'o) openmls \<Rightarrow> bytes \<Rightarrow> bytes \<Rightarrow> rng \<Rightarrow> ProcessWelcomeResult result \<times> rng"
where
  "mls_process_welcome L welcome_bytes secret_bundle_bytes r =
     (let (x, (store, r)) =
        and_then_st (map_err (\<lambda>e. Serialization (''secret bundle: '' @ e))
            (secrets_from_json L secret_bundle_bytes), (fmempty, r)) (\<lambda>secrets (_, r).
        and_then_st (provider_from_store L (sb_store secrets), (fmempty, r)) (\<lambda>store (_, r).
        and_then_st (map_err (\<lambda>e. Serialization (''signer: '' @ e)) (signer_from_json L (sb_signer secrets)),
            (store, r)) (\<lambda>signer env.
        and_then_st (map_err (\<lambda>e. Serialization (''credential: '' @ e))
            (credential_from_json L (sb_credential_with_key secrets)), env) (\<lambda>credential env.
        and_then_st (deserialize_mls_message L welcome_bytes, env) (\<lambda>msg_in env.
        and_then_st (ok_or (Mls ''expected a Welcome message'') (msg_welcome L msg_in), env) (\<lambda>welcome env.
        and_then_st (lift_mls Mls ''staged welcome: '' (welcome_stage L default_group_join_config welcome env))
          (\<lambda>staged env.
        and_then_st (lift_mls Mls ''welcome into_group: '' (welcome_into_group L staged env)) (\<lambda>grp (store, r).
          (and_then (save_group L grp store signer credential) (\<lambda>state.
             Ok \<lparr>pwr_group_state = state, pwr_group_id = gid_slice L (grp_id L grp),
                  pwr_epoch = grp_epoch L grp\<rparr>), (store, r))))))))))
      in (x, r))"

end
