(* ===== verification/Mls_Facts.thy ===== *)
theory Mls_Facts
  imports Mls
begin

text \<open>
  Facts of the MLS wrapper: the key store survives its text form, a saved group loads again,
  and what each operation returns on each path.
\<close>

section \<open>The key store round trip\<close>

lemma distinct_sorted_list_of_fmap [simp]: "distinct (map fst (sorted_list_of_fmap m))"
  by (simp add: sorted_list_of_fmap_def o_def sorted_list_of_fset.rep_eq)

lemma sorted_list_of_fmap_lookup: "(k, v) \<in> set (sorted_list_of_fmap m) \<longleftrightarrow> fmlookup m k = Some v"
  by (metis distinct_sorted_list_of_fmap map_of_eq_Some_iff map_of_sorted_list)

lemma b64_inj: "b64_ok L \<Longrightarrow> b64_encode L a = b64_encode L b \<longleftrightarrow> a = b"
  by (metis b64_ok_def option.inject)

lemma map_of_encoded:
  assumes "b64_ok L"
  shows "map_of (map (\<lambda>(k, v). (b64_encode L k, b64_encode L v)) xs) (b64_encode L k) =
    map_option (b64_encode L) (map_of xs k)"
  by (induction xs) (auto simp: b64_inj [OF assms])

lemma snapshot_entry:
  assumes "b64_ok L" "fmlookup (snapshot_store L m) s = Some t"
  shows "\<exists>k v. s = b64_encode L k \<and> t = b64_encode L v \<and> fmlookup m k = Some v"
proof -
  have "map_of (map (\<lambda>(k, v). (b64_encode L k, b64_encode L v)) (sorted_list_of_fmap m)) s = Some t"
    using assms(2) by (simp add: snapshot_store_def fmlookup_of_list)
  then have "(s, t) \<in> set (map (\<lambda>(k, v). (b64_encode L k, b64_encode L v)) (sorted_list_of_fmap m))"
    by (rule map_of_SomeD)
  then show ?thesis by (auto simp: sorted_list_of_fmap_lookup)
qed

lemma restore_entries_encoded:
  assumes "b64_ok L" "distinct (map fst xs)"
    and "\<forall>p\<in>set xs. \<exists>k v. p = (b64_encode L k, b64_encode L v)"
  shows "\<exists>m. restore_entries L xs st = (Ok m :: ('e, mls_store) outcome) \<and>
    (\<forall>k. fmlookup m k = (case map_of xs (b64_encode L k) of Some t \<Rightarrow> b64_decode L t | None \<Rightarrow> fmlookup st k))"
  using assms(2,3)
proof (induction xs arbitrary: st)
  case (Cons x xs)
  obtain a b where x: "x = (b64_encode L a, b64_encode L b)"
    using Cons.prems(2) by auto
  have dec: "\<And>y. b64_decode L (b64_encode L y) = Some y" using assms(1) by (simp add: b64_ok_def)
  have "distinct (map fst xs)" "\<forall>p\<in>set xs. \<exists>k v. p = (b64_encode L k, b64_encode L v)"
    using Cons.prems by simp_all
  from Cons.IH [OF this, of "fmupd a b st"] obtain m where m: "restore_entries L xs (fmupd a b st) = (Ok m :: ('e, mls_store) outcome)"
    "\<And>k. fmlookup m k = (case map_of xs (b64_encode L k) of Some t \<Rightarrow> b64_decode L t
       | None \<Rightarrow> fmlookup (fmupd a b st) k)"
    by blast
  have "map_of xs (b64_encode L a) = None"
    using Cons.prems(1) by (simp add: x map_of_eq_None_iff)
  with m show ?case by (auto simp: x dec b64_inj [OF assms(1)] split: option.splits)
qed simp

lemma restore_snapshot:
  assumes "b64_ok L"
  shows "provider_from_store L (snapshot_store L m) = (Ok m :: ('e, mls_store) outcome)"
proof -
  let ?xs = "sorted_list_of_fmap (snapshot_store L m)"
  have enc: "\<forall>p\<in>set ?xs. \<exists>k v. p = (b64_encode L k, b64_encode L v)"
    using snapshot_entry [OF assms, of m] sorted_list_of_fmap_lookup by fastforce
  from restore_entries_encoded [OF assms distinct_sorted_list_of_fmap enc, of fmempty] obtain m' where
    m': "restore_entries L ?xs fmempty = (Ok m' :: ('e, mls_store) outcome)" "\<And>k. fmlookup m' k =
      (case fmlookup (snapshot_store L m) (b64_encode L k) of Some t \<Rightarrow> b64_decode L t
       | None \<Rightarrow> fmlookup fmempty k)"
    unfolding map_of_sorted_list by blast
  have "fmlookup m' k = fmlookup m k" for k
    using assms by (cases "fmlookup m k")
      (auto simp: m'(2) snapshot_store_def map_of_encoded b64_ok_def fmlookup_of_list)
  then have "m' = m" by (intro fmap_ext)
  with m'(1) show ?thesis by (simp add: provider_from_store_def restore_store_def)
qed

interpretation key_store: codec "snapshot_store L"
    "\<lambda>p. case provider_from_store L p of Ok m \<Rightarrow> Some m | Err (e :: CryptoError) \<Rightarrow> None | Panic \<Rightarrow> None"
    "\<lambda>_. b64_ok L" for L
  by unfold_locales (simp add: restore_snapshot)

section \<open>Saving and loading\<close>

lemma save_group_Ok:
  assumes "save_group L g st k c = Ok b"
  obtains s cr i where "signer_to_json L k = Ok s" "credential_to_json L c = Ok cr"
    "gid_to_json L (grp_id L g) = Ok i"
    "bundle_to_json L \<lparr>gb_store = snapshot_store L st, gb_signer = s, gb_credential_with_key = cr,
       gb_group_id = i\<rparr> = Ok b"
  using assms by (auto simp: save_group_def serialize_bundle_def ser_err_def outcome_simps)

lemma load_saved:
  assumes "b64_ok L" "json_ok L" "save_group L g st k c = Ok b"
  shows "and_then (deserialize_bundle L b) (load_group L) =
    and_then (map_err (\<lambda>e. Mls (''storage error loading group: '' @ e)) (grp_load L st (grp_id L g)))
      (\<lambda>found. and_then (ok_or (MlsGroupNotFound (''no group found for id '' @
           show_bytes_debug (gid_slice L (grp_id L g)))) found) (\<lambda>g'. Ok (g', st, k, c)))"
proof -
  from assms(3) obtain s cr i where j: "signer_to_json L k = Ok s" "credential_to_json L c = Ok cr"
    "gid_to_json L (grp_id L g) = Ok i"
    "bundle_to_json L \<lparr>gb_store = snapshot_store L st, gb_signer = s, gb_credential_with_key = cr,
       gb_group_id = i\<rparr> = Ok b"
    by (rule save_group_Ok)
  with assms(2) have "signer_from_json L s = Ok k" "credential_from_json L cr = Ok c"
    "gid_from_json L i = Ok (grp_id L g)"
    "bundle_from_json L b = Ok \<lparr>gb_store = snapshot_store L st, gb_signer = s,
       gb_credential_with_key = cr, gb_group_id = i\<rparr>"
    unfolding json_ok_def by blast+
  then show ?thesis
    by (simp add: deserialize_bundle_def ser_err_def load_group_def restore_snapshot [OF assms(1)])
qed

lemma load_saved_group:
  assumes "b64_ok L" "json_ok L" "save_group L g st k c = Ok b" "saved L g st"
  shows "and_then (deserialize_bundle L b) (load_group L) = Ok (g, st, k, c)"
  using load_saved [OF assms(1-3)] assms(4) by (simp add: saved_def)

text \<open>A blob is a good state for a group: loading it gives the group, with some store and keys.\<close>

definition state_of :: "('g, 'k, 'c, 'i, 'o) openmls \<Rightarrow> bytes \<Rightarrow> 'g \<Rightarrow> bool" where
  "state_of L b g \<longleftrightarrow> (\<exists>st k c. and_then (deserialize_bundle L b) (load_group L) = Ok (g, st, k, c))"

lemma state_ofI:
  "b64_ok L \<Longrightarrow> json_ok L \<Longrightarrow> save_group L g st k c = Ok b \<Longrightarrow> saved L g st \<Longrightarrow> state_of L b g"
  unfolding state_of_def by (intro exI) (rule load_saved_group)

lemma with_group_run:
  assumes "and_then (deserialize_bundle L b) (load_group L) = Ok (g, st, k, c)"
    and "body k c (g, (st, r)) = (x, (g', (st', r')))"
  shows "with_group L b body r = (x, r')"
  using assms by (simp add: with_group_def)

lemma with_group_Ok:
  assumes "with_group L b body r = (Ok x, r')"
  obtains g st k c g' st' where "and_then (deserialize_bundle L b) (load_group L) = Ok (g, st, k, c)"
    "body k c (g, (st, r)) = (Ok x, (g', (st', r')))"
proof (cases "and_then (deserialize_bundle L b) (load_group L)")
  case (Ok p)
  obtain g st k c where p: "p = (g, st, k, c)" by (cases p)
  obtain y g' st' r'' where "body k c (g, (st, r)) = (y, (g', (st', r'')))" by (metis surj_pair)
  with assms Ok p show thesis by (intro that) (simp_all add: with_group_def)
qed (use assms in \<open>simp_all add: with_group_def\<close>)

lemma lift_mls_eq_iffs [outcome_simps]:
  "lift_mls w p y = (Ok a, s) \<longleftrightarrow> y = (Ok a, s)"
  "lift_mls w p y = (Panic, s) \<longleftrightarrow> y = (Panic, s)"
  "lift_mls w p y = (Err e', s) \<longleftrightarrow> (\<exists>e. y = (Err e, s) \<and> e' = w (p @ e))"
  by (cases y; auto simp: lift_mls_def outcome_simps)+

end
