(* ===== verification/Mls_Demo.thy ===== *)
theory Mls_Demo
  imports Mls_Facts
begin

text \<open>
  A concrete library that satisfies the laws of \<open>Mls_Lib\<close>, so that the theorems about the MLS
  wrapper can be applied to concrete values. A group is its epoch, kept in the store under the
  empty key; a serialised bundle is a sequence of length-prefixed frames; a wire message is a
  tag byte and its content. It is in no way secure.
\<close>

section \<open>Frames\<close>

definition put_frame :: "bytes \<Rightarrow> bytes" where
  "put_frame b = replicate (length b) 1 @ 0 # b"

definition get_frame :: "bytes \<Rightarrow> bytes \<times> bytes" where
  "get_frame b =
     (let n = length (takeWhile ((=) 1) b); r = drop (Suc n) b in (take n r, drop n r))"

lemma get_put_frame: "get_frame (put_frame b @ r) = (b, r)"
proof -
  have "takeWhile ((=) (1 :: u8)) (replicate n 1 @ 0 # c) = replicate n 1" for n c
    by (induction n) simp_all
  then show ?thesis by (simp add: get_frame_def put_frame_def)
qed

function get_frames :: "bytes \<Rightarrow> bytes list" where
  "get_frames b = (if b = [] then [] else let (x, r) = get_frame b in x # get_frames r)"
  by pat_completeness auto
termination
  by (relation "measure length") (auto simp: get_frame_def Let_def)

declare get_frames.simps [simp del]

definition put_frames :: "bytes list \<Rightarrow> bytes" where
  "put_frames bs = concat (map put_frame bs)"

lemma get_put_frames: "get_frames (put_frames bs) = bs"
proof (induction bs)
  case Nil
  then show ?case by (simp add: put_frames_def get_frames.simps)
next
  case (Cons b bs)
  have "put_frames (b # bs) \<noteq> []" by (simp add: put_frames_def put_frame_def)
  with Cons show ?case
    by (subst get_frames.simps) (simp add: put_frames_def get_put_frame)
qed

interpretation frames: codec put_frames "\<lambda>b. Some (get_frames b)" "\<lambda>_. True"
  by unfold_locales (simp add: get_put_frames)

section \<open>Stores as frames\<close>

definition chars :: "bytes \<Rightarrow> string" where
  "chars b = map (\<lambda>x. char_of (unat x)) b"

definition unchars :: "string \<Rightarrow> bytes" where
  "unchars s = map of_char s"

lemma unchars_chars [simp]: "unchars (chars b) = b"
proof -
  have "(of_char (char_of (unat x)) :: u8) = x" for x :: u8
  proof -
    have "unat x < 256" using unsigned_less [of x, where ?'a = nat] by simp
    then have "(of_char (char_of (unat x)) :: nat) = unat x" by simp
    then have "(of_nat (of_char (char_of (unat x)) :: nat) :: u8) = x"
      by simp
    then show ?thesis by (simp only: of_nat_of_char)
  qed
  then show ?thesis by (simp add: chars_def unchars_def map_idI)
qed

lemma chars_unchars [simp]: "chars (unchars s) = s"
proof -
  have "char_of (unat (of_char c :: u8)) = c" for c :: char
  proof -
    have "(of_char c :: nat) < 256" by simp
    then have "unat (of_nat (of_char c) :: u8) = of_char c"
      by (simp add: unat_of_nat take_bit_nat_eq_self)
    then have "unat (of_char c :: u8) = of_char c" by (simp only: of_nat_of_char)
    then show ?thesis by simp
  qed
  then show ?thesis by (simp add: chars_def unchars_def map_idI)
qed

fun flat_pairs :: "(string \<times> string) list \<Rightarrow> bytes list" where
  "flat_pairs [] = []"
| "flat_pairs ((k, v) # xs) = unchars k # unchars v # flat_pairs xs"

fun pair_up :: "bytes list \<Rightarrow> (string \<times> string) list" where
  "pair_up (k # v # xs) = (chars k, chars v) # pair_up xs"
| "pair_up _ = []"

lemma pair_up_flat [simp]: "pair_up (flat_pairs xs) = xs"
  by (induction xs rule: flat_pairs.induct) simp_all

lemma fmap_of_sorted_list [simp]: "fmap_of_list (sorted_list_of_fmap m) = m"
  by (rule fmap_ext) (simp add: fmlookup_of_list)

definition bundle_bytes :: "GroupBundle \<Rightarrow> bytes" where
  "bundle_bytes b = put_frames (gb_signer b # gb_credential_with_key b # gb_group_id b #
     flat_pairs (sorted_list_of_fmap (gb_store b)))"

definition bytes_bundle :: "bytes \<Rightarrow> (string, GroupBundle) outcome" where
  "bytes_bundle b = (case get_frames b of
     s # c # i # rest \<Rightarrow> Ok \<lparr>gb_store = fmap_of_list (pair_up rest), gb_signer = s,
       gb_credential_with_key = c, gb_group_id = i\<rparr>
   | _ \<Rightarrow> Err ''EOF while parsing'')"

definition secret_bytes :: "KeyPackageSecretBundle \<Rightarrow> bytes" where
  "secret_bytes b = put_frames (sb_signer b # sb_credential_with_key b #
     flat_pairs (sorted_list_of_fmap (sb_store b)))"

definition bytes_secret :: "bytes \<Rightarrow> (string, KeyPackageSecretBundle) outcome" where
  "bytes_secret b = (case get_frames b of
     s # c # rest \<Rightarrow> Ok \<lparr>sb_store = fmap_of_list (pair_up rest), sb_signer = s,
       sb_credential_with_key = c\<rparr>
   | _ \<Rightarrow> Err ''EOF while parsing'')"

lemma bytes_bundle_bytes: "bytes_bundle (bundle_bytes b) = Ok b"
  by (simp add: bytes_bundle_def bundle_bytes_def get_put_frames)

lemma bytes_secret_bytes: "bytes_secret (secret_bytes b) = Ok b"
  by (simp add: bytes_secret_def secret_bytes_def get_put_frames)

section \<open>The library\<close>

definition put_group :: "u64 \<Rightarrow> mls_store \<Rightarrow> mls_store" where
  "put_group g st = fmupd [] (replicate (unat g) 0) st"

definition get_group :: "mls_store \<Rightarrow> u64 option" where
  "get_group st = map_option (\<lambda>b. of_nat (length b)) (fmlookup st [])"

lemma get_put_group [simp]: "get_group (put_group g st) = Some g"
  by (simp add: get_group_def put_group_def)

definition bump :: "u64 \<times> mls_env \<Rightarrow> (string, unit) outcome \<times> (u64 \<times> mls_env)" where
  "bump = (\<lambda>(g, (st, r)). (Ok (), (g + 1, (put_group (g + 1) st, r))))"

text \<open>Incoming messages: tag 1 is an application message, 2 a commit, 3 a proposal.\<close>

definition demo_content :: "bytes \<Rightarrow> bytes mls_content" where
  "demo_content b = (case b of
     x # m \<Rightarrow> if x = 1 then ApplicationMessage m else if x = 2 then StagedCommitMessage m else ProposalMessage m
   | [] \<Rightarrow> ProposalMessage [])"

definition demo_mls :: "(u64, bytes, bytes, unit, bytes) openmls" where
  "demo_mls = \<lparr>
     sig_new = (\<lambda>r. let (b, r') = draw_bytes 32 r in (Ok b, r')),
     sig_store = (\<lambda>k st. (Ok (), fmupd [1] k st)),
     credential_for = (\<lambda>identity k. identity @ k),
     kp_build = (\<lambda>cs k c env. (Ok c, env)),
     kp_serialize = (\<lambda>kp. Ok kp),
     kp_deserialize = (\<lambda>b. Ok b),
     kp_validate = (\<lambda>kp. Ok kp),
     grp_new = (\<lambda>k cfg c (st, r). (Ok 0, (put_group 0 st, r))),
     grp_load = (\<lambda>st i. Ok (get_group st)),
     grp_id = (\<lambda>g. ()),
     grp_epoch = (\<lambda>g. g),
     gid_slice = (\<lambda>i. [7]),
     grp_add = (\<lambda>k kp s. (Ok ([2], [5]), s)),
     grp_remove = (\<lambda>k i s. (Ok [2], s)),
     grp_merge_pending = bump,
     grp_create_message = (\<lambda>k m (g, (st, r)). (Ok (1 # m), (g, (put_group g st, r)))),
     grp_process_message = (\<lambda>m s. (Ok (demo_content m), s)),
     grp_merge_staged = (\<lambda>c. bump),
     grp_store_proposal = (\<lambda>p s. (Ok (), s)),
     msg_serialize = (\<lambda>m. Ok m),
     msg_deserialize = (\<lambda>b. Ok b),
     msg_into_protocol = (\<lambda>m. Ok m),
     msg_welcome = (\<lambda>m. if m = [5] then Some m else None),
     content_debug = (\<lambda>c. ''content''),
     welcome_stage = (\<lambda>cfg w env. (Ok w, env)),
     welcome_into_group = (\<lambda>w (st, r). (Ok 1, (put_group 1 st, r))),
     b64_encode = chars,
     b64_decode = (\<lambda>s. Some (unchars s)),
     signer_to_json = (\<lambda>k. Ok k), signer_from_json = (\<lambda>b. Ok b),
     credential_to_json = (\<lambda>c. Ok c), credential_from_json = (\<lambda>b. Ok b),
     gid_to_json = (\<lambda>i. Ok [7]), gid_from_json = (\<lambda>b. Ok ()),
     bundle_to_json = (\<lambda>b. Ok (bundle_bytes b)), bundle_from_json = bytes_bundle,
     secrets_to_json = (\<lambda>b. Ok (secret_bytes b)), secrets_from_json = bytes_secret\<rparr>"

lemma demo_mls_fields:
  "grp_merge_staged demo_mls w = bump" "grp_id demo_mls g = ()" "grp_epoch demo_mls g = g"
  "signer_to_json demo_mls k = Ok k" "credential_to_json demo_mls c = Ok c" "gid_to_json demo_mls i = Ok [7]"
  "bundle_to_json demo_mls b = Ok (bundle_bytes b)" "msg_deserialize demo_mls m = Ok m"
  "msg_into_protocol demo_mls p = Ok p" "grp_process_message demo_mls p s = (Ok (demo_content p), s)"
  "grp_create_message demo_mls k m (g, (st, r)) = (Ok (1 # m), (g, (put_group g st, r)))"
  "msg_serialize demo_mls p = Ok p" "content_debug demo_mls x = ''content''"
  "grp_load demo_mls st i = Ok (get_group st)"
  by (simp_all add: demo_mls_def)

lemma demo_incoming_ok: "incoming_ok demo_mls"
  by (auto simp: incoming_ok_def keeps_entry_def demo_mls_def)

lemma demo_mls_laws: "mls_laws demo_mls"
  unfolding mls_laws_def
proof (intro conjI)
  show "b64_ok demo_mls" by (simp add: b64_ok_def demo_mls_def)
  show "json_ok demo_mls"
    by (auto simp: json_ok_def demo_mls_def bytes_bundle_bytes bytes_secret_bytes)
  show "storage_ok demo_mls"
    by (auto simp: storage_ok_def writes_through_def saved_def demo_mls_def bump_def)
qed

end
