(* ===== verification/Mls_Properties.thy ===== *)
theory Mls_Properties
  imports Mls_Demo
begin

text \<open>
  The properties of the MLS wrapper: its text form of the key store loses nothing, every
  operation returns a state the next operation can load, and the cases of an incoming message.
\<close>

section \<open>States are passed on\<close>

lemma mls_lawsD:
  assumes "mls_laws L"
  shows "b64_ok L" "json_ok L"
    "grp_new L k cfg c e = (Ok g, (st, r)) \<Longrightarrow> saved L g st"
    "welcome_into_group L w e = (Ok g, (st, r)) \<Longrightarrow> saved L g st"
    "grp_merge_pending L s = (Ok u, (g, (st, r))) \<Longrightarrow> saved L g st"
    "grp_merge_staged L w s = (Ok u, (g, (st, r))) \<Longrightarrow> saved L g st"
    "grp_create_message L k m s = (Ok msg, (g, (st, r))) \<Longrightarrow> saved L g st"
proof -
  have l: "b64_ok L" "json_ok L" "storage_ok L" using assms by (simp_all add: mls_laws_def)
  then show "b64_ok L" "json_ok L" by simp_all
  note s = l(3) [unfolded storage_ok_def writes_through_def]
  show "grp_new L k cfg c e = (Ok g, (st, r)) \<Longrightarrow> saved L g st" using s by fast
  show "welcome_into_group L w e = (Ok g, (st, r)) \<Longrightarrow> saved L g st" using s by fast
  show "grp_merge_pending L s = (Ok u, (g, (st, r))) \<Longrightarrow> saved L g st" using s by fast
  show "grp_merge_staged L w s = (Ok u, (g, (st, r))) \<Longrightarrow> saved L g st" using s by fast
  show "grp_create_message L k m s = (Ok msg, (g, (st, r))) \<Longrightarrow> saved L g st" using s by fast
qed

text \<open>The blob loads to a group whose epoch (and identifier) is the one reported beside it.\<close>

definition loads_at :: "('g, 'k, 'c, 'i, 'o) openmls \<Rightarrow> bytes \<Rightarrow> u64 \<Rightarrow> bool" where
  "loads_at L b n \<longleftrightarrow> (\<exists>g. state_of L b g \<and> n = grp_epoch L g)"

definition loads_as :: "('g, 'k, 'c, 'i, 'o) openmls \<Rightarrow> bytes \<Rightarrow> bytes \<Rightarrow> u64 \<Rightarrow> bool" where
  "loads_as L b i n \<longleftrightarrow> (\<exists>g. state_of L b g \<and> n = grp_epoch L g \<and> i = gid_slice L (grp_id L g))"

lemma save_loads:
  assumes "mls_laws L" "saved L g st" "save_group L g st k c = Ok b"
  shows "loads_at L b (grp_epoch L g)" "loads_as L b (gid_slice L (grp_id L g)) (grp_epoch L g)"
  using state_ofI [OF mls_lawsD(1,2) [OF assms(1)] assms(3,2)] by (auto simp: loads_at_def loads_as_def)

lemma create_group_state:
  assumes "mls_laws L" "mls_create_group L ident r = (Ok x, r')"
  shows "loads_as L (cgr_group_state x) (cgr_group_id x) (cgr_epoch x)"
  using assms(2)
  by (auto simp: mls_create_group_def outcome_simps Let_def intro: save_loads(2) [OF assms(1) mls_lawsD(3) [OF assms(1)]]
      split: prod.splits)

lemma welcome_state:
  assumes "mls_laws L" "mls_process_welcome L w b r = (Ok x, r')"
  shows "loads_as L (pwr_group_state x) (pwr_group_id x) (pwr_epoch x)"
  using assms(2)
  by (auto simp: mls_process_welcome_def outcome_simps Let_def intro: save_loads(2) [OF assms(1) mls_lawsD(4) [OF assms(1)]]
      split: prod.splits)

lemma add_member_state:
  assumes "mls_laws L" "mls_add_member L b kp r = (Ok x, r')"
  shows "loads_at L (amr_group_state x) (amr_epoch x)"
  using assms(2) unfolding mls_add_member_def
  by (elim with_group_Ok) (auto simp: outcome_simps intro: save_loads(1) [OF assms(1) mls_lawsD(5) [OF assms(1)]]
      split: prod.splits)

lemma remove_member_state:
  assumes "mls_laws L" "mls_remove_member L b i r = (Ok x, r')"
  shows "loads_at L (rmr_group_state x) (rmr_epoch x)"
  using assms(2) unfolding mls_remove_member_def
  by (elim with_group_Ok) (auto simp: outcome_simps intro: save_loads(1) [OF assms(1) mls_lawsD(5) [OF assms(1)]]
      split: prod.splits)

lemma encrypt_message_state:
  assumes "mls_laws L" "mls_encrypt_message L b m r = (Ok x, r')"
  shows "loads_at L (mer_group_state x) (mer_epoch x)"
  using assms(2) unfolding mls_encrypt_message_def
  by (elim with_group_Ok) (auto simp: outcome_simps intro: save_loads(1) [OF assms(1) mls_lawsD(7) [OF assms(1)]]
      split: prod.splits)

lemma only_commit_Ok:
  "(case c of ApplicationMessage m \<Rightarrow> (Err (e1 m), s) | StagedCommitMessage w \<Rightarrow> F w
      | ProposalMessage p \<Rightarrow> (Err (e3 p), s) | ExternalJoinProposalMessage p \<Rightarrow> (Err (e4 p), s)) =
     (Ok u, t) \<longleftrightarrow> (\<exists>w. c = StagedCommitMessage w \<and> F w = (Ok u, t))"
  by (cases c) auto

lemma in_store_loads:
  assumes "mls_laws L" "in_store L g st" "save_group L g st k c = Ok b"
  shows "\<exists>n. loads_at L b n"
proof -
  from assms(2) obtain g' where "grp_load L st (grp_id L g) = Ok (Some g')" by (auto simp: in_store_def)
  with load_saved [OF mls_lawsD(1,2) [OF assms(1)] assms(3)] have "state_of L b g'" by (simp add: state_of_def)
  then show ?thesis by (auto simp: loads_at_def)
qed

lemma loaded_in_store:
  assumes "incoming_ok L" "and_then (deserialize_bundle L b) (load_group L) = Ok (g, st, k, c)"
  shows "in_store L g st"
proof -
  from assms(2) obtain i where "grp_load L st i = Ok (Some g)" by (auto simp: load_group_def outcome_simps)
  with assms(1) show ?thesis unfolding incoming_ok_def in_store_def by blast
qed

lemma incoming_keeps:
  assumes "incoming_ok L" "in_store L g st"
  shows "process_incoming L w m (g, (st, r)) = (Ok a, (g', (st', r'))) \<Longrightarrow> in_store L g' st'"
    and "grp_store_proposal L p (g, (st, r)) = (Ok u, (g', (st', r'))) \<Longrightarrow> in_store L g' st'"
proof -
  note law = assms(1) [unfolded incoming_ok_def keeps_entry_def]
  show "in_store L g' st'" if "grp_store_proposal L p (g, (st, r)) = (Ok u, (g', (st', r')))"
    using law assms(2) that by blast
  assume "process_incoming L w m (g, (st, r)) = (Ok a, (g', (st', r')))"
  then obtain pm where "grp_process_message L pm (g, (st, r)) = (Ok a, (g', (st', r')))"
    by (auto simp: process_incoming_def outcome_simps)
  with law assms(2) show "in_store L g' st'" by blast
qed

text \<open>
  The blob of a commit loads to the group the commit was merged into, the blob of any other message
  to what openmls left in the store.
\<close>

lemma decrypt_message_commit:
  assumes "mls_laws L" "and_then (deserialize_bundle L b) (load_group L) = Ok (g, st, k, c)"
    and "process_incoming L Decryption m (g, (st, r)) = (Ok (StagedCommitMessage w), s)"
    and "mls_decrypt_message L b m r = (Ok x, r')"
  shows "\<exists>n. loads_at L (dcr_group_state x) n"
proof -
  from assms(2-4) obtain u g' st' r1 where "grp_merge_staged L w s = (Ok u, (g', (st', r1)))"
    and b: "save_group L g' st' k c = Ok (dcr_group_state x)"
    by (auto simp: mls_decrypt_message_def with_group_def outcome_simps Let_def split: prod.splits)
  with mls_lawsD(6) [OF assms(1)] have "saved L g' st'" by blast
  from save_loads(1) [OF assms(1) this b] show ?thesis ..
qed

lemma decrypt_message_state:
  assumes "mls_laws L" "incoming_ok L" "mls_decrypt_message L b m r = (Ok x, r')"
  shows "\<exists>n. loads_at L (dcr_group_state x) n"
proof -
  from assms(3) obtain g st k c where load: "and_then (deserialize_bundle L b) (load_group L) = Ok (g, st, k, c)"
    unfolding mls_decrypt_message_def by (rule with_group_Ok)
  obtain y g1 st1 r1 where inc: "process_incoming L Decryption m (g, (st, r)) = (y, (g1, (st1, r1)))"
    by (metis surj_pair)
  from assms(3) load inc obtain content where y: "y = Ok content"
    by (cases y) (auto simp: mls_decrypt_message_def with_group_def)
  note kept = incoming_keeps(1) [OF assms(2) loaded_in_store [OF assms(2) load] inc [unfolded y]]
  have finished: ?thesis if "save_group L g' st' k c = Ok (dcr_group_state x)" "in_store L g' st'" for g' st'
    using in_store_loads [OF assms(1) that(2,1)] .
  have proposal: ?thesis if "and_then_st (lift_mls Mls ''store_pending_proposal: '' (grp_store_proposal L p (g1, (st1, r1))))
      (\<lambda>_ (grp, (store, r)). (and_then (save_group L grp store k c) (\<lambda>state.
         Ok \<lparr>dcr_plaintext = [], dcr_group_state = state\<rparr>), (grp, (store, r)))) = (Ok x, t)" for p t
  proof -
    from that obtain g2 st2 r2 where "grp_store_proposal L p (g1, (st1, r1)) = (Ok (), (g2, (st2, r2)))"
      "save_group L g2 st2 k c = Ok (dcr_group_state x)"
      by (auto simp: outcome_simps split: prod.splits)
    with incoming_keeps(2) [OF assms(2) kept] finished show ?thesis by blast
  qed
  from assms(3) load inc y have run: "\<exists>t. (case content of
      ApplicationMessage a \<Rightarrow> (and_then (save_group L g1 st1 k c) (\<lambda>state.
         Ok \<lparr>dcr_plaintext = a, dcr_group_state = state\<rparr>), (g1, (st1, r1)))
    | StagedCommitMessage w \<Rightarrow> (Ok x, t)
    | ProposalMessage p \<Rightarrow> and_then_st (lift_mls Mls ''store_pending_proposal: '' (grp_store_proposal L p (g1, (st1, r1))))
      (\<lambda>_ (grp, (store, r)). (and_then (save_group L grp store k c) (\<lambda>state.
         Ok \<lparr>dcr_plaintext = [], dcr_group_state = state\<rparr>), (grp, (store, r))))
    | ExternalJoinProposalMessage p \<Rightarrow> and_then_st (lift_mls Mls ''store_pending_proposal: '' (grp_store_proposal L p (g1, (st1, r1))))
      (\<lambda>_ (grp, (store, r)). (and_then (save_group L grp store k c) (\<lambda>state.
         Ok \<lparr>dcr_plaintext = [], dcr_group_state = state\<rparr>), (grp, (store, r))))) = (Ok x, t)"
    by (cases content) (auto simp: mls_decrypt_message_def with_group_def Let_def split: prod.splits)
  show ?thesis
  proof (cases content)
    case (ApplicationMessage a)
    with run have "save_group L g1 st1 k c = Ok (dcr_group_state x)" by (auto simp: outcome_simps)
    then show ?thesis using kept by (rule finished)
  next
    case (StagedCommitMessage w)
    with decrypt_message_commit [OF assms(1) load _ assms(3)] inc y show ?thesis by blast
  qed (use run proposal in auto)
qed

lemma process_commit_state:
  assumes "mls_laws L" "mls_process_commit L b m r = (Ok x, r')"
  shows "loads_at L (pcr_group_state x) (pcr_epoch x)"
  using assms(2) unfolding mls_process_commit_def
  by (elim with_group_Ok) (auto simp: outcome_simps only_commit_Ok intro: save_loads(1) [OF assms(1) mls_lawsD(6) [OF assms(1)]]
      split: prod.splits)

section \<open>Properties\<close>

text \<open>
  The key store survives its text form: encoding every key and value of the in-memory store
  in base64, and decoding the result into an empty store, gives the same store.
\<close>
theorem key_store_roundtrip:
  assumes "b64_ok L"
  shows "provider_from_store L (snapshot_store L values) = (Ok values :: mls_store result)"
  using assms by (rule restore_snapshot)

lemma key_store_roundtrip_witness:
  "provider_from_store demo_mls (snapshot_store demo_mls (fmupd [1, 2] [3] (fmupd [] [255] fmempty))) =
     (Ok (fmupd [1, 2] [3] (fmupd [] [255] fmempty)) :: mls_store result)"
  by (rule key_store_roundtrip [OF mls_lawsD(1) [OF demo_mls_laws]])

section \<open>Incoming messages\<close>

text \<open>
  What \<open>decrypt_message\<close> returns as plaintext is the application data of the message, and the
  empty string for a commit or a proposal: an application message with empty data and a
  membership change give the caller the same answer.
\<close>
theorem decrypt_plaintext:
  assumes "and_then (deserialize_bundle L b) (load_group L) = Ok (g, st, k, c)"
    and "process_incoming L Decryption m (g, (st, r)) = (Ok content, s)"
    and "mls_decrypt_message L b m r = (Ok x, r')"
  shows "dcr_plaintext x = (case content of ApplicationMessage p \<Rightarrow> p | _ \<Rightarrow> [])"
proof (cases content)
  case (ApplicationMessage p)
  with assms show ?thesis
    by (auto simp: mls_decrypt_message_def with_group_def outcome_simps Let_def split: prod.splits)
next
  case (StagedCommitMessage w)
  with assms show ?thesis
    by (auto simp: mls_decrypt_message_def with_group_def outcome_simps Let_def split: prod.splits)
next
  case (ProposalMessage p)
  with assms show ?thesis
    by (auto simp: mls_decrypt_message_def with_group_def outcome_simps Let_def split: prod.splits)
next
  case (ExternalJoinProposalMessage p)
  with assms show ?thesis
    by (auto simp: mls_decrypt_message_def with_group_def outcome_simps Let_def split: prod.splits)
qed

text \<open>A saved state of the demonstration group, at epoch \<open>n\<close>.\<close>

definition demo_state :: "u64 \<Rightarrow> bytes" where
  "demo_state n = bundle_bytes \<lparr>gb_store = snapshot_store demo_mls (put_group n fmempty),
     gb_signer = [1], gb_credential_with_key = [2], gb_group_id = [7]\<rparr>"

lemma demo_state_loads:
  "and_then (deserialize_bundle demo_mls (demo_state n)) (load_group demo_mls) =
     Ok (n, put_group n fmempty, [1], [2])"
proof -
  have "save_group demo_mls n (put_group n fmempty) [1] [2] = Ok (demo_state n)"
    by (simp add: save_group_def demo_state_def serialize_bundle_def ser_err_def)
      (simp add: demo_mls_def)
  moreover have "saved demo_mls n (put_group n fmempty)"
    by (simp add: saved_def demo_mls_def)
  ultimately show ?thesis
    by (rule load_saved_group [OF mls_lawsD(1,2) [OF demo_mls_laws]])
qed

lemma demo_incoming: "process_incoming demo_mls w m s = (Ok (demo_content m), s)"
  by (simp add: process_incoming_def deserialize_mls_message_def demo_mls_fields lift_mls_def)

lemma demo_decrypts:
  assumes "m = [1, 104, 105] \<or> m = [2, 9]"
  shows "\<exists>x r'. mls_decrypt_message demo_mls (demo_state 4) m (\<lambda>_. 0) = (Ok x, r')"
  using assms
  by (auto simp: mls_decrypt_message_def with_group_def demo_state_loads demo_incoming demo_content_def
      save_group_def serialize_bundle_def ser_err_def lift_mls_def demo_mls_fields bump_def)

lemma decrypt_plaintext_witness:
  "(\<exists>x. fst (mls_decrypt_message demo_mls (demo_state 4) [1, 104, 105] (\<lambda>_. 0)) = Ok x \<and>
      dcr_plaintext x = [104, 105]) \<and>
   (\<exists>x. fst (mls_decrypt_message demo_mls (demo_state 4) [2, 9] (\<lambda>_. 0)) = Ok x \<and> dcr_plaintext x = [])"
proof -
  from demo_decrypts [of "[1, 104, 105]"] demo_decrypts [of "[2, 9]"] obtain x r1 y r2 where
    "mls_decrypt_message demo_mls (demo_state 4) [1, 104, 105] (\<lambda>_. 0) = (Ok x, r1)"
    "mls_decrypt_message demo_mls (demo_state 4) [2, 9] (\<lambda>_. 0) = (Ok y, r2)"
    by blast
  with decrypt_plaintext [OF demo_state_loads demo_incoming, of 4 "[1, 104, 105]" "\<lambda>_. 0" x r1]
    decrypt_plaintext [OF demo_state_loads demo_incoming, of 4 "[2, 9]" "\<lambda>_. 0" y r2]
  show ?thesis by (simp add: demo_content_def)
qed

section \<open>Every state returned\<close>

text \<open>
  C37. Every successful operation of the wrapper returns a state that loads again: to a group with
  exactly the epoch, and for a new or joined group the identifier, reported beside it. The state
  returned by decrypting, which reports no epoch, loads too: for a commit because merging it writes
  the group through, for any other message if openmls, when it processes a message or keeps a
  proposal, does not lose the group from its store.
\<close>
theorem states_load_again:
  assumes "mls_laws L"
  shows "(\<forall>ident r x r'. mls_create_group L ident r = (Ok x, r') \<longrightarrow>
      loads_as L (cgr_group_state x) (cgr_group_id x) (cgr_epoch x)) \<and>
    (\<forall>w b r x r'. mls_process_welcome L w b r = (Ok x, r') \<longrightarrow>
      loads_as L (pwr_group_state x) (pwr_group_id x) (pwr_epoch x)) \<and>
    (\<forall>b kp r x r'. mls_add_member L b kp r = (Ok x, r') \<longrightarrow> loads_at L (amr_group_state x) (amr_epoch x)) \<and>
    (\<forall>b i r x r'. mls_remove_member L b i r = (Ok x, r') \<longrightarrow> loads_at L (rmr_group_state x) (rmr_epoch x)) \<and>
    (\<forall>b m r x r'. mls_encrypt_message L b m r = (Ok x, r') \<longrightarrow> loads_at L (mer_group_state x) (mer_epoch x)) \<and>
    (\<forall>b m r x r'. mls_process_commit L b m r = (Ok x, r') \<longrightarrow> loads_at L (pcr_group_state x) (pcr_epoch x)) \<and>
    (\<forall>b m r x r' g st k c w s. mls_decrypt_message L b m r = (Ok x, r') \<longrightarrow>
      and_then (deserialize_bundle L b) (load_group L) = Ok (g, st, k, c) \<longrightarrow>
      process_incoming L Decryption m (g, (st, r)) = (Ok (StagedCommitMessage w), s) \<longrightarrow>
      (\<exists>n. loads_at L (dcr_group_state x) n)) \<and>
    (incoming_ok L \<longrightarrow> (\<forall>b m r x r'. mls_decrypt_message L b m r = (Ok x, r') \<longrightarrow>
      (\<exists>n. loads_at L (dcr_group_state x) n)))"
  using create_group_state [OF assms] welcome_state [OF assms] add_member_state [OF assms]
    remove_member_state [OF assms] encrypt_message_state [OF assms] process_commit_state [OF assms]
    decrypt_message_commit [OF assms] decrypt_message_state [OF assms]
  by simp

lemma demo_create:
  obtains x r' where "mls_create_group demo_mls [65] (\<lambda>i. of_nat i) = (Ok x, r')" "cgr_epoch x = 0"
  by (simp add: mls_create_group_def new_signer_def demo_mls_def draw_bytes_def lift_mls_def save_group_def
      serialize_bundle_def ser_err_def)

lemma states_load_again_witness:
  "(\<exists>x. fst (mls_create_group demo_mls [65] (\<lambda>i. of_nat i)) = Ok x \<and>
     loads_as demo_mls (cgr_group_state x) (cgr_group_id x) 0) \<and>
   (\<exists>x n. fst (mls_decrypt_message demo_mls (demo_state 4) [1, 104, 105] (\<lambda>_. 0)) = Ok x \<and>
     loads_at demo_mls (dcr_group_state x) n)"
proof -
  note all = states_load_again [OF demo_mls_laws]
  obtain x r' where run: "mls_create_group demo_mls [65] (\<lambda>i. of_nat i) = (Ok x, r')" "cgr_epoch x = 0"
    by (rule demo_create)
  obtain y r2 where dec: "mls_decrypt_message demo_mls (demo_state 4) [1, 104, 105] (\<lambda>_. 0) = (Ok y, r2)"
    using demo_decrypts [of "[1, 104, 105]"] by blast
  from all run have "loads_as demo_mls (cgr_group_state x) (cgr_group_id x) 0" by metis
  moreover from all demo_incoming_ok dec have "\<exists>n. loads_at demo_mls (dcr_group_state y) n" by blast
  ultimately show ?thesis using run dec by auto
qed

section \<open>Commits only\<close>

text \<open>
  \<open>process_commit\<close> accepts commits only: an application message or a proposal is an error of the
  MLS kind that names what was received, and no new state is returned.
\<close>
theorem commit_required:
  assumes "and_then (deserialize_bundle L b) (load_group L) = Ok (g, st, k, c)"
    and "process_incoming L Mls m (g, (st, r)) = (Ok content, (g', (st', r')))"
    and "\<And>w. content \<noteq> StagedCommitMessage w"
  shows "mls_process_commit L b m r =
    (Err (Mls (''expected a commit message, got: '' @ content_debug L content)), r')"
  using assms by (cases content) (auto simp: mls_process_commit_def with_group_def)

lemma commit_required_witness:
  "fst (mls_process_commit demo_mls (demo_state 4) [1, 104] (\<lambda>_. 0)) =
     Err (Mls (''expected a commit message, got: '' @ ''content''))"
proof -
  have "process_incoming demo_mls Mls [1, 104] (4, (put_group 4 fmempty, \<lambda>_. 0)) =
      (Ok (ApplicationMessage [104]), (4, (put_group 4 fmempty, \<lambda>_. 0)))"
    by (simp add: demo_incoming demo_content_def)
  from commit_required [OF demo_state_loads this] show ?thesis by (simp add: demo_mls_fields)
qed

section \<open>Damaged states\<close>

lemma restore_entries_bad:
  "(s, t) \<in> set xs \<Longrightarrow> b64_decode L s = None \<or> b64_decode L t = None \<Longrightarrow>
     restore_entries L xs st = Panic"
  by (induction L xs st rule: restore_entries.induct) (auto split: option.splits)

lemma load_bad_base64:
  assumes "bundle_from_json L b = Ok bundle" "fmlookup (gb_store bundle) s = Some t"
    and "b64_decode L s = None \<or> b64_decode L t = None"
  shows "and_then (deserialize_bundle L b) (load_group L) = Panic"
proof -
  have "(s, t) \<in> set (sorted_list_of_fmap (gb_store bundle))"
    using assms(2) by (simp add: sorted_list_of_fmap_lookup)
  then have "provider_from_store L (gb_store bundle) = (Panic :: mls_store result)"
    unfolding provider_from_store_def restore_store_def using assms(3) by (rule restore_entries_bad)
  with assms(1) show ?thesis by (simp add: deserialize_bundle_def ser_err_def load_group_def)
qed

text \<open>
  C40. A stored state in which one key or value of the key store is not base64 makes every
  operation on it panic, although each of them is declared to return an error for a state it
  cannot read.
\<close>
theorem bad_base64_panics:
  assumes "bundle_from_json L b = Ok bundle" and "fmlookup (gb_store bundle) s = Some t"
    and "b64_decode L s = None \<or> b64_decode L t = None"
  shows "mls_add_member L b kp r = (Panic, r) \<and> mls_remove_member L b i r = (Panic, r) \<and>
    mls_encrypt_message L b m r = (Panic, r) \<and> mls_decrypt_message L b m r = (Panic, r) \<and>
    mls_process_commit L b m r = (Panic, r)"
  by (simp add: mls_add_member_def mls_remove_member_def mls_encrypt_message_def
      mls_decrypt_message_def mls_process_commit_def with_group_def load_bad_base64 [OF assms])

lemma bad_base64_panics_witness:
  "fst (mls_encrypt_message (demo_mls\<lparr>b64_decode := \<lambda>s. if s = ''!'' then None else Some (unchars s)\<rparr>)
     (bundle_bytes \<lparr>gb_store = fmupd ''A'' ''!'' fmempty, gb_signer = [1],
        gb_credential_with_key = [2], gb_group_id = [7]\<rparr>) [104] (\<lambda>_. 0)) = Panic"
proof -
  define L where "L = demo_mls\<lparr>b64_decode := \<lambda>s. if s = ''!'' then None else Some (unchars s)\<rparr>"
  define gb where "gb = \<lparr>gb_store = fmupd ''A'' ''!'' fmempty, gb_signer = [1],
      gb_credential_with_key = [2], gb_group_id = [7]\<rparr>"
  have "bundle_from_json L (bundle_bytes gb) = Ok gb"
    by (simp add: L_def demo_mls_def bytes_bundle_bytes)
  moreover have "fmlookup (gb_store gb) ''A'' = Some ''!''" by (simp add: gb_def)
  moreover have "b64_decode L ''A'' = None \<or> b64_decode L ''!'' = None" by (simp add: L_def)
  ultimately show ?thesis
    using bad_base64_panics [of L "bundle_bytes gb" gb "''A''" "''!''" "[]" "\<lambda>_. 0" 0 "[104]"]
    unfolding L_def gb_def by simp
qed

end
