(* ===== verification/Api_Mls.thy ===== *)
theory Api_Mls
  imports Registry Mls_Properties
begin

text \<open>
  The MLS calls of \<open>src/api.rs\<close>, sections 11 to 19: each reads the state behind a handle, runs
  the wrapper on it without holding the lock, and puts the new state under a new handle. The
  state is the registry \<open>MLS_STATES\<close> with its counter, and the entropy source.
\<close>

section \<open>The calls\<close>

type_synonym mls_state = "bytes registry \<times> rng"

definition mls_read :: "u32 \<Rightarrow> bytes registry \<Rightarrow> bytes api_result" where
  "mls_read = reg_read ''MLS state'' ''MLS group''"

text \<open>
  The end every call shares: a fresh handle for the new group state, and the reply built around
  it. The reply has the fields of the FRB struct of the call.
\<close>

definition mls_store_result ::
  "bytes \<Rightarrow> (u32 \<Rightarrow> 'a) \<Rightarrow> mls_state \<Rightarrow> 'a api_result \<times> mls_state"
where
  "mls_store_result group_state mk = (\<lambda>(st, r).
     let (h, st') = reg_register ''MLS state'' group_state st in
     (and_then h (\<lambda>h. Ok (mk h)), (st', r)))"

text \<open>\<open>mls::op(..).map_err(map_err)?\<close> on an operation that draws from the random source.\<close>

definition mls_run :: "(rng \<Rightarrow> 'a result \<times> rng) \<Rightarrow> mls_state \<Rightarrow> 'a api_result \<times> mls_state" where
  "mls_run f = (\<lambda>(st, r). let (x, r') = f r in (api_map_err x, (st, r')))"

definition api_mls_generate_key_package ::
  "('g, 'k, 'c, 'i, 'o) openmls \<Rightarrow> bytes \<Rightarrow> rng \<Rightarrow> MlsKeyPackageResult api_result \<times> rng"
where
  "api_mls_generate_key_package L identity r =
     (let (x, r') = mls_generate_key_package L identity r in (api_map_err x, r'))"

record ApiCreateGroupResult =
  acg_handle :: u32
  acg_group_id :: bytes
  acg_epoch :: u64

definition api_mls_create_group ::
  "('g, 'k, 'c, 'i, 'o) openmls \<Rightarrow> bytes \<Rightarrow> mls_state \<Rightarrow> ApiCreateGroupResult api_result \<times> mls_state"
where
  "api_mls_create_group L identity s =
     and_then_st (mls_run (mls_create_group L identity) s) (\<lambda>res.
     mls_store_result (cgr_group_state res)
       (\<lambda>h. \<lparr>acg_handle = h, acg_group_id = cgr_group_id res, acg_epoch = cgr_epoch res\<rparr>))"

record ApiAddMemberResult =
  aam_handle :: u32
  aam_commit :: bytes
  aam_welcome :: bytes
  aam_epoch :: u64

definition api_mls_add_member ::
  "('g, 'k, 'c, 'i, 'o) openmls \<Rightarrow> u32 \<Rightarrow> bytes \<Rightarrow> mls_state \<Rightarrow> ApiAddMemberResult api_result \<times> mls_state"
where
  "api_mls_add_member L group_handle key_package = (\<lambda>(st, r).
     and_then_st (mls_read group_handle st, (st, r)) (\<lambda>state s.
     and_then_st (mls_run (mls_add_member L state key_package) s) (\<lambda>res.
     mls_store_result (amr_group_state res)
       (\<lambda>h. \<lparr>aam_handle = h, aam_commit = amr_commit res, aam_welcome = amr_welcome res,
             aam_epoch = amr_epoch res\<rparr>))))"

record ApiRemoveMemberResult =
  arm_handle :: u32
  arm_commit :: bytes
  arm_epoch :: u64

definition api_mls_remove_member ::
  "('g, 'k, 'c, 'i, 'o) openmls \<Rightarrow> u32 \<Rightarrow> u32 \<Rightarrow> mls_state \<Rightarrow> ApiRemoveMemberResult api_result \<times> mls_state"
where
  "api_mls_remove_member L group_handle leaf_index = (\<lambda>(st, r).
     and_then_st (mls_read group_handle st, (st, r)) (\<lambda>state s.
     and_then_st (mls_run (mls_remove_member L state leaf_index) s) (\<lambda>res.
     mls_store_result (rmr_group_state res)
       (\<lambda>h. \<lparr>arm_handle = h, arm_commit = rmr_commit res, arm_epoch = rmr_epoch res\<rparr>))))"

record ApiMlsEncryptResult =
  aer_handle :: u32
  aer_mls_ciphertext :: bytes
  aer_epoch :: u64

definition api_mls_encrypt_message ::
  "('g, 'k, 'c, 'i, 'o) openmls \<Rightarrow> u32 \<Rightarrow> bytes \<Rightarrow> mls_state \<Rightarrow> ApiMlsEncryptResult api_result \<times> mls_state"
where
  "api_mls_encrypt_message L group_handle plaintext = (\<lambda>(st, r).
     and_then_st (mls_read group_handle st, (st, r)) (\<lambda>state s.
     and_then_st (mls_run (mls_encrypt_message L state plaintext) s) (\<lambda>res.
     mls_store_result (mer_group_state res)
       (\<lambda>h. \<lparr>aer_handle = h, aer_mls_ciphertext = mer_mls_ciphertext res, aer_epoch = mer_epoch res\<rparr>))))"

record ApiMlsDecryptResult =
  adr_handle :: u32
  adr_plaintext :: bytes

definition api_mls_decrypt_message ::
  "('g, 'k, 'c, 'i, 'o) openmls \<Rightarrow> u32 \<Rightarrow> bytes \<Rightarrow> mls_state \<Rightarrow> ApiMlsDecryptResult api_result \<times> mls_state"
where
  "api_mls_decrypt_message L group_handle mls_message = (\<lambda>(st, r).
     and_then_st (mls_read group_handle st, (st, r)) (\<lambda>state s.
     and_then_st (mls_run (mls_decrypt_message L state mls_message) s) (\<lambda>res.
     mls_store_result (dcr_group_state res)
       (\<lambda>h. \<lparr>adr_handle = h, adr_plaintext = dcr_plaintext res\<rparr>))))"

record ApiProcessWelcomeResult =
  apw_handle :: u32
  apw_group_id :: bytes
  apw_epoch :: u64

definition api_mls_process_welcome ::
  "('g, 'k, 'c, 'i, 'o) openmls \<Rightarrow> bytes \<Rightarrow> bytes \<Rightarrow> mls_state \<Rightarrow> ApiProcessWelcomeResult api_result \<times> mls_state"
where
  "api_mls_process_welcome L welcome secret_bundle s =
     and_then_st (mls_run (mls_process_welcome L welcome secret_bundle) s) (\<lambda>res.
     mls_store_result (pwr_group_state res)
       (\<lambda>h. \<lparr>apw_handle = h, apw_group_id = pwr_group_id res, apw_epoch = pwr_epoch res\<rparr>))"

record ApiProcessCommitResult =
  apc_handle :: u32
  apc_epoch :: u64

definition api_mls_process_commit ::
  "('g, 'k, 'c, 'i, 'o) openmls \<Rightarrow> u32 \<Rightarrow> bytes \<Rightarrow> mls_state \<Rightarrow> ApiProcessCommitResult api_result \<times> mls_state"
where
  "api_mls_process_commit L group_handle commit = (\<lambda>(st, r).
     and_then_st (mls_read group_handle st, (st, r)) (\<lambda>state s.
     and_then_st (mls_run (mls_process_commit L state commit) s) (\<lambda>res.
     mls_store_result (pcr_group_state res) (\<lambda>h. \<lparr>apc_handle = h, apc_epoch = pcr_epoch res\<rparr>))))"

definition mls_destroy_state :: "u32 \<Rightarrow> mls_state \<Rightarrow> bool \<times> mls_state" where
  "mls_destroy_state group_handle = (\<lambda>(st, r).
     let (b, st') = reg_remove group_handle st in (b, (st', r)))"

section \<open>The calls as one component\<close>

datatype mls_op =
    MlsCreate bytes
  | MlsAdd u32 bytes
  | MlsRemove u32 u32
  | MlsEncrypt u32 bytes
  | MlsDecrypt u32 bytes
  | MlsWelcome bytes bytes
  | MlsCommit u32 bytes
  | MlsDestroy u32

datatype mls_reply = Stored u32 | MlsFailed string | MlsPanic | MlsGone bool

text \<open>What the caller learns of the store: the handle of the new state, or why there is none.\<close>

fun reply_of :: "('a \<Rightarrow> u32) \<Rightarrow> 'a api_result \<times> mls_state \<Rightarrow> mls_reply \<times> mls_state" where
  "reply_of f (Ok x, s) = (Stored (f x), s)"
| "reply_of f (Err e, s) = (MlsFailed e, s)"
| "reply_of f (Panic, s) = (MlsPanic, s)"

fun mls_call :: "('g, 'k, 'c, 'i, 'o) openmls \<Rightarrow> mls_op \<Rightarrow> mls_state \<Rightarrow> mls_reply \<times> mls_state" where
  "mls_call L (MlsCreate i) s = reply_of acg_handle (api_mls_create_group L i s)"
| "mls_call L (MlsAdd h kp) s = reply_of aam_handle (api_mls_add_member L h kp s)"
| "mls_call L (MlsRemove h i) s = reply_of arm_handle (api_mls_remove_member L h i s)"
| "mls_call L (MlsEncrypt h m) s = reply_of aer_handle (api_mls_encrypt_message L h m s)"
| "mls_call L (MlsDecrypt h m) s = reply_of adr_handle (api_mls_decrypt_message L h m s)"
| "mls_call L (MlsWelcome w b) s = reply_of apw_handle (api_mls_process_welcome L w b s)"
| "mls_call L (MlsCommit h m) s = reply_of apc_handle (api_mls_process_commit L h m s)"
| "mls_call L (MlsDestroy h) s = (let (b, s') = mls_destroy_state h s in (MlsGone b, s'))"

section \<open>What the calls leave of the store\<close>

lemma mls_run_state: "mls_run f (st, r) = (x, (st', r')) \<Longrightarrow> st' = st"
  by (auto simp: mls_run_def split: prod.splits)

lemma mls_store_result_cases:
  assumes "mls_store_result b mk (st, r) = (x, (st', r'))"
  shows "reg_register ''MLS state'' b st = ((if reg_poisoned st then
        Err (''MLS state'' @ '' lock poisoned: '' @ poison_text) else Ok (reg_next st)), st')"
    and "x = (if reg_poisoned st then Err (''MLS state'' @ '' lock poisoned: '' @ poison_text)
        else Ok (mk (reg_next st)))" "r' = r"
  using assms by (auto simp: mls_store_result_def reg_register_def reg_alloc_def Let_def split: if_splits)

text \<open>A call that runs an operation and stores its result: it registers one state or none.\<close>

lemma run_and_store:
  assumes "and_then_st (mls_run f (st, r)) (\<lambda>res. mls_store_result (B res) (M res)) = (x, (st', r'))"
  shows "st' = st \<and> \<not> is_ok x \<or>
    (\<exists>res. (Ok res, r') = f r \<and> reg_register ''MLS state'' (B res) st = ((if reg_poisoned st then
        Err (''MLS state'' @ '' lock poisoned: '' @ poison_text) else Ok (reg_next st)), st') \<and>
      x = (if reg_poisoned st then Err (''MLS state'' @ '' lock poisoned: '' @ poison_text)
        else Ok (M res (reg_next st))))"
proof -
  obtain y g where f: "f r = (y, g)" by fastforce
  then have run: "mls_run f (st, r) = (api_map_err y, (st, g))" by (simp add: mls_run_def)
  show ?thesis
  proof (cases y)
    case (Ok res)
    with assms run have "mls_store_result (B res) (M res) (st, g) = (x, (st', r'))"
      by (simp add: api_map_err_def)
    from mls_store_result_cases [OF this] f Ok show ?thesis by (intro disjI2 exI [of _ res]) simp
  qed (use assms run in \<open>auto simp: api_map_err_def\<close>)
qed

lemma read_and_store:
  assumes "and_then_st (mls_read h st, (st, r)) (\<lambda>b s. and_then_st (mls_run (F b) s)
      (\<lambda>res. mls_store_result (B res) (M res))) = (x, (st', r'))"
  shows "st' = st \<and> \<not> is_ok x \<or>
    (\<exists>b res. \<not> reg_poisoned st \<and> reg_entry h st = Some b \<and> (Ok res, r') = F b r \<and>
      reg_register ''MLS state'' (B res) st = (Ok (reg_next st), st') \<and> x = Ok (M res (reg_next st)))"
proof (cases "mls_read h st")
  case (Ok b)
  then have b: "\<not> reg_poisoned st" "reg_entry h st = Some b"
    by (auto simp: mls_read_def reg_read_def reg_entry_def outcome_simps split: if_splits)
  have "and_then_st (mls_run (F b) (st, r)) (\<lambda>res. mls_store_result (B res) (M res)) = (x, (st', r'))"
    using assms Ok by simp
  from run_and_store [OF this] b show ?thesis by auto
qed (use assms in auto)

text \<open>
  The three effects a call can have on the store: none, a new entry under the next handle, an
  entry removed; and a spent handle when the lock was poisoned.
\<close>

datatype effect = Idle | Stores bytes | Removes u32

fun effect_on :: "effect \<Rightarrow> bytes registry \<Rightarrow> bytes registry \<Rightarrow> bool" where
  "effect_on Idle st st' \<longleftrightarrow> st' = st"
| "effect_on (Stores b) st st' \<longleftrightarrow> (\<exists>x. reg_register ''MLS state'' b st = (x, st'))"
| "effect_on (Removes h) st st' \<longleftrightarrow> (\<exists>b. reg_remove h st = (b, st'))"

fun destroys :: "mls_op \<Rightarrow> u32 option" where
  "destroys (MlsDestroy h) = Some h"
| "destroys _ = None"

lemma reply_of_effect:
  assumes "reply_of f (x, (st1, r1)) = (reply, (st', r'))"
    and "st1 = st \<and> \<not> is_ok x \<or> (\<exists>b y. reg_register ''MLS state'' b st = (y, st1) \<and>
      (\<forall>v. x = Ok v \<longrightarrow> y = Ok (f v)))"
  shows "\<exists>e. effect_on e st st' \<and> (\<forall>h. e \<noteq> Removes h) \<and>
    (\<forall>h. reply = Stored h \<longrightarrow> \<not> reg_poisoned st \<and> h = reg_next st \<and> e \<noteq> Idle)"
  using assms(2)
proof (elim disjE exE conjE)
  assume "st1 = st" "\<not> is_ok x"
  with assms(1) show ?thesis by (intro exI [of _ Idle]) (cases x; auto)
next
  fix b y
  assume b: "reg_register ''MLS state'' b st = (y, st1)" "\<forall>v. x = Ok v \<longrightarrow> y = Ok (f v)"
  with assms(1) reg_register_entry(5) [OF b(1)] show ?thesis
    by (intro exI [of _ "Stores b"]) (cases x; auto)
qed

lemma run_effect:
  assumes "reply_of f (and_then_st (mls_run g (st, r)) (\<lambda>res. mls_store_result (B res) (M res))) = (reply, (st', r'))"
    and "\<And>res h. f (M res h) = h"
  shows "\<exists>e. effect_on e st st' \<and> (\<forall>h. e \<noteq> Removes h) \<and>
    (\<forall>h. reply = Stored h \<longrightarrow> \<not> reg_poisoned st \<and> h = reg_next st \<and> e \<noteq> Idle)"
proof -
  obtain x st1 r1 where run:
    "and_then_st (mls_run g (st, r)) (\<lambda>res. mls_store_result (B res) (M res)) = (x, (st1, r1))"
    by (rule prod_cases3)
  from run_and_store [OF run] show ?thesis
  proof (elim disjE exE conjE)
    assume "st1 = st" "\<not> is_ok x"
    then have idle: "st1 = st \<and> \<not> is_ok x" by blast
    show ?thesis
      by (rule reply_of_effect [OF assms(1) [unfolded run]], rule disjI1, rule idle)
  next
    fix res assume reg: "reg_register ''MLS state'' (B res) st = ((if reg_poisoned st then
        Err (''MLS state'' @ '' lock poisoned: '' @ poison_text) else Ok (reg_next st)), st1)"
      "x = (if reg_poisoned st then Err (''MLS state'' @ '' lock poisoned: '' @ poison_text)
        else Ok (M res (reg_next st)))"
    show ?thesis
      by (rule reply_of_effect [OF assms(1) [unfolded run]], rule disjI2, intro exI conjI, rule reg(1))
        (simp add: reg(2) assms(2))
  qed
qed

lemma read_effect:
  assumes "reply_of f (and_then_st (mls_read h st, (st, r)) (\<lambda>b s. and_then_st (mls_run (F b) s)
      (\<lambda>res. mls_store_result (B res) (M res)))) = (reply, (st', r'))"
    and "\<And>res h. f (M res h) = h"
  shows "\<exists>e. effect_on e st st' \<and> (\<forall>h. e \<noteq> Removes h) \<and>
    (\<forall>h. reply = Stored h \<longrightarrow> \<not> reg_poisoned st \<and> h = reg_next st \<and> e \<noteq> Idle)"
proof -
  obtain x st1 r1 where run: "and_then_st (mls_read h st, (st, r)) (\<lambda>b s. and_then_st (mls_run (F b) s)
      (\<lambda>res. mls_store_result (B res) (M res))) = (x, (st1, r1))"
    by (rule prod_cases3)
  from read_and_store [OF run] show ?thesis
  proof (elim disjE exE conjE)
    assume "st1 = st" "\<not> is_ok x"
    then have idle: "st1 = st \<and> \<not> is_ok x" by blast
    show ?thesis
      by (rule reply_of_effect [OF assms(1) [unfolded run]], rule disjI1, rule idle)
  next
    fix b res assume reg: "reg_register ''MLS state'' (B res) st = (Ok (reg_next st), st1)"
      "x = Ok (M res (reg_next st))"
    show ?thesis
      by (rule reply_of_effect [OF assms(1) [unfolded run]], rule disjI2, intro exI conjI, rule reg(1))
        (simp add: reg(2) assms(2))
  qed
qed

lemma mls_call_effect:
  assumes "mls_call L op (st, r) = (reply, (st', r'))"
  shows "\<exists>e. effect_on e st st' \<and> (\<forall>h. e = Removes h \<longrightarrow> destroys op = Some h) \<and>
    (\<forall>h. reply = Stored h \<longrightarrow> \<not> reg_poisoned st \<and> h = reg_next st \<and> e \<noteq> Idle)"
proof (cases op)
  case (MlsCreate i)
  from run_effect [OF assms [unfolded MlsCreate mls_call.simps api_mls_create_group_def]]
  show ?thesis by (auto simp: MlsCreate)
next
  case (MlsAdd h kp)
  from read_effect [OF assms [unfolded MlsAdd mls_call.simps api_mls_add_member_def prod.case]]
  show ?thesis by (auto simp: MlsAdd)
next
  case (MlsRemove h i)
  from read_effect [OF assms [unfolded MlsRemove mls_call.simps api_mls_remove_member_def prod.case]]
  show ?thesis by (auto simp: MlsRemove)
next
  case (MlsEncrypt h m)
  from read_effect [OF assms [unfolded MlsEncrypt mls_call.simps api_mls_encrypt_message_def prod.case]]
  show ?thesis by (auto simp: MlsEncrypt)
next
  case (MlsDecrypt h m)
  from read_effect [OF assms [unfolded MlsDecrypt mls_call.simps api_mls_decrypt_message_def prod.case]]
  show ?thesis by (auto simp: MlsDecrypt)
next
  case (MlsWelcome w b)
  from run_effect [OF assms [unfolded MlsWelcome mls_call.simps api_mls_process_welcome_def]]
  show ?thesis by (auto simp: MlsWelcome)
next
  case (MlsCommit h m)
  from read_effect [OF assms [unfolded MlsCommit mls_call.simps api_mls_process_commit_def prod.case]]
  show ?thesis by (auto simp: MlsCommit)
next
  case (MlsDestroy h)
  with assms obtain b where "reg_remove h st = (b, st')" "reply = MlsGone b"
    by (auto simp: mls_destroy_state_def split: prod.splits)
  then show ?thesis by (intro exI [of _ "Removes h"]) (simp add: MlsDestroy)
qed

lemma effect_poison: "effect_on e st st' \<Longrightarrow> reg_poisoned st' = reg_poisoned st"
  by (cases e) (auto simp: reg_register_entry(3) reg_remove_def split: if_splits)

interpretation mls: component "mls_call L" "\<lambda>s. \<not> reg_poisoned (fst s)" for L
proof
  fix s s' :: mls_state and op reply
  assume "\<not> reg_poisoned (fst s)" "mls_call L op s = (reply, s')"
  then show "\<not> reg_poisoned (fst s')"
    using mls_call_effect [of L op "fst s" "snd s" reply "fst s'" "snd s'"] effect_poison by auto
qed

section \<open>Properties\<close>

text \<open>
  No sequence of MLS calls poisons the MLS store, the calls that panic on a damaged state
  included: no call holds the lock while openmls or the decoding of a state runs.
\<close>
theorem mls_store_never_poisoned:
  assumes "run_calls (mls_call L) ops (reg_empty, r) = (replies, (st, r'))"
  shows "\<not> reg_poisoned st"
  using mls.run_inv [OF _ assms] by (simp add: reg_empty_def)

lemma mls_store_never_poisoned_witness:
  "\<not> reg_poisoned (fst (snd (run_calls (mls_call demo_mls) [MlsCreate [65], MlsEncrypt 1 [104], MlsDestroy 1]
     (reg_empty, \<lambda>_. 0))))"
proof -
  obtain replies st r where run: "run_calls (mls_call demo_mls)
      [MlsCreate [65], MlsEncrypt 1 [104], MlsDestroy 1] (reg_empty, \<lambda>_. 0) = (replies, st, r)"
    by (rule prod_cases3)
  from mls_store_never_poisoned [OF run] show ?thesis unfolding run by simp
qed

lemma effect_keeps:
  assumes "effect_on e st st'" "handles_below st" "unat (reg_next st) + 1 < 2 ^ 32"
  shows "handles_below st'" "unat (reg_next st') \<le> Suc (unat (reg_next st))"
    "reg_entry j st = Some b \<Longrightarrow> e \<noteq> Removes j \<Longrightarrow> reg_entry j st' = Some b"
proof -
  have "handles_below st' \<and> unat (reg_next st') \<le> Suc (unat (reg_next st)) \<and>
    (reg_entry j st = Some b \<longrightarrow> e \<noteq> Removes j \<longrightarrow> reg_entry j st' = Some b)"
  proof (cases e)
    case (Stores c)
    with assms(1) obtain x where "reg_register ''MLS state'' c st = (x, st')" by auto
    note reg = reg_register_entry(1,2) [OF this]
    from reg(2) unat_next [OF assms(3)] have "unat (reg_next st') = Suc (unat (reg_next st))" by simp
    with assms(2) reg(1) show ?thesis by (auto simp: handles_below_def less_Suc_eq)
  next
    case (Removes h)
    with assms(1,2) show ?thesis
      by (auto simp: reg_remove_def handles_below_def reg_entry_def split: if_splits)
  qed (use assms in simp)
  then show "handles_below st'" "unat (reg_next st') \<le> Suc (unat (reg_next st))"
    "reg_entry j st = Some b \<Longrightarrow> e \<noteq> Removes j \<Longrightarrow> reg_entry j st' = Some b"
    by blast+
qed

text \<open>
  A group state stays behind its handle until that handle is destroyed: no later MLS call,
  made with this handle or another, replaces or removes it, so each call that succeeds on a
  group leaves the state from before it in the store as well.
\<close>
theorem mls_states_kept:
  assumes "reg_entry j st = Some b" and "handles_below st" and "unat (reg_next st) + length ops < 2 ^ 32"
    and "list_all (\<lambda>op. destroys op \<noteq> Some j) ops"
    and "run_calls (mls_call L) ops (st, r) = (replies, (st', r'))"
  shows "reg_entry j st' = Some b"
  using assms
proof (induction ops arbitrary: st r replies)
  case (Cons op ops)
  obtain reply t g where first: "mls_call L op (st, r) = (reply, t, g)" by (rule prod_cases3)
  obtain rs where rest: "run_calls (mls_call L) ops (t, g) = (rs, (st', r'))"
    using Cons.prems(5) first by (auto simp: Let_def split: prod.splits)
  obtain e where e: "effect_on e st t" "\<forall>h. e = Removes h \<longrightarrow> destroys op = Some h"
    using mls_call_effect [OF first] by blast
  have room: "unat (reg_next st) + 1 < 2 ^ 32" using Cons.prems(3) by simp
  note keep = effect_keeps [OF e(1) Cons.prems(2) room]
  have "e \<noteq> Removes j" using e(2) Cons.prems(4) by auto
  with keep(3) Cons.prems(1) have "reg_entry j t = Some b" by blast
  moreover have "unat (reg_next t) + length ops < 2 ^ 32" using keep(2) Cons.prems(3) by simp
  ultimately show ?case
    using Cons.IH [OF _ keep(1) _ _ rest] Cons.prems(4) by simp
qed simp

lemma mls_states_kept_witness:
  "reg_entry 1 (fst (snd (run_calls (mls_call demo_mls) [MlsEncrypt 1 [104], MlsCommit 1 [2], MlsDestroy 2]
     (reg_single (demo_state 4), \<lambda>_. 0)))) = Some (demo_state 4)"
proof -
  define ops where "ops = [MlsEncrypt 1 [104], MlsCommit 1 [2], MlsDestroy 2]"
  obtain replies st r where run: "run_calls (mls_call demo_mls) ops (reg_single (demo_state 4), \<lambda>_. 0) = (replies, st, r)"
    by (rule prod_cases3)
  have "reg_entry 1 st = Some (demo_state 4)"
    by (rule mls_states_kept [OF reg_single_facts(1,2) _ _ run]) (simp_all add: reg_single_facts(3) ops_def)
  with run show ?thesis by (simp add: ops_def del: run_calls.simps)
qed

text \<open>
  C38. Encrypting does not retire the handle it was called with: after a successful call the old
  handle still holds the state from before, the new state is under a new handle, and a second
  call with the old handle encrypts from the same group state as the first.
\<close>
theorem stale_handle_encrypts_again:
  assumes "handles_below st" and "reg_entry h st = Some b"
    and "api_mls_encrypt_message L h m (st, r) = (Ok res, (st', r'))"
  shows "\<exists>x. mls_encrypt_message L b m r = (Ok x, r') \<and> aer_handle res \<noteq> h \<and>
    reg_entry (aer_handle res) st' = Some (mer_group_state x) \<and> reg_entry h st' = Some b \<and>
    (\<forall>m2 g y g'. mls_encrypt_message L b m2 g = (Ok y, g') \<longrightarrow>
      (\<exists>s res2. api_mls_encrypt_message L h m2 (st', g) = (Ok res2, (s, g')) \<and>
        aer_mls_ciphertext res2 = mer_mls_ciphertext y))"
proof -
  from read_and_store [OF assms(3) [unfolded api_mls_encrypt_message_def prod.case]] assms(2)
  obtain x where x: "\<not> reg_poisoned st" "(Ok x, r') = mls_encrypt_message L b m r"
    "reg_register ''MLS state'' (mer_group_state x) st = (Ok (reg_next st), st')"
    "res = \<lparr>aer_handle = reg_next st, aer_mls_ciphertext = mer_mls_ciphertext x, aer_epoch = mer_epoch x\<rparr>"
    by auto
  have ne: "h \<noteq> reg_next st" using assms(1,2) by (auto simp: handles_below_def)
  have st': "reg_entry (reg_next st) st' = Some (mer_group_state x)" "reg_entry h st' = Some b"
    "\<not> reg_poisoned st'"
    using reg_register_entry(1,3) [OF x(3)] x(1) ne assms(2) by auto
  have "\<exists>s res2. api_mls_encrypt_message L h m2 (st', g) = (Ok res2, (s, g')) \<and>
      aer_mls_ciphertext res2 = mer_mls_ciphertext y"
    if "mls_encrypt_message L b m2 g = (Ok y, g')" for m2 g y g'
    using st'(2,3) that
    by (simp add: api_mls_encrypt_message_def mls_read_def reg_read_def reg_entry_def mls_run_def
        api_map_err_def mls_store_result_def reg_register_def reg_alloc_def Let_def)
  with x(2,4) st'(1,2) ne show ?thesis by (intro exI [of _ x]) auto
qed

lemma demo_encrypts: "\<exists>x. mls_encrypt_message demo_mls (demo_state 4) m r = (Ok x, r) \<and>
    mer_mls_ciphertext x = 1 # m"
  by (simp add: mls_encrypt_message_def with_group_def demo_state_loads save_group_def serialize_bundle_def
      ser_err_def lift_mls_def serialize_mls_message_def demo_mls_fields)

lemma stale_handle_encrypts_again_witness:
  "\<exists>res st r. api_mls_encrypt_message demo_mls 1 [104] (reg_single (demo_state 4), \<lambda>_. 0) = (Ok res, (st, r)) \<and>
     aer_handle res \<noteq> 1 \<and> reg_entry 1 st = Some (demo_state 4)"
proof -
  obtain x where x: "mls_encrypt_message demo_mls (demo_state 4) [104] (\<lambda>_. 0) = (Ok x, \<lambda>_. 0)"
    using demo_encrypts by blast
  have "\<exists>res st r. api_mls_encrypt_message demo_mls 1 [104] (reg_single (demo_state 4), \<lambda>_. 0) = (Ok res, (st, r))"
    using x by (simp add: api_mls_encrypt_message_def mls_read_def reg_read_def reg_single_def mls_run_def
        api_map_err_def mls_store_result_def reg_register_def reg_alloc_def Let_def)
  then obtain res st r where run:
    "api_mls_encrypt_message demo_mls 1 [104] (reg_single (demo_state 4), \<lambda>_. 0) = (Ok res, (st, r))"
    by blast
  from stale_handle_encrypts_again [OF reg_single_facts(2,1) run] run show ?thesis by blast
qed

end
