(* ===== verification/Api_Groups.thy ===== *)
theory Api_Groups
  imports Api_Mls
begin

text \<open>
  The MLS calls of \<open>src/api.rs\<close> with everything they return, and the parts each of them is made
  of: read the state behind a handle, run the wrapper on it, take a new handle, store the new
  state under it. Run without interruption the parts are the call.
\<close>

section \<open>The calls with their whole replies\<close>

datatype group_reply =
    RCreate "ApiCreateGroupResult api_result"
  | RAdd "ApiAddMemberResult api_result"
  | RRemove "ApiRemoveMemberResult api_result"
  | REncrypt "ApiMlsEncryptResult api_result"
  | RDecrypt "ApiMlsDecryptResult api_result"
  | RWelcome "ApiProcessWelcomeResult api_result"
  | RCommit "ApiProcessCommitResult api_result"
  | RGone bool

fun group_call :: "('g, 'k, 'c, 'i, 'o) openmls \<Rightarrow> mls_op \<Rightarrow> mls_state \<Rightarrow> group_reply \<times> mls_state" where
  "group_call L (MlsCreate i) s = apfst RCreate (api_mls_create_group L i s)"
| "group_call L (MlsAdd h kp) s = apfst RAdd (api_mls_add_member L h kp s)"
| "group_call L (MlsRemove h i) s = apfst RRemove (api_mls_remove_member L h i s)"
| "group_call L (MlsEncrypt h m) s = apfst REncrypt (api_mls_encrypt_message L h m s)"
| "group_call L (MlsDecrypt h m) s = apfst RDecrypt (api_mls_decrypt_message L h m s)"
| "group_call L (MlsWelcome w b) s = apfst RWelcome (api_mls_process_welcome L w b s)"
| "group_call L (MlsCommit h m) s = apfst RCommit (api_mls_process_commit L h m s)"
| "group_call L (MlsDestroy h) s = apfst RGone (mls_destroy_state h s)"

section \<open>The parts of a call\<close>

text \<open>The handle a call reads its group from, where it does.\<close>

fun reads_handle :: "mls_op \<Rightarrow> u32 option" where
  "reads_handle (MlsAdd h kp) = Some h"
| "reads_handle (MlsRemove h i) = Some h"
| "reads_handle (MlsEncrypt h m) = Some h"
| "reads_handle (MlsDecrypt h m) = Some h"
| "reads_handle (MlsCommit h m) = Some h"
| "reads_handle _ = None"

definition group_source :: "mls_op \<Rightarrow> bytes registry \<Rightarrow> bytes api_result" where
  "group_source op st = (case reads_handle op of None \<Rightarrow> Ok [] | Some h \<Rightarrow> mls_read h st)"

text \<open>What a call computes from the state it has read: the new state, and the reply around its handle.\<close>

definition made :: "('a \<Rightarrow> bytes) \<Rightarrow> ('a \<Rightarrow> u32 \<Rightarrow> group_reply) \<Rightarrow> 'a result \<times> rng \<Rightarrow>
    (bytes \<times> (u32 \<Rightarrow> group_reply)) api_result \<times> rng" where
  "made blob mk p = (case p of (x, r) \<Rightarrow> (and_then (api_map_err x) (\<lambda>a. Ok (blob a, mk a)), r))"

fun group_body ::
  "('g, 'k, 'c, 'i, 'o) openmls \<Rightarrow> mls_op \<Rightarrow> bytes \<Rightarrow> rng \<Rightarrow> (bytes \<times> (u32 \<Rightarrow> group_reply)) api_result \<times> rng"
where
  "group_body L (MlsCreate i) b r = made cgr_group_state (\<lambda>res h. RCreate (Ok
     \<lparr>acg_handle = h, acg_group_id = cgr_group_id res, acg_epoch = cgr_epoch res\<rparr>)) (mls_create_group L i r)"
| "group_body L (MlsAdd h kp) b r = made amr_group_state (\<lambda>res h. RAdd (Ok
     \<lparr>aam_handle = h, aam_commit = amr_commit res, aam_welcome = amr_welcome res, aam_epoch = amr_epoch res\<rparr>))
     (mls_add_member L b kp r)"
| "group_body L (MlsRemove h i) b r = made rmr_group_state (\<lambda>res h. RRemove (Ok
     \<lparr>arm_handle = h, arm_commit = rmr_commit res, arm_epoch = rmr_epoch res\<rparr>)) (mls_remove_member L b i r)"
| "group_body L (MlsEncrypt h m) b r = made mer_group_state (\<lambda>res h. REncrypt (Ok
     \<lparr>aer_handle = h, aer_mls_ciphertext = mer_mls_ciphertext res, aer_epoch = mer_epoch res\<rparr>))
     (mls_encrypt_message L b m r)"
| "group_body L (MlsDecrypt h m) b r = made dcr_group_state (\<lambda>res h. RDecrypt (Ok
     \<lparr>adr_handle = h, adr_plaintext = dcr_plaintext res\<rparr>)) (mls_decrypt_message L b m r)"
| "group_body L (MlsWelcome w s) b r = made pwr_group_state (\<lambda>res h. RWelcome (Ok
     \<lparr>apw_handle = h, apw_group_id = pwr_group_id res, apw_epoch = pwr_epoch res\<rparr>)) (mls_process_welcome L w s r)"
| "group_body L (MlsCommit h m) b r = made pcr_group_state (\<lambda>res h. RCommit (Ok
     \<lparr>apc_handle = h, apc_epoch = pcr_epoch res\<rparr>)) (mls_process_commit L b m r)"
| "group_body L (MlsDestroy h) b r = (Panic, r)"

text \<open>The reply of a call that ends early: with an error, or by a panic.\<close>

definition failure :: "'a api_result \<Rightarrow> string option" where
  "failure x = (case x of Err e \<Rightarrow> Some e | _ \<Rightarrow> None)"

definition ended :: "string option \<Rightarrow> 'a api_result" where
  "ended f = (case f of Some e \<Rightarrow> Err e | None \<Rightarrow> Panic)"

lemma failure_simps [simp]: "failure (Err e) = Some e" "failure Panic = None"
  by (simp_all add: failure_def)

lemma ended_simps [simp]: "ended (Some e) = Err e" "ended None = Panic"
  by (simp_all add: ended_def)

fun refused :: "mls_op \<Rightarrow> string option \<Rightarrow> group_reply" where
  "refused (MlsCreate i) x = RCreate (ended x)"
| "refused (MlsAdd h kp) x = RAdd (ended x)"
| "refused (MlsRemove h i) x = RRemove (ended x)"
| "refused (MlsEncrypt h m) x = REncrypt (ended x)"
| "refused (MlsDecrypt h m) x = RDecrypt (ended x)"
| "refused (MlsWelcome w s) x = RWelcome (ended x)"
| "refused (MlsCommit h m) x = RCommit (ended x)"
| "refused (MlsDestroy h) x = RGone False"

definition group_placed :: "mls_op \<Rightarrow> (u32 \<Rightarrow> group_reply) \<Rightarrow> u32 api_result \<Rightarrow> group_reply" where
  "group_placed op mk x = (case x of Ok h \<Rightarrow> mk h | _ \<Rightarrow> refused op (failure x))"

abbreviation mls_place :: "bytes \<Rightarrow> bytes registry \<Rightarrow> u32 api_result \<times> bytes registry" where
  "mls_place b st \<equiv> (let (h, st) = reg_alloc st in reg_store_at ''MLS state'' h b st)"

lemma placed_parts:
  assumes "\<And>f. R (ended f) = refused op f"
  shows "apfst R (and_then_st (mls_run f (st, r)) (\<lambda>res. mls_store_result (B res) (M res))) =
    (case made B (\<lambda>res h. R (Ok (M res h))) (f r) of
       (Ok (b, mk), r') \<Rightarrow> (let (y, st') = mls_place b st in (group_placed op mk y, (st', r')))
     | (z, r') \<Rightarrow> (refused op (failure z), (st, r')))"
proof -
  have R: "R (Err e) = refused op (Some e)" "R Panic = refused op None" for e
    using assms(1) [of "Some e"] assms(1) [of None] by simp_all
  obtain x r' where "f r = (x, r')" by fastforce
  then show ?thesis
    by (cases x) (auto simp: R mls_run_def made_def api_map_err_def mls_store_result_def
        reg_register_halves group_placed_def reg_store_at_def Let_def split: prod.splits)
qed

text \<open>Run without interruption, the parts are the call.\<close>

lemma group_call_parts:
  assumes "\<forall>h. op \<noteq> MlsDestroy h"
  shows "group_call L op (st, r) = (case group_source op st of
      Ok b \<Rightarrow> (case group_body L op b r of
          (Ok (blob, mk), r') \<Rightarrow> (let (y, st') = mls_place blob st in (group_placed op mk y, (st', r')))
        | (z, r') \<Rightarrow> (refused op (failure z), (st, r')))
    | z \<Rightarrow> (refused op (failure z), (st, r)))"
proof -
  have split: "apfst R (and_then_st (mls_read h st, (st, r)) (\<lambda>b s. G b s)) =
      (case mls_read h st of Ok b \<Rightarrow> apfst R (G b (st, r)) | z \<Rightarrow> (R (ended (failure z)), (st, r)))" for R h G
    by (cases "mls_read h st") simp_all
  note placed = placed_parts [where op = op and st = st and r = r]
  show ?thesis
  proof (cases op)
    case (MlsDestroy h)
    with assms show ?thesis by simp
  qed (simp_all add: group_source_def api_mls_create_group_def api_mls_process_welcome_def
      api_mls_add_member_def api_mls_remove_member_def api_mls_encrypt_message_def
      api_mls_decrypt_message_def api_mls_process_commit_def split placed split: outcome.split)
qed

end
