(* ===== verification/Mls_Threads.thy ===== *)
theory Mls_Threads
  imports Api_Groups
begin

text \<open>
  The MLS calls of \<open>src/api.rs\<close> made by several threads at once. No call holds a lock across its
  work: it copies the state under the read lock, runs openmls on the copy, takes a handle from the
  atomic counter and stores the new state under the write lock, and other threads may run between
  any two of these. The refinement proved here says what the threads can rely on: a history of
  states under handles that only grows.
\<close>

section \<open>Threads\<close>

text \<open>
  How far the call of a thread has come: it has its copy of the state, the new state is computed, or
  the new state has its handle too.
\<close>

datatype group_stage =
    Copied mls_op bytes
  | Computed mls_op bytes "u32 \<Rightarrow> group_reply"
  | Numbered mls_op bytes "u32 \<Rightarrow> group_reply" u32

record group_device =
  gd_store :: "bytes registry"
  gd_source :: rng
  gd_pending :: "nat \<Rightarrow> group_stage option"

definition group_device_init :: "rng \<Rightarrow> group_device" where
  "group_device_init r = \<lparr>gd_store = reg_empty, gd_source = r, gd_pending = (\<lambda>_. None)\<rparr>"

text \<open>
  An event names the thread that makes the step: it has copied the state, it has computed the new
  one, or its call has answered. Taking a handle is internal.
\<close>

datatype group_event = Begins nat mls_op | Computes nat | Internal | Answers nat mls_op group_reply

inductive group_step ::
  "('g, 'k, 'c, 'i, 'o) openmls \<Rightarrow> group_device \<Rightarrow> group_event \<Rightarrow> group_device \<Rightarrow> bool" for L
where
  copy: "gd_pending D t = None \<Longrightarrow> \<forall>h. op \<noteq> MlsDestroy h \<Longrightarrow> group_source op (gd_store D) = Ok b \<Longrightarrow>
     group_step L D (Begins t op) (D\<lparr>gd_pending := (gd_pending D)(t \<mapsto> Copied op b)\<rparr>)"
| compute: "gd_pending D t = Some (Copied op b) \<Longrightarrow>
     group_body L op b (gd_source D) = (Ok (blob, mk), r) \<Longrightarrow>
     group_step L D (Computes t) (D\<lparr>gd_source := r, gd_pending := (gd_pending D)(t \<mapsto> Computed op blob mk)\<rparr>)"
| not_found: "gd_pending D t = None \<Longrightarrow> \<forall>h. op \<noteq> MlsDestroy h \<Longrightarrow> group_source op (gd_store D) = x \<Longrightarrow> \<not> is_ok x \<Longrightarrow>
     group_step L D (Answers t op (refused op (failure x))) D"
| not_made: "gd_pending D t = Some (Copied op b) \<Longrightarrow>
     group_body L op b (gd_source D) = (x, r) \<Longrightarrow> \<not> is_ok x \<Longrightarrow>
     group_step L D (Answers t op (refused op (failure x)))
       (D\<lparr>gd_source := r, gd_pending := (gd_pending D)(t := None)\<rparr>)"
| number: "gd_pending D t = Some (Computed op blob mk) \<Longrightarrow> reg_alloc (gd_store D) = (h, st) \<Longrightarrow>
     group_step L D Internal (D\<lparr>gd_store := st, gd_pending := (gd_pending D)(t \<mapsto> Numbered op blob mk h)\<rparr>)"
| place: "gd_pending D t = Some (Numbered op blob mk h) \<Longrightarrow>
     reg_store_at ''MLS state'' h blob (gd_store D) = (x, st) \<Longrightarrow>
     group_step L D (Answers t op (group_placed op mk x)) (D\<lparr>gd_store := st, gd_pending := (gd_pending D)(t := None)\<rparr>)"
| destroy: "gd_pending D t = None \<Longrightarrow> reg_remove h (gd_store D) = (b, st) \<Longrightarrow>
     group_step L D (Answers t (MlsDestroy h) (RGone b)) (D\<lparr>gd_store := st\<rparr>)"

inductive group_runs ::
  "('g, 'k, 'c, 'i, 'o) openmls \<Rightarrow> group_device \<Rightarrow> group_event list \<Rightarrow> group_device \<Rightarrow> bool" for L D0
where
  start: "group_runs L D0 [] D0"
| step: "group_runs L D0 evs D \<Longrightarrow> group_step L D ev D' \<Longrightarrow> group_runs L D0 (evs @ [ev]) D'"

section \<open>What the threads are promised\<close>

text \<open>
  The history: every state ever returned, under its handle, for good, the handles destroyed, the
  source of random bytes, and what each thread at work has, which is a copy of a state that was held
  when the thread began, or the new state that it computed from its copy. Only a thread with no copy
  may answer that the handle is unknown, and only a thread whose work fails on its copy may answer
  with an error; once the new state is computed, the one answer left is the state's own under a new
  handle, whatever the other threads did.
\<close>

datatype group_task = Holds mls_op bytes | Has_Made mls_op bytes "u32 \<Rightarrow> group_reply"

record history =
  past :: "u32 \<Rightarrow> bytes option"
  gone :: "u32 set"
  source :: rng
  at_work :: "nat \<Rightarrow> group_task option"

definition history_init :: "rng \<Rightarrow> history" where
  "history_init r = \<lparr>past = (\<lambda>_. None), gone = {}, source = r, at_work = (\<lambda>_. None)\<rparr>"

definition held :: "history \<Rightarrow> u32 \<Rightarrow> bytes option" where
  "held H h = (if h \<in> gone H then None else past H h)"

definition held_for :: "history \<Rightarrow> mls_op \<Rightarrow> bytes option" where
  "held_for H op = (case reads_handle op of None \<Rightarrow> Some [] | Some h \<Rightarrow> held H h)"

inductive history_step ::
  "('g, 'k, 'c, 'i, 'o) openmls \<Rightarrow> history \<Rightarrow> group_event \<Rightarrow> history \<Rightarrow> bool" for L
where
  internal: "history_step L H Internal H"
| begins: "at_work H t = None \<Longrightarrow> held_for H op = Some b \<Longrightarrow>
     history_step L H (Begins t op) (H\<lparr>at_work := (at_work H)(t \<mapsto> Holds op b)\<rparr>)"
| computes: "at_work H t = Some (Holds op b) \<Longrightarrow> group_body L op b (source H) = (Ok (blob, mk), r) \<Longrightarrow>
     history_step L H (Computes t) (H\<lparr>source := r, at_work := (at_work H)(t \<mapsto> Has_Made op blob mk)\<rparr>)"
| adds: "at_work H t = Some (Has_Made op blob mk) \<Longrightarrow> past H h = None \<Longrightarrow>
     history_step L H (Answers t op (mk h))
       (H\<lparr>past := (past H)(h \<mapsto> blob), at_work := (at_work H)(t := None)\<rparr>)"
| fails: "at_work H t = Some (Holds op b) \<Longrightarrow> group_body L op b (source H) = (x, r) \<Longrightarrow> \<not> is_ok x \<Longrightarrow>
     history_step L H (Answers t op (refused op (failure x)))
       (H\<lparr>source := r, at_work := (at_work H)(t := None)\<rparr>)"
| unknown: "at_work H t = None \<Longrightarrow> reads_handle op = Some h \<Longrightarrow> held H h = None \<Longrightarrow>
     history_step L H (Answers t op (refused op
       (Some (''No MLS group with handle '' @ show_nat (unat h))))) H"
| removes: "at_work H t = None \<Longrightarrow>
     history_step L H (Answers t (MlsDestroy h) (RGone (held H h \<noteq> None)))
       (if held H h = None then H else H\<lparr>gone := insert h (gone H)\<rparr>)"

inductive history_runs ::
  "('g, 'k, 'c, 'i, 'o) openmls \<Rightarrow> rng \<Rightarrow> group_event list \<Rightarrow> history \<Rightarrow> bool" for L r
where
  start: "history_runs L r [] (history_init r)"
| step: "history_runs L r evs H \<Longrightarrow> history_step L H ev H' \<Longrightarrow> history_runs L r (evs @ [ev]) H'"

section \<open>The threads keep the promise\<close>

text \<open>What a stage of the code is in the history, and the handle it has taken.\<close>

fun task :: "group_stage \<Rightarrow> group_task" where
  "task (Copied op b) = Holds op b"
| "task (Computed op blob mk) = Has_Made op blob mk"
| "task (Numbered op blob mk h) = Has_Made op blob mk"

fun stage_handle :: "group_stage \<Rightarrow> u32 option" where
  "stage_handle (Numbered op blob mk h) = Some h"
| "stage_handle _ = None"

definition tasks :: "(nat \<Rightarrow> group_stage option) \<Rightarrow> nat \<Rightarrow> group_task option" where
  "tasks p = (\<lambda>t. map_option task (p t))"

lemma tasks_simps [simp]:
  "tasks (p(t \<mapsto> s)) = (tasks p)(t \<mapsto> task s)" "tasks (p(t := None)) = (tasks p)(t := None)"
  "p t = None \<Longrightarrow> tasks p t = None" "p t = Some s \<Longrightarrow> tasks p t = Some (task s)"
  by (auto simp: tasks_def)

definition keeps_history :: "group_device \<Rightarrow> history \<Rightarrow> bool" where
  "keeps_history D H \<longleftrightarrow>
     \<not> reg_poisoned (gd_store D) \<and> (\<forall>h. reg_entry h (gd_store D) = held H h) \<and>
     gd_source D = source H \<and> tasks (gd_pending D) = at_work H \<and>
     (\<forall>h. past H h \<noteq> None \<longrightarrow> unat h < unat (reg_next (gd_store D))) \<and> (\<forall>h\<in>gone H. past H h \<noteq> None) \<and>
     (\<forall>t s h. gd_pending D t = Some s \<longrightarrow> stage_handle s = Some h \<longrightarrow>
        unat h < unat (reg_next (gd_store D)) \<and> past H h = None) \<and>
     (\<forall>t t' s s'. gd_pending D t = Some s \<longrightarrow> gd_pending D t' = Some s' \<longrightarrow> stage_handle s \<noteq> None \<longrightarrow>
        stage_handle s = stage_handle s' \<longrightarrow> t = t')"

lemma keeps_historyD:
  assumes "keeps_history D H"
  shows "\<not> reg_poisoned (gd_store D)" "reg_entry h (gd_store D) = held H h"
    "gd_source D = source H" "tasks (gd_pending D) = at_work H"
    "past H h \<noteq> None \<Longrightarrow> unat h < unat (reg_next (gd_store D))"
    "h \<in> gone H \<Longrightarrow> past H h \<noteq> None"
    "gd_pending D t = Some s \<Longrightarrow> stage_handle s = Some h \<Longrightarrow> unat h < unat (reg_next (gd_store D)) \<and> past H h = None"
    "gd_pending D t = Some s \<Longrightarrow> gd_pending D t' = Some s' \<Longrightarrow> stage_handle s = Some h \<Longrightarrow>
       stage_handle s' = Some h \<Longrightarrow> t = t'"
  using assms unfolding keeps_history_def
  by (blast, blast, blast, blast, blast, blast, blast, metis option.distinct(1))

lemma at_work_pending:
  assumes "keeps_history D H"
  shows "gd_pending D t = None \<Longrightarrow> at_work H t = None"
    and "gd_pending D t = Some s \<Longrightarrow> at_work H t = Some (task s)"
  using keeps_historyD(4) [OF assms, symmetric] by simp_all

lemma pending_at_work:
  assumes "keeps_history D H" "at_work H t = Some (Has_Made op blob mk)"
  shows "gd_pending D t = Some (Computed op blob mk) \<or> (\<exists>h. gd_pending D t = Some (Numbered op blob mk h))"
  using assms(2) keeps_historyD(4) [OF assms(1), symmetric]
  by (cases "gd_pending D t"; cases "the (gd_pending D t)") auto

lemma pending_holds:
  assumes "keeps_history D H" "at_work H t = Some (Holds op b)"
  shows "gd_pending D t = Some (Copied op b)"
  using assms(2) keeps_historyD(4) [OF assms(1), symmetric]
  by (cases "gd_pending D t"; cases "the (gd_pending D t)") auto

lemma keeps_history_init: "keeps_history (group_device_init r) (history_init r)"
  by (simp add: keeps_history_def group_device_init_def history_init_def held_def reg_empty_def reg_entry_def
      tasks_def)

text \<open>A thread may begin, compute or give up without the store changing.\<close>

lemma keeps_history_source:
  "keeps_history D H \<Longrightarrow> keeps_history (D\<lparr>gd_source := r\<rparr>) (H\<lparr>source := r\<rparr>)"
  by (simp add: keeps_history_def held_def) blast

lemma keeps_history_early:
  assumes "keeps_history D H" "stage_handle s = None"
  shows "keeps_history (D\<lparr>gd_pending := (gd_pending D)(t \<mapsto> s)\<rparr>)
    (H\<lparr>at_work := (at_work H)(t \<mapsto> task s)\<rparr>)"
  unfolding keeps_history_def using keeps_historyD [OF assms(1)] assms(2) by (auto simp: held_def)

lemma keeps_history_idle:
  assumes "keeps_history D H"
  shows "keeps_history (D\<lparr>gd_pending := (gd_pending D)(t := None)\<rparr>) (H\<lparr>at_work := (at_work H)(t := None)\<rparr>)"
  unfolding keeps_history_def using keeps_historyD [OF assms] by (auto simp: held_def split: if_splits)

text \<open>What a thread reads is what the history holds.\<close>

lemma source_held:
  assumes "keeps_history D H" "group_source op (gd_store D) = Ok b"
  shows "held_for H op = Some b"
  using assms(2) keeps_historyD(1,2) [OF assms(1)]
  by (auto simp: group_source_def held_for_def mls_read_def reg_read_def reg_entry_def outcome_simps
      split: option.splits)

lemma source_missing:
  assumes "keeps_history D H" "group_source op (gd_store D) = x" "\<not> is_ok x"
  obtains h where "reads_handle op = Some h" "held H h = None"
    "x = Err (''No MLS group with handle '' @ show_nat (unat h))"
proof (cases "reads_handle op")
  case (Some h)
  with assms(2,3) keeps_historyD(1) [OF assms(1)] keeps_historyD(2) [OF assms(1), of h] that show thesis
    by (cases "held H h") (auto simp: group_source_def mls_read_def reg_read_def reg_entry_def ok_or_def)
qed (use assms(2,3) in \<open>auto simp: group_source_def\<close>)

text \<open>A thread that has its handle puts its state there: nothing was ever under it.\<close>

lemma placed_keeps:
  assumes inv: "keeps_history D H" and t: "gd_pending D t = Some (Numbered op blob mk h)"
  shows "keeps_history (D\<lparr>gd_store := (gd_store D)\<lparr>reg_map := fmupd h blob (reg_map (gd_store D))\<rparr>,
      gd_pending := (gd_pending D)(t := None)\<rparr>)
      (H\<lparr>past := (past H)(h \<mapsto> blob), at_work := (at_work H)(t := None)\<rparr>)"
proof -
  note k = keeps_historyD [OF inv]
  have h: "unat h < unat (reg_next (gd_store D))" "past H h = None" using k(7) [OF t] by simp_all
  have new: "h \<notin> gone H" using h(2) k(6) by blast
  have others: "h' \<noteq> h" if "gd_pending D t' = Some s" "t' \<noteq> t" "stage_handle s = Some h'" for t' s h'
    using k(8) [OF t that(1), of h] that(2,3) by auto
  show ?thesis
    unfolding keeps_history_def using k h new others by (auto simp: reg_entry_def held_def split: if_splits)
qed

lemma numbered_keeps:
  assumes inv: "keeps_history D H" and t: "gd_pending D t = Some (Computed op blob mk)"
    and room: "unat (reg_next (gd_store D)) + 1 < 2 ^ 32"
  shows "keeps_history (D\<lparr>gd_store := (gd_store D)\<lparr>reg_next := reg_next (gd_store D) + 1\<rparr>,
      gd_pending := (gd_pending D)(t \<mapsto> Numbered op blob mk (reg_next (gd_store D)))\<rparr>) H"
proof -
  note k = keeps_historyD [OF inv] and n = unat_next [OF room]
  have own: "past H (reg_next (gd_store D)) = None" using k(5) by blast
  have same: "(at_work H)(t \<mapsto> Has_Made op blob mk) = at_work H"
    using at_work_pending(2) [OF inv t] by auto
  have others: "unat h < unat (reg_next (gd_store D) + 1) \<and> past H h = None \<and> h \<noteq> reg_next (gd_store D)"
    if "gd_pending D t' = Some s" "stage_handle s = Some h" for t' s h
    using k(7) [OF that] n by auto
  have below: "unat h < unat (reg_next (gd_store D) + 1)" if "past H h \<noteq> None" for h
    using k(5) [OF that] n by simp
  show ?thesis
    unfolding keeps_history_def using k own same others below n
    by (auto simp: reg_entry_def split: if_splits) metis+
qed

lemma group_step_history:
  assumes step: "group_step L D ev D'" and inv: "keeps_history D H"
    and room: "unat (reg_next (gd_store D)) + 1 < 2 ^ 32"
  obtains H' where "history_step L H ev H'" "keeps_history D' H'"
  using step
proof cases
  case (copy t op b)
  show thesis
  proof (rule that)
    show "history_step L H ev (H\<lparr>at_work := (at_work H)(t \<mapsto> Holds op b)\<rparr>)" unfolding copy(1)
      by (rule history_step.begins [OF at_work_pending(1) [OF inv copy(3)] source_held [OF inv copy(5)]])
    show "keeps_history D' (H\<lparr>at_work := (at_work H)(t \<mapsto> Holds op b)\<rparr>)"
      using keeps_history_early [OF inv, where s = "Copied op b" and t = t]
      unfolding copy(2) by simp
  qed
next
  case (compute t op b blob mk r)
  have own: "at_work H t = Some (Holds op b)" using at_work_pending(2) [OF inv compute(3)] by simp
  have body: "group_body L op b (source H) = (Ok (blob, mk), r)" using compute(4) keeps_historyD(3) [OF inv] by simp
  show thesis
  proof (rule that)
    show "history_step L H ev (H\<lparr>source := r, at_work := (at_work H)(t \<mapsto> Has_Made op blob mk)\<rparr>)"
      unfolding compute(1) by (rule history_step.computes [OF own body])
    show "keeps_history D' (H\<lparr>source := r, at_work := (at_work H)(t \<mapsto> Has_Made op blob mk)\<rparr>)"
      unfolding compute(2) using keeps_history_early [OF keeps_history_source [OF inv], where s = "Computed op blob mk" and t = t] by simp
  qed
next
  case (not_found t op x)
  obtain h where h: "reads_handle op = Some h" "held H h = None"
    "x = Err (''No MLS group with handle '' @ show_nat (unat h))"
    by (rule source_missing [OF inv not_found(5,6)])
  have "history_step L H ev H"
    unfolding not_found(1) h(3) using history_step.unknown [OF at_work_pending(1) [OF inv not_found(3)] h(1,2)] by simp
  then show thesis using inv not_found(2) by (intro that [of H]) simp_all
next
  case (not_made t op b x r)
  have own: "at_work H t = Some (Holds op b)" using at_work_pending(2) [OF inv not_made(3)] by simp
  have body: "group_body L op b (source H) = (x, r)" using not_made(4) keeps_historyD(3) [OF inv] by simp
  show thesis
  proof (rule that)
    show "history_step L H ev (H\<lparr>source := r, at_work := (at_work H)(t := None)\<rparr>)"
      unfolding not_made(1) by (rule history_step.fails [OF own body not_made(5)])
    show "keeps_history D' (H\<lparr>source := r, at_work := (at_work H)(t := None)\<rparr>)"
      unfolding not_made(2) using keeps_history_idle [OF keeps_history_source [OF inv]] by simp
  qed
next
  case (number t op blob mk h st)
  then have "h = reg_next (gd_store D)" "st = (gd_store D)\<lparr>reg_next := reg_next (gd_store D) + 1\<rparr>"
    by (auto simp: reg_alloc_def)
  with numbered_keeps [OF inv number(3) room] number(1,2) show thesis
    by (auto intro: that history_step.internal)
next
  case (place t op blob mk h x st)
  have st: "x = Ok h" "st = (gd_store D)\<lparr>reg_map := fmupd h blob (reg_map (gd_store D))\<rparr>"
    using place(4) keeps_historyD(1) [OF inv] by (auto simp: reg_store_at_def)
  have own: "at_work H t = Some (Has_Made op blob mk)" "past H h = None"
    using at_work_pending(2) [OF inv place(3)] keeps_historyD(7) [OF inv place(3), of h] by simp_all
  show thesis
  proof (rule that)
    show "history_step L H ev (H\<lparr>past := (past H)(h \<mapsto> blob), at_work := (at_work H)(t := None)\<rparr>)"
      unfolding place(1) st(1) group_placed_def using history_step.adds [OF own] by simp
    show "keeps_history D' (H\<lparr>past := (past H)(h \<mapsto> blob), at_work := (at_work H)(t := None)\<rparr>)"
      using placed_keeps [OF inv place(3)] place(2) st(2) by simp
  qed
next
  case (destroy t h b st)
  note k = keeps_historyD [OF inv]
  have b: "b \<longleftrightarrow> held H h \<noteq> None" and st: "st = (gd_store D)\<lparr>reg_map := fmdrop h (reg_map (gd_store D))\<rparr>"
    using destroy(4) k(1) k(2) [of h] by (auto simp: reg_remove_def reg_entry_def)
  show thesis
  proof (rule that)
    show "history_step L H ev (if held H h = None then H else H\<lparr>gone := insert h (gone H)\<rparr>)"
      unfolding destroy(1) b by (rule history_step.removes [OF at_work_pending(1) [OF inv destroy(3)]])
    show "keeps_history D' (if held H h = None then H else H\<lparr>gone := insert h (gone H)\<rparr>)"
      unfolding keeps_history_def destroy(2) st using k
      by (auto simp: reg_entry_def held_def split: if_splits)
  qed
qed

lemma group_step_next:
  assumes "group_step L D ev D'"
  shows "unat (reg_next (gd_store D')) \<le> Suc (unat (reg_next (gd_store D)))"
  using assms
proof cases
  case (number t op blob mk h st)
  then show ?thesis using unat_succ_le [of "reg_next (gd_store D)"] by (auto simp: reg_alloc_def)
qed (auto simp: reg_store_at_def reg_remove_def split: if_splits)

lemma group_runs_history:
  assumes "group_runs L (group_device_init r) evs D" "length evs < 2 ^ 32 - 1"
  shows "unat (reg_next (gd_store D)) \<le> Suc (length evs) \<and> (\<exists>H. history_runs L r evs H \<and> keeps_history D H)"
  using assms
proof induction
  case start
  then show ?case
    using history_runs.start keeps_history_init by (auto simp: group_device_init_def below_empty)
next
  case (step evs D ev D')
  from step.prems have "Suc (length evs) < 2 ^ 32 - 1" "length evs < 2 ^ 32 - 1" by simp_all
  with step.IH obtain H where H: "history_runs L r evs H" "keeps_history D H"
    and n: "unat (reg_next (gd_store D)) \<le> Suc (length evs)" by blast
  with \<open>Suc (length evs) < 2 ^ 32 - 1\<close> have "unat (reg_next (gd_store D)) + 1 < 2 ^ 32" by simp
  with group_step_history [OF step.hyps(2) H(2)] obtain H' where "history_step L H ev H'" "keeps_history D' H'"
    by blast
  with H(1) group_step_next [OF step.hyps(2)] n show ?case by (auto intro: history_runs.step)
qed

section \<open>A thread at work gets its answer\<close>

text \<open>The steps that are left to a thread, which no other thread can take from it.\<close>

definition finishes ::
  "('g, 'k, 'c, 'i, 'o) openmls \<Rightarrow> group_device \<Rightarrow> group_event list \<Rightarrow> group_event list \<Rightarrow>
   nat \<Rightarrow> mls_op \<Rightarrow> (u32 \<Rightarrow> group_reply) \<Rightarrow> bytes \<Rightarrow> bool" where
  "finishes L D0 evs own t op mk blob \<longleftrightarrow>
     (\<exists>h D'. group_runs L D0 (evs @ own @ [Answers t op (mk h)]) D' \<and> reg_entry h (gd_store D') = Some blob)"

lemma finishes_numbered:
  assumes run: "group_runs L D0 evs D" and t: "gd_pending D t = Some (Numbered op blob mk h)"
    and ok: "\<not> reg_poisoned (gd_store D)"
  shows "finishes L D0 evs [] t op mk blob"
proof -
  let ?st = "(gd_store D)\<lparr>reg_map := fmupd h blob (reg_map (gd_store D))\<rparr>"
  have "reg_store_at ''MLS state'' h blob (gd_store D) = (Ok h, ?st)" using ok by (simp add: reg_store_at_def)
  from group_runs.step [OF run group_step.place [OF t this]]
  have "group_runs L D0 (evs @ [Answers t op (mk h)]) (D\<lparr>gd_store := ?st, gd_pending := (gd_pending D)(t := None)\<rparr>)"
    by (simp add: group_placed_def)
  moreover have "reg_entry h (gd_store (D\<lparr>gd_store := ?st, gd_pending := (gd_pending D)(t := None)\<rparr>)) = Some blob"
    by (simp add: reg_entry_def)
  ultimately show ?thesis unfolding finishes_def append_Nil by blast
qed

lemma finishes_computed:
  assumes run: "group_runs L D0 evs D" and t: "gd_pending D t = Some (Computed op blob mk)"
    and ok: "\<not> reg_poisoned (gd_store D)"
  shows "finishes L D0 evs [Internal] t op mk blob"
proof -
  obtain h st where a: "reg_alloc (gd_store D) = (h, st)" by (cases "reg_alloc (gd_store D)")
  have "\<not> reg_poisoned st" using a ok by (auto simp: reg_alloc_def)
  then show ?thesis
    using finishes_numbered [OF group_runs.step [OF run group_step.number [OF t a]], of t op blob mk h]
    by (simp add: finishes_def)
qed

lemma finishes_copied:
  assumes run: "group_runs L D0 evs D" and t: "gd_pending D t = Some (Copied op b)"
    and body: "group_body L op b (gd_source D) = (Ok (blob, mk), r)" and ok: "\<not> reg_poisoned (gd_store D)"
  shows "finishes L D0 evs [Computes t, Internal] t op mk blob"
  using finishes_computed [OF group_runs.step [OF run group_step.compute [OF t body]], of t op blob mk] ok
  by (simp add: finishes_def)

section \<open>The handles that are given\<close>

fun stored_handle :: "group_reply \<Rightarrow> u32 list" where
  "stored_handle (RCreate (Ok x)) = [acg_handle x]"
| "stored_handle (RAdd (Ok x)) = [aam_handle x]"
| "stored_handle (RRemove (Ok x)) = [arm_handle x]"
| "stored_handle (REncrypt (Ok x)) = [aer_handle x]"
| "stored_handle (RDecrypt (Ok x)) = [adr_handle x]"
| "stored_handle (RWelcome (Ok x)) = [apw_handle x]"
| "stored_handle (RCommit (Ok x)) = [apc_handle x]"
| "stored_handle _ = []"

fun handles_returned :: "group_event \<Rightarrow> u32 list" where
  "handles_returned (Answers t op reply) = stored_handle reply"
| "handles_returned _ = []"

lemma made_Ok:
  "made B M p = (Ok (blob, mk), r) \<longleftrightarrow> (\<exists>a. p = (Ok a, r) \<and> blob = B a \<and> mk = M a)"
  by (cases p; cases "fst p") (auto simp: made_def api_map_err_def)

lemma body_handle: "group_body L op b r = (Ok (blob, mk), r') \<Longrightarrow> stored_handle (mk h) = [h]"
  by (cases op) (auto simp: made_Ok)

lemma refused_handle: "stored_handle (refused op f) = []"
  by (cases op; cases f) simp_all

lemma history_given:
  assumes "history_runs L r evs H"
  shows "distinct (concat (map handles_returned evs)) \<and> set (concat (map handles_returned evs)) = dom (past H) \<and>
    (\<forall>t op blob mk h. at_work H t = Some (Has_Made op blob mk) \<longrightarrow> stored_handle (mk h) = [h])"
  using assms
proof induction
  case start
  then show ?case by (simp add: history_init_def)
next
  case (step evs H ev H')
  from step.hyps(2) step.IH have "handles_returned ev = [] \<and> past H' = past H \<or>
      (\<exists>h b. handles_returned ev = [h] \<and> past H h = None \<and> past H' = (past H)(h \<mapsto> b))"
    by cases (auto simp: refused_handle)
  moreover from step.hyps(2) step.IH
  have "\<forall>t op blob mk h. at_work H' t = Some (Has_Made op blob mk) \<longrightarrow> stored_handle (mk h) = [h]"
    by cases (auto simp: body_handle split: if_splits)
  ultimately show ?case using step.IH by (auto simp: domIff)
qed

text \<open>
  C16. However threads interleave their MLS calls, between any two of reading a state, computing,
  taking a handle and storing, the store is a history that only grows: a call works on the state
  that was held under its handle when it read it, its new handle was never given before, and a state
  is gone only by being destroyed. Destroying a state takes nothing from a thread that has its copy:
  if openmls accepts the copy, the thread's own next steps compute and store the new state, and once
  that is computed the call can answer nothing else. So two threads that start from one handle both
  succeed if openmls accepts both, each with a state that does not know of the other. The counter
  must not have come round: fewer than 2^32 - 1 steps.
\<close>
theorem group_threads_keep_history:
  assumes "group_runs L (group_device_init r) evs D" and "length evs < 2 ^ 32 - 1"
  shows "\<exists>H. history_runs L r evs H \<and> (\<forall>h. reg_entry h (gd_store D) = held H h) \<and>
    distinct (concat (map handles_returned evs)) \<and> \<not> reg_poisoned (gd_store D) \<and>
    (\<forall>t op b blob mk r'. at_work H t = Some (Holds op b) \<longrightarrow>
       group_body L op b (source H) = (Ok (blob, mk), r') \<longrightarrow>
       finishes L (group_device_init r) evs [Computes t, Internal] t op mk blob) \<and>
    (\<forall>t op blob mk. at_work H t = Some (Has_Made op blob mk) \<longrightarrow>
       (\<exists>own\<in>{[Internal], []}. finishes L (group_device_init r) evs own t op mk blob))"
proof -
  from group_runs_history [OF assms] obtain H where H: "history_runs L r evs H" "keeps_history D H" by blast
  note k = keeps_historyD [OF H(2)]
  have "finishes L (group_device_init r) evs [Computes t, Internal] t op mk blob"
    if "at_work H t = Some (Holds op b)" "group_body L op b (source H) = (Ok (blob, mk), r')" for t op b blob mk r'
    using finishes_copied [OF assms(1) pending_holds [OF H(2) that(1)] _ k(1)] that(2) k(3) by simp
  moreover have "\<exists>own\<in>{[Internal], []}. finishes L (group_device_init r) evs own t op mk blob"
    if "at_work H t = Some (Has_Made op blob mk)" for t op blob mk
    using pending_at_work [OF H(2) that] finishes_computed [OF assms(1) _ k(1)] finishes_numbered [OF assms(1) _ k(1)]
    by blast
  ultimately show ?thesis using H(1) k(1,2) history_given [OF H(1)] by blast
qed

text \<open>Two threads encrypt from one handle, which a third destroys before either of them stores.\<close>

lemma demo_state_encrypts:
  assumes "state_of demo_mls b g"
  obtains x r' where "mls_encrypt_message demo_mls b m r = (Ok x, r')"
  using assms
  by (auto simp: state_of_def mls_encrypt_message_def with_group_def demo_mls_fields lift_mls_def save_group_def
      serialize_bundle_def serialize_mls_message_def ser_err_def)

definition demo_events :: "(u32 \<Rightarrow> group_reply) \<Rightarrow> (u32 \<Rightarrow> group_reply) \<Rightarrow> (u32 \<Rightarrow> group_reply) \<Rightarrow> group_event list" where
  "demo_events c x y = [Begins 0 (MlsCreate [65]), Computes 0, Internal, Answers 0 (MlsCreate [65]) (c 1),
     Begins 0 (MlsEncrypt 1 [1]), Begins 1 (MlsEncrypt 1 [2]), Answers 2 (MlsDestroy 1) (RGone True),
     Computes 0, Computes 1, Internal, Internal,
     Answers 1 (MlsEncrypt 1 [2]) (y 2), Answers 0 (MlsEncrypt 1 [1]) (x 3)]"

text \<open>A device on which only the threads 0 and 1 have something pending.\<close>

definition slots :: "group_stage option \<times> group_stage option \<Rightarrow> nat \<Rightarrow> group_stage option" where
  "slots p = (\<lambda>_. None)(0 := fst p, Suc 0 := snd p)"

lemma slots_simps [simp]:
  "slots p 0 = fst p" "slots p (Suc 0) = snd p" "slots p 2 = None"
  "(slots p)(0 := s) = slots (s, snd p)" "(slots p)(Suc 0 := s) = slots (fst p, s)"
  by (auto simp: slots_def)

definition dev :: "u32 \<Rightarrow> (u32, bytes) fmap \<Rightarrow> rng \<Rightarrow> group_stage option \<times> group_stage option \<Rightarrow> group_device" where
  "dev n m r p =
     \<lparr>gd_store = \<lparr>reg_next = n, reg_map = m, reg_poisoned = False\<rparr>, gd_source = r, gd_pending = slots p\<rparr>"

lemma dev_simps [simp]:
  "gd_store (dev n m r p) = \<lparr>reg_next = n, reg_map = m, reg_poisoned = False\<rparr>"
  "gd_source (dev n m r p) = r" "gd_pending (dev n m r p) = slots p"
  "dev n m r p\<lparr>gd_store := \<lparr>reg_next = n', reg_map = m', reg_poisoned = False\<rparr>\<rparr> = dev n' m' r p"
  "dev n m r p\<lparr>gd_source := r'\<rparr> = dev n m r' p" "dev n m r p\<lparr>gd_pending := slots q\<rparr> = dev n m r q"
  by (simp_all add: dev_def)

lemmas dev_eval = reg_alloc_def reg_store_at_def reg_remove_def reg_entry_def group_placed_def group_source_def
  mls_read_def reg_read_def fmdrop_fmupd_same

text \<open>The steps of these two threads.\<close>

lemma dev_copy:
  assumes "group_source op \<lparr>reg_next = n, reg_map = m, reg_poisoned = False\<rparr> = Ok b" "\<forall>h. op \<noteq> MlsDestroy h"
  shows "group_step L (dev n m r (None, q)) (Begins 0 op) (dev n m r (Some (Copied op b), q))"
    and "group_step L (dev n m r (p, None)) (Begins (Suc 0) op) (dev n m r (p, Some (Copied op b)))"
  using group_step.copy [of "dev n m r (None, q)" 0 op b L] group_step.copy [of "dev n m r (p, None)" "Suc 0" op b L] assms
  by simp_all

lemma dev_compute:
  assumes "group_body L op b r = (Ok (blob, mk), r')"
  shows "group_step L (dev n m r (Some (Copied op b), q)) (Computes 0) (dev n m r' (Some (Computed op blob mk), q))"
    and "group_step L (dev n m r (p, Some (Copied op b))) (Computes (Suc 0)) (dev n m r' (p, Some (Computed op blob mk)))"
  using group_step.compute [of "dev n m r (Some (Copied op b), q)" 0 op b L blob mk r']
    group_step.compute [of "dev n m r (p, Some (Copied op b))" "Suc 0" op b L blob mk r'] assms by simp_all

lemma dev_number:
  "group_step L (dev n m r (Some (Computed op blob mk), q)) Internal (dev (n + 1) m r (Some (Numbered op blob mk n), q))"
  "group_step L (dev n m r (p, Some (Computed op blob mk))) Internal (dev (n + 1) m r (p, Some (Numbered op blob mk n)))"
  using group_step.number [of "dev n m r (Some (Computed op blob mk), q)" 0 op blob mk n _ L]
    group_step.number [of "dev n m r (p, Some (Computed op blob mk))" "Suc 0" op blob mk n _ L]
  by (simp_all add: reg_alloc_def)

lemma dev_place:
  "group_step L (dev n m r (Some (Numbered op blob mk h), q)) (Answers 0 op (mk h)) (dev n (fmupd h blob m) r (None, q))"
  "group_step L (dev n m r (p, Some (Numbered op blob mk h))) (Answers 1 op (mk h)) (dev n (fmupd h blob m) r (p, None))"
  using group_step.place [of "dev n m r (Some (Numbered op blob mk h), q)" 0 op blob mk h _ _ L]
    group_step.place [of "dev n m r (p, Some (Numbered op blob mk h))" "Suc 0" op blob mk h _ _ L]
  by (simp_all add: reg_store_at_def group_placed_def)

lemma dev_destroy:
  "group_step L (dev n m r p) (Answers 2 (MlsDestroy h) (RGone (fmlookup m h \<noteq> None))) (dev n (fmdrop h m) r p)"
  using group_step.destroy [of "dev n m r p" 2 h _ _ L] by (simp add: reg_remove_def)

lemma demo_group_run:
  "\<exists>D c x y. group_runs demo_mls (group_device_init (\<lambda>i. of_nat i)) (demo_events c x y) D \<and>
     reg_entry 1 (gd_store D) = None \<and> reg_entry 2 (gd_store D) \<noteq> None \<and> reg_entry 3 (gd_store D) \<noteq> None"
proof -
  let ?L = demo_mls and ?r = "\<lambda>i. of_nat i :: u8"
  let ?C = "MlsCreate [65]" and ?X = "MlsEncrypt 1 [1]" and ?Y = "MlsEncrypt 1 [2]"
  obtain res r1 where res: "mls_create_group ?L [65] ?r = (Ok res, r1)" by (rule demo_create)
  define b where "b = cgr_group_state res"
  obtain c where c: "group_body ?L ?C [] ?r = (Ok (b, c), r1)"
    using res by (simp add: made_def api_map_err_def b_def)
  obtain g where g: "state_of ?L b g"
    using create_group_state [OF demo_mls_laws res] by (auto simp: loads_as_def b_def)
  have enc: "\<exists>blob mk r'. group_body ?L (MlsEncrypt 1 m) b r = (Ok (blob, mk), r')" for m r
  proof -
    obtain x r' where "mls_encrypt_message ?L b m r = (Ok x, r')" by (rule demo_state_encrypts [OF g])
    then show ?thesis by (simp add: made_Ok)
  qed
  obtain b1 x r2 where x: "group_body ?L ?X b r1 = (Ok (b1, x), r2)" using enc by blast
  obtain b2 y r3 where y: "group_body ?L ?Y b r2 = (Ok (b2, y), r3)" using enc by blast
  let ?e = fmempty and ?m1 = "fmupd 1 b fmempty"
  have init: "group_device_init ?r = dev 1 ?e ?r (None, None)"
    by (auto simp: group_device_init_def reg_empty_def dev_def slots_def)
  have read: "group_source (MlsEncrypt 1 m) \<lparr>reg_next = 2, reg_map = ?m1, reg_poisoned = False\<rparr> = Ok b" for m
    by (simp add: dev_eval)
  note run = group_runs.start [of ?L "dev 1 ?e ?r (None, None)"]
  note run = group_runs.step [OF run dev_copy(1) [where op = ?C and b = "[]"]]
  note run = group_runs.step [OF run dev_compute(1) [OF c]]
  note run = group_runs.step [OF run dev_number(1)]
  note run = group_runs.step [OF run dev_place(1)]
  note run = group_runs.step [OF run dev_copy(1) [where op = ?X and b = b]]
  note run = group_runs.step [OF run dev_copy(2) [where op = ?Y and b = b]]
  note run = group_runs.step [OF run dev_destroy [where h = 1]]
  note run = group_runs.step [OF run dev_compute(1) [OF x]]
  note run = group_runs.step [OF run dev_compute(2) [OF y]]
  note run = group_runs.step [OF run dev_number(2)]
  note run = group_runs.step [OF run dev_number(1)]
  note run = group_runs.step [OF run dev_place(2)]
  note run = group_runs.step [OF run dev_place(1)]
  let ?m2 = "fmupd 3 b1 (fmupd 2 b2 fmempty)"
  have "group_runs ?L (group_device_init ?r) (demo_events c x y) (dev 4 ?m2 r3 (None, None))"
    using run read by (simp add: demo_events_def init fmdrop_fmupd_same) (simp add: dev_eval)
  moreover have "reg_entry 1 (gd_store (dev 4 ?m2 r3 (None, None))) = None"
    "reg_entry 2 (gd_store (dev 4 ?m2 r3 (None, None))) \<noteq> None"
    "reg_entry 3 (gd_store (dev 4 ?m2 r3 (None, None))) \<noteq> None" by (simp_all add: dev_eval)
  ultimately show ?thesis by blast
qed

lemma group_threads_keep_history_witness:
  "\<exists>c x y H. history_runs demo_mls (\<lambda>i. of_nat i) (demo_events c x y) H \<and> held H 1 = None \<and> held H 2 \<noteq> None \<and> held H 3 \<noteq> None"
proof -
  obtain D c x y where run: "group_runs demo_mls (group_device_init (\<lambda>i. of_nat i)) (demo_events c x y) D"
    and e: "reg_entry 1 (gd_store D) = None" "reg_entry 2 (gd_store D) \<noteq> None" "reg_entry 3 (gd_store D) \<noteq> None"
    using demo_group_run by blast
  have "length (demo_events c x y) < 2 ^ 32 - 1" by (simp add: demo_events_def)
  from group_threads_keep_history [OF run this] e show ?thesis by metis
qed

end
