(* ===== verification/Mls_Talk.thy ===== *)
theory Mls_Talk
  imports Api_Mls
begin

text \<open>
  A conversation in a group of two through the MLS calls of \<open>src/api.rs\<close>: a key package is
  generated, a group created, the member added, the welcome processed, and then the two devices
  encrypt and decrypt in turns, among any other calls. What openmls promises is stated of its
  groups; that the promise reaches the callers, who hold handles and bytes only, is what is proved.
\<close>

section \<open>What openmls promises\<close>

text \<open>A member as openmls sees it: its signer, its group, and the key store the group is saved in.\<close>

type_synonym ('g, 'k) mls_member = "'k \<times> 'g \<times> mls_store"

text \<open>
  \<open>T\<close> relates two members of one group who have processed the same messages. A member who was
  added to a group and has joined by the welcome is in step with the one who added it. A message
  created by one of two members in step can be processed by the other, which gives its data
  back; the group the receiver finds in its store afterwards is in step with the sender's again.
\<close>

definition joins_in_step ::
  "('g, 'k, 'c, 'i, 'o) openmls \<Rightarrow> (('g, 'k) mls_member \<Rightarrow> ('g, 'k) mls_member \<Rightarrow> bool) \<Rightarrow> bool"
where
  "joins_in_step L T \<longleftrightarrow>
     (\<forall>k' c' env kp stB r1 b kp_in kp' k s0 cm wm s1 g st r2 wb win w env1 staged gB stB' r3 r4.
        kp_build L CIPHERSUITE k' c' env = (Ok kp, (stB, r1)) \<longrightarrow> kp_serialize L kp = Ok b \<longrightarrow>
        kp_deserialize L b = Ok kp_in \<longrightarrow> kp_validate L kp_in = Ok kp' \<longrightarrow>
        grp_add L k kp' s0 = (Ok (cm, wm), s1) \<longrightarrow> grp_merge_pending L s1 = (Ok (), (g, (st, r2))) \<longrightarrow>
        msg_serialize L wm = Ok wb \<longrightarrow> msg_deserialize L wb = Ok win \<longrightarrow> msg_welcome L win = Some w \<longrightarrow>
        welcome_stage L default_group_join_config w (stB, r3) = (Ok staged, env1) \<longrightarrow>
        welcome_into_group L staged env1 = (Ok gB, (stB', r4)) \<longrightarrow>
        T (k, g, st) (k', gB, stB'))"

definition messages_arrive ::
  "('g, 'k, 'c, 'i, 'o) openmls \<Rightarrow> (('g, 'k) mls_member \<Rightarrow> ('g, 'k) mls_member \<Rightarrow> bool) \<Rightarrow> bool"
where
  "messages_arrive L T \<longleftrightarrow>
     (\<forall>k g st k' g' st' m r msg g1 st1 r1 b r'.
        T (k, g, st) (k', g', st') \<longrightarrow> grp_create_message L k m (g, (st, r)) = (Ok msg, (g1, (st1, r1))) \<longrightarrow>
        msg_serialize L msg = Ok b \<longrightarrow>
        (\<exists>x p g2 st2 r2 g3. msg_deserialize L b = Ok x \<and> msg_into_protocol L x = Ok p \<and>
           grp_process_message L p (g', (st', r')) = (Ok (ApplicationMessage m), (g2, (st2, r2))) \<and>
           grp_load L st2 (grp_id L g2) = Ok (Some g3) \<and> T (k, g1, st1) (k', g3, st2)))"

text \<open>The values in a state can be printed as JSON.\<close>

definition json_total :: "('g, 'k, 'c, 'i, 'o) openmls \<Rightarrow> bool" where
  "json_total L \<longleftrightarrow> (\<forall>k. is_ok (signer_to_json L k)) \<and> (\<forall>c. is_ok (credential_to_json L c)) \<and>
     (\<forall>i. is_ok (gid_to_json L i)) \<and> (\<forall>b. is_ok (bundle_to_json L b))"

text \<open>openmls never refuses to create a message.\<close>

definition always_sends :: "('g, 'k, 'c, 'i, 'o) openmls \<Rightarrow> bool" where
  "always_sends L \<longleftrightarrow> (\<forall>k m s. \<exists>msg s' b. grp_create_message L k m s = (Ok msg, s') \<and> msg_serialize L msg = Ok b)"

definition talk_laws ::
  "('g, 'k, 'c, 'i, 'o) openmls \<Rightarrow> (('g, 'k) mls_member \<Rightarrow> ('g, 'k) mls_member \<Rightarrow> bool) \<Rightarrow> bool"
where
  "talk_laws L T \<longleftrightarrow> mls_laws L \<and> json_total L \<and> symp T \<and> joins_in_step L T \<and> messages_arrive L T"

lemma talk_lawsD:
  assumes "talk_laws L T"
  shows "mls_laws L" "json_total L" "T x y \<Longrightarrow> T y x" "joins_in_step L T" "messages_arrive L T"
  using assms by (auto simp: talk_laws_def dest: sympD)

section \<open>A member behind a handle\<close>

definition blob_of :: "('g, 'k, 'c, 'i, 'o) openmls \<Rightarrow> ('g, 'k) mls_member \<Rightarrow> bytes \<Rightarrow> bool" where
  "blob_of L M b \<longleftrightarrow> (case M of (k, g, st) \<Rightarrow>
     \<exists>c. and_then (deserialize_bundle L b) (load_group L) = Ok (g, st, k, c))"

definition at_handle ::
  "('g, 'k, 'c, 'i, 'o) openmls \<Rightarrow> ('g, 'k) mls_member \<Rightarrow> u32 \<Rightarrow> mls_state \<Rightarrow> bool"
where
  "at_handle L M h s \<longleftrightarrow> \<not> reg_poisoned (fst s) \<and> handles_below (fst s) \<and>
     (\<exists>b. reg_entry h (fst s) = Some b \<and> blob_of L M b)"

lemma save_group_total:
  assumes "json_total L"
  obtains b where "save_group L g st k c = Ok b"
proof -
  obtain s i cr where j: "signer_to_json L k = Ok s" "gid_to_json L (grp_id L g) = Ok i"
    "credential_to_json L c = Ok cr"
    using assms unfolding json_total_def is_ok_iff by meson
  obtain b where "bundle_to_json L \<lparr>gb_store = snapshot_store L st, gb_signer = s, gb_credential_with_key = cr,
      gb_group_id = i\<rparr> = Ok b"
    using assms unfolding json_total_def is_ok_iff by meson
  with j show thesis by (intro that) (simp add: save_group_def serialize_bundle_def ser_err_def)
qed

lemma saved_blob:
  assumes "mls_laws L" "grp_load L st (grp_id L g) = Ok (Some g')" "save_group L g st k c = Ok b"
  shows "blob_of L (k, g', st) b"
  using load_saved [OF mls_lawsD(1,2) [OF assms(1)] assms(3)] assms(2) by (auto simp: blob_of_def)

lemma at_handleD:
  assumes "at_handle L M h (st, r)"
  obtains b where "\<not> reg_poisoned st" "handles_below st" "reg_entry h st = Some b" "blob_of L M b"
  using assms by (auto simp: at_handle_def)

lemma at_handle_stored:
  assumes "\<not> reg_poisoned st" "handles_below st" "unat (reg_next st) + 1 < 2 ^ 32" "blob_of L M b"
    and "reg_register ''MLS state'' b st = (x, st')"
  shows "at_handle L M (reg_next st) (st', r)"
proof -
  have "handles_below st'"
    using effect_keeps(1) [of "Stores b", OF _ assms(2,3)] assms(5) by auto
  then show ?thesis
    using reg_register_entry(1,3) [OF assms(5)] assms(1,4) by (auto simp: at_handle_def)
qed

lemma at_handle_call:
  assumes "at_handle L M h (st, r)" "mls_call L op (st, r) = (reply, (st', r'))"
    and "destroys op \<noteq> Some h" "unat (reg_next st) + 1 < 2 ^ 32"
  shows "at_handle L M h (st', r')" "unat (reg_next st') \<le> Suc (unat (reg_next st))"
proof -
  obtain b where b: "\<not> reg_poisoned st" "handles_below st" "reg_entry h st = Some b" "blob_of L M b"
    using assms(1) by (rule at_handleD)
  obtain e where e: "effect_on e st st'" "\<forall>h. e = Removes h \<longrightarrow> destroys op = Some h"
    using mls_call_effect [OF assms(2)] by blast
  note keep = effect_keeps [OF e(1) b(2) assms(4)]
  show "at_handle L M h (st', r')"
    using keep(1) keep(3) [OF b(3)] e(2) assms(3) effect_poison [OF e(1)] b by (auto simp: at_handle_def)
  show "unat (reg_next st') \<le> Suc (unat (reg_next st))" by (rule keep(2))
qed

section \<open>Sending and receiving\<close>

lemma encrypt_blob:
  assumes "mls_laws L" "blob_of L (k, g, st) b" "mls_encrypt_message L b m r = (Ok res, r')"
  obtains msg g1 st1 r1 where "grp_create_message L k m (g, (st, r)) = (Ok msg, (g1, (st1, r1)))"
    "msg_serialize L msg = Ok (mer_mls_ciphertext res)" "blob_of L (k, g1, st1) (mer_group_state res)"
proof -
  obtain c where c: "and_then (deserialize_bundle L b) (load_group L) = Ok (g, st, k, c)"
    using assms(2) by (auto simp: blob_of_def)
  obtain y g1 st1 r1 where y: "grp_create_message L k m (g, (st, r)) = (y, (g1, (st1, r1)))"
    by (metis surj_pair)
  with assms(3) c obtain msg where msg: "y = Ok msg"
    by (cases y) (auto simp: mls_encrypt_message_def with_group_def lift_mls_def)
  with assms(3) c y obtain state where
    "save_group L g1 st1 k c = Ok state" "msg_serialize L msg = Ok (mer_mls_ciphertext res)" "mer_group_state res = state"
    by (auto simp: mls_encrypt_message_def with_group_def lift_mls_def serialize_mls_message_def outcome_simps)
  moreover have "grp_load L st1 (grp_id L g1) = Ok (Some g1)"
    using mls_lawsD(7) [OF assms(1)] y msg by (simp add: saved_def)
  ultimately show thesis using that y msg saved_blob [OF assms(1)] by blast
qed

lemma decrypt_blob:
  assumes "talk_laws L T" "blob_of L (k', g', st') b" "msg_deserialize L ct = Ok x" "msg_into_protocol L x = Ok p"
    and "grp_process_message L p (g', (st', r)) = (Ok (ApplicationMessage m), (g2, (st2, r2)))"
    and "grp_load L st2 (grp_id L g2) = Ok (Some g3)"
  obtains res where "mls_decrypt_message L b ct r = (Ok res, r2)" "dcr_plaintext res = m"
    "blob_of L (k', g3, st2) (dcr_group_state res)"
proof -
  note l = talk_lawsD(1,2) [OF assms(1)]
  obtain c where c: "and_then (deserialize_bundle L b) (load_group L) = Ok (g', st', k', c)"
    using assms(2) by (auto simp: blob_of_def)
  obtain state where state: "save_group L g2 st2 k' c = Ok state" by (rule save_group_total [OF l(2)])
  have "mls_decrypt_message L b ct r = (Ok \<lparr>dcr_plaintext = m, dcr_group_state = state\<rparr>, r2)"
    using c assms(3-5) state
    by (simp add: mls_decrypt_message_def with_group_def process_incoming_def deserialize_mls_message_def lift_mls_def)
  with that saved_blob [OF l(1) assms(6) state] show thesis by simp
qed

text \<open>The same through handles: a call that is refused leaves the member where it was.\<close>

lemma api_sends:
  assumes "mls_laws L" "at_handle L (k, g, st) h s" "unat (reg_next (fst s)) + 1 < 2 ^ 32"
    and "api_mls_encrypt_message L h m s = (Ok e, s')"
  obtains msg g1 st1 r1 where "grp_create_message L k m (g, (st, snd s)) = (Ok msg, (g1, (st1, r1)))"
    "msg_serialize L msg = Ok (aer_mls_ciphertext e)" "at_handle L (k, g1, st1) (aer_handle e) s'"
    "reg_next (fst s') = reg_next (fst s) + 1"
proof -
  obtain reg r where s: "s = (reg, r)" by (cases s)
  obtain reg' r' where s': "s' = (reg', r')" by (cases s')
  obtain b where b: "\<not> reg_poisoned reg" "handles_below reg" "reg_entry h reg = Some b" "blob_of L (k, g, st) b"
    using assms(2) unfolding s by (rule at_handleD)
  from read_and_store [OF assms(4) [unfolded s s' api_mls_encrypt_message_def prod.case]] b(3)
  obtain res where res: "mls_encrypt_message L b m r = (Ok res, r')"
    "reg_register ''MLS state'' (mer_group_state res) reg = (Ok (reg_next reg), reg')"
    "e = \<lparr>aer_handle = reg_next reg, aer_mls_ciphertext = mer_mls_ciphertext res, aer_epoch = mer_epoch res\<rparr>"
    by (metis is_ok.simps(1) option.inject outcome.inject(1))
  obtain msg g1 st1 r1 where m: "grp_create_message L k m (g, (st, r)) = (Ok msg, (g1, (st1, r1)))"
    "msg_serialize L msg = Ok (mer_mls_ciphertext res)" "blob_of L (k, g1, st1) (mer_group_state res)"
    by (rule encrypt_blob [OF assms(1) b(4) res(1)])
  have "at_handle L (k, g1, st1) (reg_next reg) s'"
    unfolding s' using at_handle_stored [OF b(1,2) _ m(3) res(2)] assms(3) s by simp
  with m(1,2) res(3) reg_register_entry(2) [OF res(2)] s s' show thesis by (intro that) simp_all
qed

lemma api_sends_Ok:
  assumes "json_total L" "always_sends L" "at_handle L M h s"
  obtains e s' where "api_mls_encrypt_message L h m s = (Ok e, s')"
proof -
  obtain reg r where s: "s = (reg, r)" by (cases s)
  obtain b where b: "\<not> reg_poisoned reg" "reg_entry h reg = Some b" "blob_of L M b"
    using assms(3) unfolding s by (rule at_handleD)
  obtain g st k c where c: "and_then (deserialize_bundle L b) (load_group L) = Ok (g, st, k, c)"
    using b(3) by (cases M) (auto simp: blob_of_def)
  obtain msg g1 st1 r1 ct where m: "grp_create_message L k m (g, (st, r)) = (Ok msg, (g1, (st1, r1)))"
    "msg_serialize L msg = Ok ct" using assms(2) unfolding always_sends_def by (metis surj_pair)
  obtain state where "save_group L g1 st1 k c = Ok state" by (rule save_group_total [OF assms(1)])
  with c m have "\<exists>res r'. mls_encrypt_message L b m r = (Ok res, r')"
    by (simp add: mls_encrypt_message_def with_group_def lift_mls_def serialize_mls_message_def)
  with b(1,2) have "\<exists>e s'. api_mls_encrypt_message L h m s = (Ok e, s')"
    by (auto simp: s api_mls_encrypt_message_def mls_read_def reg_read_def reg_entry_def mls_run_def api_map_err_def
        mls_store_result_def reg_register_def reg_alloc_def Let_def)
  with that show thesis by blast
qed

lemma api_hears:
  assumes "talk_laws L T" "T (k, g, st) (k', g', st')"
    and "grp_create_message L k m (g, (st, r)) = (Ok msg, (g1, (st1, r1)))" "msg_serialize L msg = Ok ct"
    and "at_handle L (k', g', st') h s" "unat (reg_next (fst s)) + 1 < 2 ^ 32"
  obtains d s' g3 st2 where "api_mls_decrypt_message L h ct s = (Ok d, s')" "adr_plaintext d = m"
    "at_handle L (k', g3, st2) (adr_handle d) s'" "T (k, g1, st1) (k', g3, st2)"
    "reg_next (fst s') = reg_next (fst s) + 1"
proof -
  obtain reg q where s: "s = (reg, q)" by (cases s)
  obtain b where b: "\<not> reg_poisoned reg" "handles_below reg" "reg_entry h reg = Some b" "blob_of L (k', g', st') b"
    using assms(5) unfolding s by (rule at_handleD)
  obtain x p g2 st2 r2 g3 where p: "msg_deserialize L ct = Ok x" "msg_into_protocol L x = Ok p"
    "grp_process_message L p (g', (st', q)) = (Ok (ApplicationMessage m), (g2, (st2, r2)))"
    "grp_load L st2 (grp_id L g2) = Ok (Some g3)" "T (k, g1, st1) (k', g3, st2)"
    using talk_lawsD(5) [OF assms(1)] assms(2-4) unfolding messages_arrive_def by metis
  obtain res where res: "mls_decrypt_message L b ct q = (Ok res, r2)" "dcr_plaintext res = m"
    "blob_of L (k', g3, st2) (dcr_group_state res)"
    by (rule decrypt_blob [OF assms(1) b(4) p(1-4)])
  obtain y reg' where reg: "reg_register ''MLS state'' (dcr_group_state res) reg = (y, reg')" by fastforce
  then have y: "y = Ok (reg_next reg)" using b(1) by (auto simp: reg_register_def reg_alloc_def)
  have "api_mls_decrypt_message L h ct s =
      (Ok \<lparr>adr_handle = reg_next reg, adr_plaintext = m\<rparr>, (reg', r2))"
    using b(1,3) res(1,2) reg y
    by (simp add: s api_mls_decrypt_message_def mls_read_def reg_read_def reg_entry_def mls_run_def api_map_err_def
        mls_store_result_def ok_or_def)
  moreover have "at_handle L (k', g3, st2) (reg_next reg) (reg', r2)"
    using at_handle_stored [OF b(1,2) _ res(3) reg] assms(6) s by simp
  ultimately show thesis
    using p(5) reg_register_entry(2) [OF reg] s
    by (intro that [of "\<lparr>adr_handle = reg_next reg, adr_plaintext = m\<rparr>" "(reg', r2)" g3 st2]) simp_all
qed

section \<open>Adding and joining\<close>

lemma key_package_parts:
  assumes "mls_laws L" "mls_generate_key_package L ident r = (Ok res, r')"
  obtains k c env kp st r1 sk cr where "kp_build L CIPHERSUITE k c env = (Ok kp, (st, r1))"
    "kp_serialize L kp = Ok (kpr_key_package res)" "signer_from_json L sk = Ok k" "credential_from_json L cr = Ok c"
    "secrets_from_json L (kpr_secret_bundle res) =
       Ok \<lparr>sb_store = snapshot_store L st, sb_signer = sk, sb_credential_with_key = cr\<rparr>"
proof -
  obtain k c env where k: "new_signer L ident r = (Ok (k, c), env)"
    using assms(2) by (cases "new_signer L ident r"; cases "fst (new_signer L ident r)")
      (auto simp: mls_generate_key_package_def Let_def)
  obtain y st r1 where y: "kp_build L CIPHERSUITE k c env = (y, (st, r1))" by (metis surj_pair)
  with assms(2) k obtain kp where kp: "y = Ok kp"
    by (cases y) (auto simp: mls_generate_key_package_def lift_mls_def Let_def)
  from assms(2) k y kp obtain sk cr where j: "kp_serialize L kp = Ok (kpr_key_package res)"
    "signer_to_json L k = Ok sk" "credential_to_json L c = Ok cr"
    "secrets_to_json L \<lparr>sb_store = snapshot_store L st, sb_signer = sk, sb_credential_with_key = cr\<rparr> =
       Ok (kpr_secret_bundle res)"
    by (auto simp: mls_generate_key_package_def lift_mls_def Let_def ser_err_def outcome_simps)
  with mls_lawsD(2) [OF assms(1)] have "signer_from_json L sk = Ok k" "credential_from_json L cr = Ok c"
    "secrets_from_json L (kpr_secret_bundle res) =
       Ok \<lparr>sb_store = snapshot_store L st, sb_signer = sk, sb_credential_with_key = cr\<rparr>"
    unfolding json_ok_def by blast+
  with that y kp j(1) show thesis by blast
qed

lemma add_member_parts:
  assumes "mls_laws L" "mls_add_member L b kpb r = (Ok res, r')"
  obtains k kp_in kp s0 cm wm s1 g st r2 where "kp_deserialize L kpb = Ok kp_in" "kp_validate L kp_in = Ok kp"
    "grp_add L k kp s0 = (Ok (cm, wm), s1)" "grp_merge_pending L s1 = (Ok (), (g, (st, r2)))"
    "msg_serialize L wm = Ok (amr_welcome res)" "blob_of L (k, g, st) (amr_group_state res)"
proof (rule with_group_Ok [OF assms(2) [unfolded mls_add_member_def]], goal_cases)
  case (1 g0 st0 k c g' st')
  from 1(3) obtain kp_in kp cm wm s1 g st r2 state where parts:
    "kp_deserialize L kpb = Ok kp_in" "kp_validate L kp_in = Ok kp"
    "grp_add L k kp (g0, (st0, r)) = (Ok (cm, wm), s1)" "grp_merge_pending L s1 = (Ok (), (g, (st, r2)))"
    "save_group L g st k c = Ok state" "msg_serialize L wm = Ok (amr_welcome res)" "amr_group_state res = state"
    by (auto simp: outcome_simps serialize_mls_message_def split: prod.splits)
  moreover have "grp_load L st (grp_id L g) = Ok (Some g)"
    using mls_lawsD(5) [OF assms(1) parts(4)] by (simp add: saved_def)
  ultimately show thesis using that saved_blob [OF assms(1)] by blast
qed

lemma welcome_parts:
  assumes "mls_laws L" "mls_process_welcome L wb sb r = (Ok res, r')"
    and "secrets_from_json L sb = Ok \<lparr>sb_store = snapshot_store L st, sb_signer = sk, sb_credential_with_key = cr\<rparr>"
    and "signer_from_json L sk = Ok k" "credential_from_json L cr = Ok c"
  obtains win w staged env g st' r1 where "msg_deserialize L wb = Ok win" "msg_welcome L win = Some w"
    "welcome_stage L default_group_join_config w (st, r) = (Ok staged, env)"
    "welcome_into_group L staged env = (Ok g, (st', r1))" "blob_of L (k, g, st') (pwr_group_state res)"
proof -
  from assms(2-5) obtain win w staged env g st' r1 state where parts:
    "msg_deserialize L wb = Ok win" "msg_welcome L win = Some w"
    "welcome_stage L default_group_join_config w (st, r) = (Ok staged, env)"
    "welcome_into_group L staged env = (Ok g, (st', r1))"
    "save_group L g st' k c = Ok state" "pwr_group_state res = state"
    by (auto simp: mls_process_welcome_def restore_snapshot [OF mls_lawsD(1) [OF assms(1)]] outcome_simps Let_def
        deserialize_mls_message_def split: prod.splits option.splits)
  moreover have "grp_load L st' (grp_id L g) = Ok (Some g)"
    using mls_lawsD(4) [OF assms(1) parts(4)] by (simp add: saved_def)
  ultimately show thesis using that saved_blob [OF assms(1)] by blast
qed

lemma api_adds:
  assumes "mls_laws L" "api_mls_add_member L h kpb s = (Ok add, s')"
    and "handles_below (fst s)" "unat (reg_next (fst s)) + 1 < 2 ^ 32"
  obtains k kp_in kp s0 cm wm s1 g st r2 where "kp_deserialize L kpb = Ok kp_in" "kp_validate L kp_in = Ok kp"
    "grp_add L k kp s0 = (Ok (cm, wm), s1)" "grp_merge_pending L s1 = (Ok (), (g, (st, r2)))"
    "msg_serialize L wm = Ok (aam_welcome add)" "at_handle L (k, g, st) (aam_handle add) s'"
    "reg_next (fst s') = reg_next (fst s) + 1"
proof -
  obtain d r where s: "s = (d, r)" by (cases s)
  obtain d' r' where s': "s' = (d', r')" by (cases s')
  from read_and_store [OF assms(2) [unfolded s s' api_mls_add_member_def prod.case]]
  obtain b res where A: "\<not> reg_poisoned d" "(Ok res, r') = mls_add_member L b kpb r"
    "reg_register ''MLS state'' (amr_group_state res) d = (Ok (reg_next d), d')"
    "aam_handle add = reg_next d" "amr_welcome res = aam_welcome add" by auto
  obtain k kp_in kp s0 cm wm s1 g st r2 where adds: "kp_deserialize L kpb = Ok kp_in"
    "kp_validate L kp_in = Ok kp" "grp_add L k kp s0 = (Ok (cm, wm), s1)"
    "grp_merge_pending L s1 = (Ok (), (g, (st, r2)))" "msg_serialize L wm = Ok (amr_welcome res)"
    "blob_of L (k, g, st) (amr_group_state res)"
    by (rule add_member_parts [OF assms(1) A(2) [symmetric]])
  have "at_handle L (k, g, st) (aam_handle add) s'"
    unfolding A(4) s' using at_handle_stored [OF A(1) _ _ adds(6) A(3)] assms(3,4) s by simp
  with that [OF adds(1-4) adds(5) [unfolded A(5)]] reg_register_entry(2) [OF A(3)] s s' show thesis by simp
qed

lemma api_joins:
  assumes "mls_laws L" "api_mls_process_welcome L wb sb s = (Ok join, s')"
    and "handles_below (fst s)" "unat (reg_next (fst s)) + 1 < 2 ^ 32"
    and "secrets_from_json L sb = Ok \<lparr>sb_store = snapshot_store L st, sb_signer = sk, sb_credential_with_key = cr\<rparr>"
    and "signer_from_json L sk = Ok k" "credential_from_json L cr = Ok c"
  obtains win w staged env g st' r r1 where "msg_deserialize L wb = Ok win" "msg_welcome L win = Some w"
    "welcome_stage L default_group_join_config w (st, r) = (Ok staged, env)"
    "welcome_into_group L staged env = (Ok g, (st', r1))" "at_handle L (k, g, st') (apw_handle join) s'"
    "reg_next (fst s') = reg_next (fst s) + 1"
proof -
  obtain d r where s: "s = (d, r)" by (cases s)
  obtain d' r' where s': "s' = (d', r')" by (cases s')
  from run_and_store [OF assms(2) [unfolded s s' api_mls_process_welcome_def]]
  obtain res where B: "\<not> reg_poisoned d" "(Ok res, r') = mls_process_welcome L wb sb r"
    "reg_register ''MLS state'' (pwr_group_state res) d = (Ok (reg_next d), d')" "apw_handle join = reg_next d"
    by (auto split: if_splits)
  obtain win w staged env g st' r1 where joins: "msg_deserialize L wb = Ok win" "msg_welcome L win = Some w"
    "welcome_stage L default_group_join_config w (st, r) = (Ok staged, env)"
    "welcome_into_group L staged env = (Ok g, (st', r1))" "blob_of L (k, g, st') (pwr_group_state res)"
    by (rule welcome_parts [OF assms(1) B(2) [symmetric] assms(5-7)])
  have "at_handle L (k, g, st') (apw_handle join) s'"
    unfolding B(4) s' using at_handle_stored [OF B(1) _ _ joins(5) B(3)] assms(3,4) s by simp
  with that [OF joins(1-4)] reg_register_entry(2) [OF B(3)] s s' show thesis by simp
qed

text \<open>The two members are in step as soon as the welcome is processed.\<close>

lemma group_is_joined:
  assumes "talk_laws L T" "api_mls_generate_key_package L ident r0 = (Ok kp, r0')"
    and "api_mls_add_member L h (kpr_key_package kp) sA = (Ok add, sA')"
    and "api_mls_process_welcome L (aam_welcome add) (kpr_secret_bundle kp) sB = (Ok join, sB')"
    and "handles_below (fst sA)" "unat (reg_next (fst sA)) + 1 < 2 ^ 32"
    and "handles_below (fst sB)" "unat (reg_next (fst sB)) + 1 < 2 ^ 32"
  obtains M N where "T M N" "at_handle L M (aam_handle add) sA'" "at_handle L N (apw_handle join) sB'"
    "reg_next (fst sA') = reg_next (fst sA) + 1" "reg_next (fst sB') = reg_next (fst sB) + 1"
proof -
  note l = talk_lawsD [OF assms(1)]
  have gen: "mls_generate_key_package L ident r0 = (Ok kp, r0')"
    using assms(2) by (auto simp: api_mls_generate_key_package_def api_map_err_def outcome_simps split: prod.splits)
  obtain k' c' env o1 st r1 sk cr where key: "kp_build L CIPHERSUITE k' c' env = (Ok o1, (st, r1))"
    "kp_serialize L o1 = Ok (kpr_key_package kp)" "signer_from_json L sk = Ok k'" "credential_from_json L cr = Ok c'"
    "secrets_from_json L (kpr_secret_bundle kp) =
       Ok \<lparr>sb_store = snapshot_store L st, sb_signer = sk, sb_credential_with_key = cr\<rparr>"
    by (rule key_package_parts [OF l(1) gen])
  obtain k kp_in o2 s0 cm wm s1 g stA r2 where adds: "kp_deserialize L (kpr_key_package kp) = Ok kp_in"
    "kp_validate L kp_in = Ok o2" "grp_add L k o2 s0 = (Ok (cm, wm), s1)"
    "grp_merge_pending L s1 = (Ok (), (g, (stA, r2)))" "msg_serialize L wm = Ok (aam_welcome add)"
    "at_handle L (k, g, stA) (aam_handle add) sA'" "reg_next (fst sA') = reg_next (fst sA) + 1"
    by (rule api_adds [OF l(1) assms(3,5,6)])
  obtain win w staged env1 gB stB r3 r4 where joins: "msg_deserialize L (aam_welcome add) = Ok win"
    "msg_welcome L win = Some w" "welcome_stage L default_group_join_config w (st, r3) = (Ok staged, env1)"
    "welcome_into_group L staged env1 = (Ok gB, (stB, r4))" "at_handle L (k', gB, stB) (apw_handle join) sB'"
    "reg_next (fst sB') = reg_next (fst sB) + 1"
    by (rule api_joins [OF l(1) assms(4,7,8) key(5,3,4)])
  have "T (k, g, stA) (k', gB, stB)"
    using l(4) [unfolded joins_in_step_def, rule_format, OF key(1,2) adds(1-5) joins(1-4)] .
  with that adds(6,7) joins(5,6) show thesis by blast
qed

section \<open>Taking turns\<close>

text \<open>
  Two devices, each with the handle of its newest state. In a turn one of them encrypts and, if
  that succeeds, the other decrypts what it was sent, and both go on with their new handles. A
  device may also make any other call in between. What comes of it is the list of the messages
  that were sent, each with what the receiver's call returned.
\<close>

record talkers =
  tk_device :: "party \<Rightarrow> mls_state"
  tk_handle :: "party \<Rightarrow> u32"

datatype talk_event = Says party bytes | Calls party mls_op

definition turn ::
  "('g, 'k, 'c, 'i, 'o) openmls \<Rightarrow> party \<Rightarrow> bytes \<Rightarrow> talkers \<Rightarrow> (bytes \<times> bytes api_result) list \<times> talkers"
where
  "turn L a m t = (case api_mls_encrypt_message L (tk_handle t a) m (tk_device t a) of
     (Ok e, s) \<Rightarrow>
       (case api_mls_decrypt_message L (tk_handle t (peer a)) (aer_mls_ciphertext e) (tk_device t (peer a)) of
          (x, s') \<Rightarrow> ([(m, and_then x (\<lambda>d. Ok (adr_plaintext d)))],
            \<lparr>tk_device = (tk_device t)(a := s, peer a := s'),
             tk_handle = (tk_handle t)(a := aer_handle e,
               peer a := (case x of Ok d \<Rightarrow> adr_handle d | _ \<Rightarrow> tk_handle t (peer a)))\<rparr>))
   | (_, s) \<Rightarrow> ([], t\<lparr>tk_device := (tk_device t)(a := s)\<rparr>))"

fun talk_step ::
  "('g, 'k, 'c, 'i, 'o) openmls \<Rightarrow> talk_event \<Rightarrow> talkers \<Rightarrow> (bytes \<times> bytes api_result) list \<times> talkers"
where
  "talk_step L (Says a m) t = turn L a m t"
| "talk_step L (Calls a op) t =
     ([], t\<lparr>tk_device := (tk_device t)(a := snd (mls_call L op (tk_device t a)))\<rparr>)"

fun talk ::
  "('g, 'k, 'c, 'i, 'o) openmls \<Rightarrow> talk_event list \<Rightarrow> talkers \<Rightarrow> (bytes \<times> bytes api_result) list"
where
  "talk L [] t = []"
| "talk L (ev # evs) t = (let (out, t') = talk_step L ev t in out @ talk L evs t')"

fun said :: "talk_event list \<Rightarrow> bytes list" where
  "said [] = []"
| "said (Says a m # evs) = m # said evs"
| "said (Calls a op # evs) = said evs"

text \<open>No call destroys the state its device talks through.\<close>

fun careful :: "('g, 'k, 'c, 'i, 'o) openmls \<Rightarrow> talk_event list \<Rightarrow> talkers \<Rightarrow> bool" where
  "careful L [] t \<longleftrightarrow> True"
| "careful L (ev # evs) t \<longleftrightarrow>
     (case ev of Calls a op \<Rightarrow> destroys op \<noteq> Some (tk_handle t a) | _ \<Rightarrow> True) \<and>
     careful L evs (snd (talk_step L ev t))"

lemma careful_turns: "careful L (map (\<lambda>(a, m). Says a m) xs) t"
  by (induction xs arbitrary: t) (auto split: prod.splits)

definition talking ::
  "('g, 'k, 'c, 'i, 'o) openmls \<Rightarrow> (('g, 'k) mls_member \<Rightarrow> ('g, 'k) mls_member \<Rightarrow> bool) \<Rightarrow> nat \<Rightarrow> talkers \<Rightarrow> bool"
where
  "talking L T n t \<longleftrightarrow> (\<exists>M. \<forall>a. T (M a) (M (peer a)) \<and> at_handle L (M a) (tk_handle t a) (tk_device t a) \<and>
     unat (reg_next (fst (tk_device t a))) + n < 2 ^ 32)"

lemma all_party: "(\<forall>a. P a) \<longleftrightarrow> P b \<and> P (peer b)"
  by (metis neq_imp_peer)

lemma talkingI:
  assumes "talk_laws L T" "T X Y" "at_handle L X (tk_handle t b) (tk_device t b)"
    "at_handle L Y (tk_handle t (peer b)) (tk_device t (peer b))"
    "unat (reg_next (fst (tk_device t b))) + n < 2 ^ 32" "unat (reg_next (fst (tk_device t (peer b)))) + n < 2 ^ 32"
  shows "talking L T n t"
  unfolding talking_def
  by (intro exI [of _ "\<lambda>a. if a = b then X else Y"]) (use assms talk_lawsD(3) [OF assms(1,2)] in \<open>simp add: all_party [of _ b]\<close>)

lemma talking_at:
  assumes "talking L T (Suc n) t"
  obtains X Y where "T X Y" "at_handle L X (tk_handle t a) (tk_device t a)"
    "at_handle L Y (tk_handle t (peer a)) (tk_device t (peer a))"
    "unat (reg_next (fst (tk_device t a))) + 1 + n < 2 ^ 32"
    "unat (reg_next (fst (tk_device t (peer a)))) + 1 + n < 2 ^ 32"
proof -
  from assms obtain M where M: "\<And>a. T (M a) (M (peer a))" "\<And>a. at_handle L (M a) (tk_handle t a) (tk_device t a)"
    "\<And>a. unat (reg_next (fst (tk_device t a))) + Suc n < 2 ^ 32" by (auto simp: talking_def)
  show thesis by (rule that [OF M(1) M(2) M(2)]) (use M(3) in auto)
qed

lemma call_keeps_talking:
  assumes "talk_laws L T" "talking L T (Suc n) t" "destroys op \<noteq> Some (tk_handle t a)"
  shows "talking L T n (t\<lparr>tk_device := (tk_device t)(a := snd (mls_call L op (tk_device t a)))\<rparr>)"
proof -
  obtain X Y where t: "T X Y" "at_handle L X (tk_handle t a) (tk_device t a)"
    "at_handle L Y (tk_handle t (peer a)) (tk_device t (peer a))"
    "unat (reg_next (fst (tk_device t a))) + 1 + n < 2 ^ 32"
    "unat (reg_next (fst (tk_device t (peer a)))) + 1 + n < 2 ^ 32"
    by (rule talking_at [OF assms(2)])
  obtain st r where s: "tk_device t a = (st, r)" by fastforce
  obtain reply st' r' where c: "mls_call L op (st, r) = (reply, (st', r'))" by (rule prod_cases3)
  have room: "unat (reg_next st) + 1 < 2 ^ 32" using t(4) by (simp add: s)
  note k = at_handle_call [OF t(2) [unfolded s] c assms(3) room]
  show ?thesis
    by (rule talkingI [OF assms(1) t(1), where b = a]) (use k t(3-5) s c in simp_all)
qed

lemma turn_keeps_talking:
  assumes "talk_laws L T" "talking L T (Suc n) t" "turn L a m t = (out, t')"
  shows "talking L T n t' \<and> (\<forall>(p, x)\<in>set out. x = Ok p) \<and> (always_sends L \<longrightarrow> map fst out = [m])"
proof -
  obtain k g st k' g' st' where t: "T (k, g, st) (k', g', st')"
    "at_handle L (k, g, st) (tk_handle t a) (tk_device t a)"
    "at_handle L (k', g', st') (tk_handle t (peer a)) (tk_device t (peer a))"
    "unat (reg_next (fst (tk_device t a))) + 1 + n < 2 ^ 32"
    "unat (reg_next (fst (tk_device t (peer a)))) + 1 + n < 2 ^ 32"
    using talking_at [OF assms(2), of a] by (metis prod_cases3)
  then have room: "unat (reg_next (fst (tk_device t a))) + 1 < 2 ^ 32"
    "unat (reg_next (fst (tk_device t (peer a)))) + 1 < 2 ^ 32" by simp_all
  obtain y s where E: "api_mls_encrypt_message L (tk_handle t a) m (tk_device t a) = (y, s)" by (meson surj_pair)
  show ?thesis
  proof (cases y)
    case (Ok e)
    obtain msg g1 st1 r1 where send: "grp_create_message L k m (g, (st, snd (tk_device t a))) = (Ok msg, (g1, (st1, r1)))"
      "msg_serialize L msg = Ok (aer_mls_ciphertext e)" "at_handle L (k, g1, st1) (aer_handle e) s"
      "reg_next (fst s) = reg_next (fst (tk_device t a)) + 1"
      using api_sends [OF talk_lawsD(1) [OF assms(1)] t(2) room(1) E [unfolded Ok]] by blast
    obtain d s' g3 st2 where hear: "api_mls_decrypt_message L (tk_handle t (peer a)) (aer_mls_ciphertext e)
        (tk_device t (peer a)) = (Ok d, s')" "adr_plaintext d = m" "at_handle L (k', g3, st2) (adr_handle d) s'"
      "T (k, g1, st1) (k', g3, st2)" "reg_next (fst s') = reg_next (fst (tk_device t (peer a))) + 1"
      by (rule api_hears [OF assms(1) t(1) send(1,2) t(3) room(2)])
    have out: "out = [(m, Ok m)]" and t': "t' = \<lparr>tk_device = (tk_device t)(a := s, peer a := s'),
        tk_handle = (tk_handle t)(a := aer_handle e, peer a := adr_handle d)\<rparr>"
      using assms(3) E Ok hear(1,2) by (auto simp: turn_def)
    have "talking L T n t'"
      by (rule talkingI [OF assms(1) hear(4), where b = a])
        (use send(3,4) hear(3,5) t(4,5) unat_next [OF room(1)] unat_next [OF room(2)] t' in simp_all)
    with out show ?thesis by simp
  qed (use assms(3) E call_keeps_talking [OF assms(1,2), of "MlsEncrypt (tk_handle t a) m" a]
      api_sends_Ok [OF talk_lawsD(2) [OF assms(1)] _ t(2), of m] in \<open>auto simp: turn_def\<close>)
qed

lemma talk_delivers:
  assumes "talk_laws L T" "talking L T (length evs) t" "careful L evs t"
  shows "(\<forall>(p, x)\<in>set (talk L evs t). x = Ok p) \<and> (always_sends L \<longrightarrow> map fst (talk L evs t) = said evs)"
  using assms(2,3)
proof (induction evs arbitrary: t)
  case (Cons ev evs)
  obtain out t' where step: "talk_step L ev t = (out, t')" by (meson surj_pair)
  have "talking L T (length evs) t' \<and> (\<forall>(p, x)\<in>set out. x = Ok p) \<and> (always_sends L \<longrightarrow> map fst out = said [ev])"
  proof (cases ev)
    case (Says a m)
    with step turn_keeps_talking [OF assms(1) Cons.prems(1) [unfolded list.size(4) add_Suc_right add_0_right]] show ?thesis
      by simp
  next
    case (Calls a op)
    with step call_keeps_talking [OF assms(1) Cons.prems(1) [unfolded list.size(4) add_Suc_right add_0_right], of op a]
      Cons.prems(2) show ?thesis by auto
  qed
  moreover have "said (ev # evs) = said [ev] @ said evs" by (cases ev) simp_all
  ultimately show ?case using Cons.IH [of t'] Cons.prems(2) step by (auto simp: Let_def)
qed simp

lemma received_all: "\<forall>(m, x)\<in>set xs. x = Ok m \<Longrightarrow> map fst xs = ms \<Longrightarrow> xs = map (\<lambda>m. (m, Ok m)) ms"
  by (induction xs arbitrary: ms) auto

section \<open>The property\<close>

definition group_of_two ::
  "ApiAddMemberResult \<Rightarrow> mls_state \<Rightarrow> ApiProcessWelcomeResult \<Rightarrow> mls_state \<Rightarrow> talkers"
where
  "group_of_two add sA join sB = \<lparr>tk_device = (\<lambda>a. case a of Alice \<Rightarrow> sA | Bob \<Rightarrow> sB),
     tk_handle = (\<lambda>a. case a of Alice \<Rightarrow> aam_handle add | Bob \<Rightarrow> apw_handle join)\<rparr>"

lemma create_keeps:
  assumes "api_mls_create_group L ident s = (Ok G, s')" "handles_below (fst s)" "unat (reg_next (fst s)) + 1 < 2 ^ 32"
  shows "handles_below (fst s')" "unat (reg_next (fst s')) \<le> Suc (unat (reg_next (fst s)))"
proof -
  have "mls_call L (MlsCreate ident) (fst s, snd s) = (Stored (acg_handle G), (fst s', snd s'))"
    by (simp add: assms(1))
  from mls_call_effect [OF this] obtain e where "effect_on e (fst s) (fst s')" by blast
  from effect_keeps(1,2) [OF this assms(2,3)] show "handles_below (fst s')"
    "unat (reg_next (fst s')) \<le> Suc (unat (reg_next (fst s)))" by simp_all
qed

text \<open>
  C15. The MLS calls of the interface carry a conversation: once a key package is generated, a group
  created, its owner added to it and the welcome processed, on two devices with any other groups,
  every message whose encryption succeeds is decrypted by the other device to exactly its
  plaintext, in whatever order the two take turns and whatever other calls they make in between,
  as long as these do not destroy the state the device talks through and the handle counter of
  neither device comes round, which bounds the number of calls. If openmls refuses no
  message, all of them are sent and arrive, in order. All either side keeps of a
  group between two calls is the handle of its newest state.
\<close>
theorem group_conversation:
  assumes "talk_laws L T"
    and "api_mls_generate_key_package L identB r0 = (Ok kp, r0')"
    and "api_mls_create_group L identA dA = (Ok G, sA)"
    and "api_mls_add_member L (acg_handle G) (kpr_key_package kp) sA = (Ok add, sA')"
    and "api_mls_process_welcome L (aam_welcome add) (kpr_secret_bundle kp) dB = (Ok join, sB)"
    and "handles_below (fst dA)" and "unat (reg_next (fst dA)) + 2 + length evs < 2 ^ 32"
    and "handles_below (fst dB)" and "unat (reg_next (fst dB)) + 1 + length evs < 2 ^ 32"
    and "careful L evs (group_of_two add sA' join sB)"
  shows "(\<forall>(m, received)\<in>set (talk L evs (group_of_two add sA' join sB)). received = Ok m) \<and>
    (always_sends L \<longrightarrow> talk L evs (group_of_two add sA' join sB) = map (\<lambda>m. (m, Ok m)) (said evs))"
proof -
  have room: "unat (reg_next (fst dA)) + 1 < 2 ^ 32" "unat (reg_next (fst dB)) + 1 < 2 ^ 32"
    using assms(7,9) by simp_all
  note c = create_keeps [OF assms(3,6) room(1)]
  then have room2: "unat (reg_next (fst sA)) + 1 < 2 ^ 32" using assms(7) by simp
  obtain M N where t: "T M N" "at_handle L M (aam_handle add) sA'" "at_handle L N (apw_handle join) sB"
    "reg_next (fst sA') = reg_next (fst sA) + 1" "reg_next (fst sB) = reg_next (fst dB) + 1"
    by (rule group_is_joined [OF assms(1,2,4,5) c(1) room2 assms(8) room(2)])
  have "talking L T (length evs) (group_of_two add sA' join sB)"
    by (rule talkingI [OF assms(1) t(1), where b = Alice])
      (use t c(2) assms(7,9) unat_next [OF room2] unat_next [OF room(2)] in \<open>simp_all add: group_of_two_def\<close>)
  note run = talk_delivers [OF assms(1) this assms(10)]
  with received_all [of "talk L evs (group_of_two add sA' join sB)" "said evs"] show ?thesis by blast
qed

text \<open>The demonstration library keeps its promise.\<close>

definition in_epoch :: "(u64, bytes) mls_member \<Rightarrow> (u64, bytes) mls_member \<Rightarrow> bool" where
  "in_epoch M N \<longleftrightarrow> get_group (snd (snd M)) \<noteq> None \<and> get_group (snd (snd N)) \<noteq> None"

lemma demo_talk_laws: "talk_laws demo_mls in_epoch"
  unfolding talk_laws_def
proof (intro conjI)
  show "mls_laws demo_mls" by (rule demo_mls_laws)
  show "json_total demo_mls" by (simp add: json_total_def demo_mls_fields)
  show "symp in_epoch" by (auto simp: symp_def in_epoch_def)
  show "joins_in_step demo_mls in_epoch"
    by (auto simp: joins_in_step_def demo_mls_def in_epoch_def bump_def)
  show "messages_arrive demo_mls in_epoch"
    by (auto simp: messages_arrive_def demo_mls_fields in_epoch_def demo_content_def)
qed

lemma demo_adds:
  assumes "state_of demo_mls b g"
  obtains x r' where "mls_add_member demo_mls b kp r = (Ok x, r')" "amr_welcome x = [5]"
proof -
  obtain st k c where "and_then (deserialize_bundle demo_mls b) (load_group demo_mls) = Ok (g, st, k, c)"
    using assms by (auto simp: state_of_def)
  moreover have "kp_deserialize demo_mls kp = Ok kp" "kp_validate demo_mls kp = Ok kp"
    "grp_add demo_mls k kp s = (Ok ([2], [5]), s)" "grp_merge_pending demo_mls s = bump s" for s
    by (simp_all add: demo_mls_def)
  ultimately have "\<exists>x r'. mls_add_member demo_mls b kp r = (Ok x, r') \<and> amr_welcome x = [5]"
    by (simp add: mls_add_member_def with_group_def lift_mls_def bump_def save_group_def
        serialize_bundle_def serialize_mls_message_def ser_err_def demo_mls_fields)
  with that show thesis by blast
qed

lemma demo_joins:
  assumes "secrets_from_json demo_mls sb = Ok \<lparr>sb_store = snapshot_store demo_mls st, sb_signer = sk, sb_credential_with_key = cr\<rparr>"
  obtains x r' where "mls_process_welcome demo_mls [5] sb r = (Ok x, r')"
proof -
  have "signer_from_json demo_mls sk = Ok sk" "credential_from_json demo_mls cr = Ok cr" "msg_welcome demo_mls [5] = Some [5]"
    "welcome_stage demo_mls c w env = (Ok w, env)"
    "welcome_into_group demo_mls w (st, r) = (Ok 1, (put_group 1 st, r))" for c w env st r
    by (simp_all add: demo_mls_def)
  then show thesis
    by (intro that) (simp add: mls_process_welcome_def assms restore_snapshot [OF mls_lawsD(1) [OF demo_mls_laws]]
        deserialize_mls_message_def lift_mls_def save_group_def serialize_bundle_def ser_err_def demo_mls_fields)
qed

lemma demo_setup:
  obtains kp r G sA add sA' join sB where "api_mls_generate_key_package demo_mls [66] (\<lambda>i. of_nat i) = (Ok kp, r)"
    "api_mls_create_group demo_mls [65] (reg_empty, \<lambda>i. of_nat i) = (Ok G, sA)"
    "api_mls_add_member demo_mls (acg_handle G) (kpr_key_package kp) sA = (Ok add, sA')"
    "api_mls_process_welcome demo_mls (aam_welcome add) (kpr_secret_bundle kp) (reg_empty, \<lambda>i. of_nat i) = (Ok join, sB)"
proof -
  obtain kp r where kp: "api_mls_generate_key_package demo_mls [66] (\<lambda>i. of_nat i) = (Ok kp, r)"
    by (simp add: api_mls_generate_key_package_def mls_generate_key_package_def new_signer_def demo_mls_def draw_bytes_def
        lift_mls_def ser_err_def api_map_err_def)
  then have gen: "mls_generate_key_package demo_mls [66] (\<lambda>i. of_nat i) = (Ok kp, r)"
    by (auto simp: api_mls_generate_key_package_def api_map_err_def outcome_simps split: prod.splits)
  obtain res r1 where res: "mls_create_group demo_mls [65] (\<lambda>i. of_nat i) = (Ok res, r1)" by (rule demo_create)
  obtain g where g: "state_of demo_mls (cgr_group_state res) g"
    using create_group_state [OF demo_mls_laws res] by (auto simp: loads_as_def)
  obtain x r2 where x: "mls_add_member demo_mls (cgr_group_state res) (kpr_key_package kp) r1 = (Ok x, r2)"
    "amr_welcome x = [5]" by (rule demo_adds [OF g])
  obtain st sk cr where "secrets_from_json demo_mls (kpr_secret_bundle kp) =
      Ok \<lparr>sb_store = snapshot_store demo_mls st, sb_signer = sk, sb_credential_with_key = cr\<rparr>"
    by (rule key_package_parts [OF demo_mls_laws gen])
  then obtain y r3 where y: "mls_process_welcome demo_mls [5] (kpr_secret_bundle kp) (\<lambda>i. of_nat i) = (Ok y, r3)"
    by (rule demo_joins)
  show thesis
    using that kp res x y
    by (simp add: api_mls_create_group_def api_mls_add_member_def api_mls_process_welcome_def mls_run_def mls_read_def
        reg_read_def api_map_err_def mls_store_result_def reg_register_def reg_alloc_def reg_empty_def)
qed

lemma group_conversation_witness:
  "\<exists>kp G add join sA sB. fst (api_mls_generate_key_package demo_mls [66] (\<lambda>i. of_nat i)) = Ok kp \<and>
     fst (api_mls_create_group demo_mls [65] (reg_empty, \<lambda>i. of_nat i)) = Ok G \<and>
     fst (api_mls_process_welcome demo_mls (aam_welcome add) (kpr_secret_bundle kp) (reg_empty, \<lambda>i. of_nat i)) = Ok join \<and>
     talk demo_mls [Says Alice [104], Says Bob [105]] (group_of_two add sA join sB) =
       [([104], Ok [104]), ([105], Ok [105])]"
proof -
  obtain kp r G sA add sA' join sB where s: "api_mls_generate_key_package demo_mls [66] (\<lambda>i. of_nat i) = (Ok kp, r)"
    "api_mls_create_group demo_mls [65] (reg_empty, \<lambda>i. of_nat i) = (Ok G, sA)"
    "api_mls_add_member demo_mls (acg_handle G) (kpr_key_package kp) sA = (Ok add, sA')"
    "api_mls_process_welcome demo_mls (aam_welcome add) (kpr_secret_bundle kp) (reg_empty, \<lambda>i. of_nat i) = (Ok join, sB)"
    by (rule demo_setup)
  let ?evs = "[Says Alice [104], Says Bob [105]]"
  have bounds: "handles_below (fst (reg_empty, \<lambda>i. of_nat i :: u8))"
    "unat (reg_next (fst (reg_empty, \<lambda>i. of_nat i :: u8))) + 2 + length ?evs < 2 ^ 32"
    "unat (reg_next (fst (reg_empty, \<lambda>i. of_nat i :: u8))) + 1 + length ?evs < 2 ^ 32"
    by (simp_all add: below_empty)
  have care: "careful demo_mls ?evs (group_of_two add sA' join sB)"
    by (rule careful_turns [of demo_mls "[(Alice, [104]), (Bob, [105])]", unfolded list.map prod.case])
  have "always_sends demo_mls" by (simp add: always_sends_def demo_mls_fields split_paired_all)
  with group_conversation [OF demo_talk_laws s bounds(1,2,1,3) care]
  have run: "talk demo_mls ?evs (group_of_two add sA' join sB) = [([104], Ok [104]), ([105], Ok [105])]"
    by (simp only: simp_thms said.simps list.map)
  show ?thesis using s(1,2,4) run by (metis fst_conv)
qed

end
