(* ===== verification/Hybrid_Kem.thy ===== *)
theory Hybrid_Kem
  imports Kdf Interfaces
begin

text \<open>
  The hybrid key encapsulation (\<open>src/pqc/hybrid_kem.rs\<close>): ML-KEM-768 and X25519 side by side,
  the two secrets combined by HKDF. The crate ml-kem is a record of functions on encoded keys;
  its own checks on lengths are the \<open>try_into\<close> conversions of the source, which are modelled.
\<close>

section \<open>The ML-KEM crate\<close>

record kem_lib =
  kem_generate :: "rng \<Rightarrow> (bytes \<times> bytes) \<times> rng"
  kem_encaps :: "bytes \<Rightarrow> rng \<Rightarrow> (string, bytes \<times> bytes) outcome \<times> rng"
  kem_decaps :: "bytes \<Rightarrow> bytes \<Rightarrow> (string, bytes) outcome"

definition HYBRID_SALT :: bytes where "HYBRID_SALT = map of_char ''GhostCrypt_Hybrid_PQ''"
definition HYBRID_INFO :: bytes where "HYBRID_INFO = map of_char ''hybrid_shared_secret''"
definition SHARED_SECRET_LEN :: nat where "SHARED_SECRET_LEN = 32"
definition MLKEM_PUBLIC_KEY_LEN :: nat where "MLKEM_PUBLIC_KEY_LEN = 1184"
definition MLKEM_SECRET_KEY_LEN :: nat where "MLKEM_SECRET_KEY_LEN = 2400"
definition MLKEM_CIPHERTEXT_LEN :: nat where "MLKEM_CIPHERTEXT_LEN = 1088"

text \<open>
  The laws of FIPS 203: keys, ciphertexts and secrets have their sizes, encapsulation against a
  generated key succeeds, and decapsulation with the key generated beside it recovers the
  secret (for a correct run, whose failure rate is below \<open>2 ^ (-164)\<close>).
\<close>

definition kem_pair :: "kem_lib \<Rightarrow> bytes \<Rightarrow> bytes \<Rightarrow> bool" where
  "kem_pair L ek dk \<longleftrightarrow> length ek = MLKEM_PUBLIC_KEY_LEN \<and> length dk = MLKEM_SECRET_KEY_LEN \<and>
     (\<forall>r. \<exists>ct ss r'. kem_encaps L ek r = (Ok (ct, ss), r') \<and> length ct = MLKEM_CIPHERTEXT_LEN \<and>
        length ss = 32 \<and> kem_decaps L dk ct = Ok ss)"

definition kem_correct :: "kem_lib \<Rightarrow> bool" where
  "kem_correct L \<longleftrightarrow> (\<forall>r ek dk r'. kem_generate L r = ((ek, dk), r') \<longrightarrow> kem_pair L ek dk)"

section \<open>The operations\<close>

definition generate_kem_keypair :: "kem_lib \<Rightarrow> rng \<Rightarrow> (bytes \<times> bytes) result \<times> rng" where
  "generate_kem_keypair L r = (let ((ek, dk), r') = kem_generate L r in (Ok (ek, dk), r'))"

definition encapsulate :: "kem_lib \<Rightarrow> bytes \<Rightarrow> rng \<Rightarrow> (bytes \<times> bytes) result \<times> rng" where
  "encapsulate L recipient_public_key r =
     (if length recipient_public_key \<noteq> MLKEM_PUBLIC_KEY_LEN then
        (Err (InvalidKey (''ML-KEM public key must be '' @ show_nat MLKEM_PUBLIC_KEY_LEN @
                          '' bytes, got '' @ show_nat (length recipient_public_key))), r)
      else
        (let (x, r') = kem_encaps L recipient_public_key r in
         (map_err (\<lambda>e. KeyExchange (''ML-KEM encapsulation failed: '' @ e)) x, r')))"

definition decapsulate :: "kem_lib \<Rightarrow> bytes \<Rightarrow> bytes \<Rightarrow> bytes result" where
  "decapsulate L secret_key ct =
     (if length secret_key \<noteq> MLKEM_SECRET_KEY_LEN then
        Err (InvalidKey (''ML-KEM secret key must be '' @ show_nat MLKEM_SECRET_KEY_LEN @
                         '' bytes, got '' @ show_nat (length secret_key)))
      else if length ct \<noteq> MLKEM_CIPHERTEXT_LEN then
        Err (InvalidKey (''ML-KEM ciphertext must be '' @ show_nat MLKEM_CIPHERTEXT_LEN @
                         '' bytes, got '' @ show_nat (length ct)))
      else map_err (\<lambda>e. KeyExchange (''ML-KEM decapsulation failed: '' @ e)) (kem_decaps L secret_key ct))"

definition hybrid_shared_secret :: "provider \<Rightarrow> bytes \<Rightarrow> bytes \<Rightarrow> bytes result" where
  "hybrid_shared_secret P x25519_shared mlkem_shared =
     derive P (x25519_shared @ mlkem_shared) HYBRID_SALT HYBRID_INFO SHARED_SECRET_LEN"

record HybridKeyPair =
  hk_x25519_public :: bytes
  hk_x25519_secret :: bytes
  hk_mlkem_public :: bytes
  hk_mlkem_secret :: bytes

definition generate_hybrid_keypair :: "provider \<Rightarrow> kem_lib \<Rightarrow> rng \<Rightarrow> HybridKeyPair result \<times> rng" where
  "generate_hybrid_keypair P L r =
     (let (x25519_secret, r1) = draw_bytes 32 r in
      and_then_st (generate_kem_keypair L r1) (\<lambda>(mlkem_pub, mlkem_sec) r2.
        (Ok \<lparr>hk_x25519_public = x_public P x25519_secret, hk_x25519_secret = x25519_secret,
             hk_mlkem_public = mlkem_pub, hk_mlkem_secret = mlkem_sec\<rparr>, r2)))"

record HybridEncapsulation =
  he_x25519_ephemeral_public :: bytes
  he_mlkem_ciphertext :: bytes
  he_shared_secret :: bytes

definition hybrid_encapsulate ::
  "provider \<Rightarrow> kem_lib \<Rightarrow> bytes \<Rightarrow> bytes \<Rightarrow> bytes \<Rightarrow> rng \<Rightarrow> HybridEncapsulation result \<times> rng"
where
  "hybrid_encapsulate P L our_x25519_secret their_x25519_public their_mlkem_public r =
     and_then_st (encapsulate L their_mlkem_public r) (\<lambda>(mlkem_ct, mlkem_shared) r'.
       (and_then (hybrid_shared_secret P (x_dh P our_x25519_secret their_x25519_public) mlkem_shared)
          (\<lambda>hybrid. Ok \<lparr>he_x25519_ephemeral_public = x_public P our_x25519_secret,
                        he_mlkem_ciphertext = mlkem_ct, he_shared_secret = hybrid\<rparr>), r'))"

definition hybrid_decapsulate ::
  "provider \<Rightarrow> kem_lib \<Rightarrow> bytes \<Rightarrow> bytes \<Rightarrow> bytes \<Rightarrow> bytes \<Rightarrow> bytes result"
where
  "hybrid_decapsulate P L our_x25519_secret their_x25519_public our_mlkem_secret mlkem_ciphertext =
     and_then (decapsulate L our_mlkem_secret mlkem_ciphertext) (\<lambda>mlkem_shared.
       hybrid_shared_secret P (x_dh P our_x25519_secret their_x25519_public) mlkem_shared)"

section \<open>Agreement\<close>

definition hybrid_pair :: "provider \<Rightarrow> kem_lib \<Rightarrow> HybridKeyPair \<Rightarrow> bool" where
  "hybrid_pair P L k \<longleftrightarrow> hk_x25519_public k = x_public P (hk_x25519_secret k) \<and>
     length (hk_x25519_secret k) = 32 \<and> kem_pair L (hk_mlkem_public k) (hk_mlkem_secret k)"

lemma generate_hybrid_total:
  assumes "kem_correct L"
  obtains k r' where "generate_hybrid_keypair P L r = (Ok k, r')" "hybrid_pair P L k"
    "hk_x25519_secret k = map r [0..<32]"
proof -
  obtain ek dk r' where gen: "kem_generate L (\<lambda>i. r (32 + i)) = ((ek, dk), r')" by (metis surj_pair)
  with assms have "kem_pair L ek dk" unfolding kem_correct_def by blast
  with gen show thesis
    by (intro that) (auto simp: generate_hybrid_keypair_def generate_kem_keypair_def draw_bytes_def
        hybrid_pair_def)
qed

lemma hybrid_encapsulate_total:
  assumes "hkdf_total P" "kem_pair L ek dk"
  obtains ct ss okm r' where "hybrid_encapsulate P L s p ek r =
      (Ok \<lparr>he_x25519_ephemeral_public = x_public P s, he_mlkem_ciphertext = ct, he_shared_secret = okm\<rparr>, r')"
    and "decapsulate L dk ct = Ok ss" "hybrid_shared_secret P (x_dh P s p) ss = Ok okm" "length okm = 32"
proof -
  from assms(2) obtain ct ss r' where enc: "kem_encaps L ek r = (Ok (ct, ss), r')"
    "length ct = MLKEM_CIPHERTEXT_LEN" "kem_decaps L dk ct = Ok ss"
    and len: "length ek = MLKEM_PUBLIC_KEY_LEN" "length dk = MLKEM_SECRET_KEY_LEN"
    unfolding kem_pair_def by blast
  have "SHARED_SECRET_LEN \<le> hkdf_max" by (simp add: SHARED_SECRET_LEN_def hkdf_max_def)
  then obtain okm where okm: "hybrid_shared_secret P (x_dh P s p) ss = Ok okm"
    "length okm = SHARED_SECRET_LEN"
    using derive_Ok assms(1) unfolding hybrid_shared_secret_def by blast
  show thesis
    by (rule that [where ct = ct and ss = ss and okm = okm and r' = r'])
      (use enc len okm in \<open>simp_all add: hybrid_encapsulate_def encapsulate_def decapsulate_def
        SHARED_SECRET_LEN_def\<close>)
qed

text \<open>The encapsulation as an agreement: the message is the ciphertext and the sender's X25519 key.\<close>

definition hybrid_offer ::
  "provider \<Rightarrow> kem_lib \<Rightarrow> bytes \<times> bytes \<Rightarrow> bytes \<times> rng \<Rightarrow> bytes result \<times> (bytes \<times> bytes)"
where
  "hybrid_offer P L = (\<lambda>(xpub, kpub) (secret, r).
     case fst (hybrid_encapsulate P L secret xpub kpub r) of
       Ok e \<Rightarrow> (Ok (he_shared_secret e), (he_x25519_ephemeral_public e, he_mlkem_ciphertext e))
     | Err x \<Rightarrow> (Err x, ([], [])) | Panic \<Rightarrow> (Panic, ([], [])))"

definition hybrid_accept :: "provider \<Rightarrow> kem_lib \<Rightarrow> HybridKeyPair \<Rightarrow> bytes \<times> bytes \<Rightarrow> bytes result" where
  "hybrid_accept P L k = (\<lambda>(xpub, ct).
     hybrid_decapsulate P L (hk_x25519_secret k) xpub (hk_mlkem_secret k) ct)"

interpretation hybrid: agreement
    "\<lambda>k p. dh_commutes P \<and> hkdf_total P \<and> hybrid_pair P L k \<and> p = (hk_x25519_public k, hk_mlkem_public k)"
    "\<lambda>_. True" "hybrid_offer P L" "hybrid_accept P L" for P L
proof
  fix k p and seed :: "bytes \<times> rng" and s m
  assume ok: "dh_commutes P \<and> hkdf_total P \<and> hybrid_pair P L k \<and> p = (hk_x25519_public k, hk_mlkem_public k)"
    and offer: "hybrid_offer P L p seed = (s, m)"
  obtain secret r where seed: "seed = (secret, r)" by (cases seed)
  from ok have pair: "kem_pair L (hk_mlkem_public k) (hk_mlkem_secret k)"
    by (simp add: hybrid_pair_def)
  have com: "x_dh P (hk_x25519_secret k) (x_public P secret) = x_dh P secret (hk_x25519_public k)"
    using ok by (simp add: hybrid_pair_def dh_commutes_def)
  from ok pair obtain ct ss okm r' where
    "hybrid_encapsulate P L secret (hk_x25519_public k) (hk_mlkem_public k) r =
      (Ok \<lparr>he_x25519_ephemeral_public = x_public P secret, he_mlkem_ciphertext = ct,
           he_shared_secret = okm\<rparr>, r')"
    "decapsulate L (hk_mlkem_secret k) ct = Ok ss"
    "hybrid_shared_secret P (x_dh P secret (hk_x25519_public k)) ss = Ok okm"
    using hybrid_encapsulate_total by metis
  with offer ok seed com show "hybrid_accept P L k m = s"
    by (auto simp: hybrid_offer_def hybrid_accept_def hybrid_decapsulate_def)
qed

section \<open>Properties\<close>

text \<open>A concrete library: keys are padded seeds, the secret adds key and ciphertext.\<close>

definition demo_kem :: kem_lib where
  "demo_kem = \<lparr>
     kem_generate = (\<lambda>r. let (seed, r') = draw_bytes 32 r in
       ((pad_to MLKEM_PUBLIC_KEY_LEN seed, pad_to MLKEM_SECRET_KEY_LEN seed), r')),
     kem_encaps = (\<lambda>ek r. let (n, r') = draw_bytes 32 r in
       (Ok (pad_to MLKEM_CIPHERTEXT_LEN n, map2 (+) (pad_to 32 ek) (pad_to 32 n)), r')),
     kem_decaps = (\<lambda>dk ct. Ok (map2 (+) (pad_to 32 dk) (pad_to 32 ct)))\<rparr>"

lemma pad_to_pad_to: "m \<le> n \<Longrightarrow> pad_to m (pad_to n b) = pad_to m b"
  by (simp add: pad_to_def min_def)

lemma demo_kem_correct: "kem_correct demo_kem"
  by (auto simp: kem_correct_def kem_pair_def demo_kem_def draw_bytes_def Let_def pad_to_pad_to
      MLKEM_PUBLIC_KEY_LEN_def MLKEM_SECRET_KEY_LEN_def MLKEM_CIPHERTEXT_LEN_def)

text \<open>
  C36. Hybrid encapsulation against a generated key pair succeeds for every sender secret, and
  decapsulation with that key pair, given the ciphertext and the sender's public key from the
  result, derives the same 32-byte secret.
\<close>
theorem hybrid_agreement:
  assumes "dh_commutes P" and "hkdf_total P" and "kem_correct L"
    and "generate_hybrid_keypair P L r = (Ok k, r')"
  shows "\<exists>e r''. hybrid_encapsulate P L secret (hk_x25519_public k) (hk_mlkem_public k) g = (Ok e, r'') \<and>
    hybrid_decapsulate P L (hk_x25519_secret k) (he_x25519_ephemeral_public e) (hk_mlkem_secret k)
      (he_mlkem_ciphertext e) = Ok (he_shared_secret e) \<and> length (he_shared_secret e) = 32"
proof -
  obtain k' g' where "generate_hybrid_keypair P L r = (Ok k', g')" "hybrid_pair P L k'"
    by (rule generate_hybrid_total [OF assms(3)])
  with assms(4) have pair: "hybrid_pair P L k" by simp
  then have kem: "kem_pair L (hk_mlkem_public k) (hk_mlkem_secret k)" by (simp add: hybrid_pair_def)
  obtain ct ss okm r'' where run: "hybrid_encapsulate P L secret (hk_x25519_public k) (hk_mlkem_public k) g =
      (Ok \<lparr>he_x25519_ephemeral_public = x_public P secret, he_mlkem_ciphertext = ct,
           he_shared_secret = okm\<rparr>, r'')" "length okm = 32"
    by (rule hybrid_encapsulate_total [OF assms(2) kem])
  then have "hybrid_offer P L (hk_x25519_public k, hk_mlkem_public k) (secret, g) =
      (Ok okm, (x_public P secret, ct))"
    by (simp add: hybrid_offer_def)
  with assms(1,2) pair have "hybrid_accept P L k (x_public P secret, ct) = Ok okm"
    by (intro hybrid.agree) simp_all
  with run show ?thesis by (auto simp: hybrid_accept_def)
qed

lemma hybrid_agreement_witness:
  "\<exists>k e. fst (generate_hybrid_keypair demo_provider demo_kem (\<lambda>i. of_nat i)) = Ok k \<and>
     fst (hybrid_encapsulate demo_provider demo_kem (replicate 32 3) (hk_x25519_public k)
       (hk_mlkem_public k) (\<lambda>_. 8)) = Ok e \<and>
     hybrid_decapsulate demo_provider demo_kem (hk_x25519_secret k) (he_x25519_ephemeral_public e)
       (hk_mlkem_secret k) (he_mlkem_ciphertext e) = Ok (he_shared_secret e)"
proof -
  note l = ratchet_lawsD [OF demo_ratchet_laws]
  obtain k r' where gen: "generate_hybrid_keypair demo_provider demo_kem (\<lambda>i. of_nat i) = (Ok k, r')"
    by (rule generate_hybrid_total [OF demo_kem_correct])
  from hybrid_agreement [OF l(1,3) demo_kem_correct gen] gen show ?thesis
    by (metis fst_conv)
qed

text \<open>
  Keys and ciphertexts of a wrong length are refused by name and count: encapsulation does
  not draw any randomness then, and decapsulation looks at the key before the ciphertext.
\<close>
theorem hybrid_rejects_lengths:
  assumes "length ek \<noteq> 1184" and "length dk \<noteq> 2400" and "length dk' = 2400" and "length ct \<noteq> 1088"
  shows "hybrid_encapsulate P L s p ek r = (Err (InvalidKey
      (''ML-KEM public key must be 1184 bytes, got '' @ show_nat (length ek))), r) \<and>
    hybrid_decapsulate P L s p dk c = Err (InvalidKey
      (''ML-KEM secret key must be 2400 bytes, got '' @ show_nat (length dk))) \<and>
    hybrid_decapsulate P L s p dk' ct = Err (InvalidKey
      (''ML-KEM ciphertext must be 1088 bytes, got '' @ show_nat (length ct)))"
proof -
  have "show_nat 1184 = ''1184''" "show_nat 2400 = ''2400''" "show_nat 1088 = ''1088''"
    by (simp_all add: show_nat.simps digit_char_def char_of_def bit_Suc_0_iff)
  with assms show ?thesis
    by (simp add: hybrid_encapsulate_def encapsulate_def hybrid_decapsulate_def decapsulate_def
        MLKEM_PUBLIC_KEY_LEN_def MLKEM_SECRET_KEY_LEN_def MLKEM_CIPHERTEXT_LEN_def)
qed

lemma hybrid_rejects_lengths_witness:
  "fst (hybrid_encapsulate demo_provider demo_kem [1] [2] [3] (\<lambda>_. 0)) =
    Err (InvalidKey (''ML-KEM public key must be 1184 bytes, got '' @ show_nat 1))"
  using hybrid_rejects_lengths [of "[3]" "[]" "replicate 2400 0" "[]" demo_provider demo_kem "[1]" "[2]"
      "\<lambda>_. 0" "[]"]
  by simp

end
