(* ===== verification/Ref_Cell.thy ===== *)
theory Ref_Cell
  imports Errors Interfaces
begin

text \<open>
  The handle maps of \<open>src/wasm.rs\<close>: each is a \<open>HashMap\<close> in a thread-local \<open>RefCell\<close>. A cell
  counts its borrows at run time: \<open>borrow\<close> panics while it is mutably borrowed, \<open>borrow_mut\<close>
  while it is borrowed at all. The crate's targets are those of WebAssembly, where a panic
  aborts the call without unwinding: the guards of the borrows that are open when it happens are
  never dropped, and the cell stays borrowed for every later call into the module.
\<close>

section \<open>The cell\<close>

text \<open>What is left open of the borrows when no call is running.\<close>

datatype borrow_flag = Unborrowed | Shared | Exclusive

record 'v cell =
  cell_map :: "(u32, 'v) fmap"
  cell_flag :: borrow_flag

definition cell_new :: "'v cell" where
  "cell_new = \<lparr>cell_map = fmempty, cell_flag = Unborrowed\<rparr>"

text \<open>
  \<open>store.borrow()\<close> for the time of a computation that reads the map; \<open>g\<close> is whatever else the
  computation reads and writes. A panic inside it leaves a shared borrow open.
\<close>

definition cell_borrow ::
  "((u32, 'v) fmap \<Rightarrow> 'g \<Rightarrow> ('e, 'a) outcome \<times> 'g) \<Rightarrow> 'v cell \<times> 'g \<Rightarrow> ('e, 'a) outcome \<times> ('v cell \<times> 'g)"
where
  "cell_borrow f = (\<lambda>(c, g).
     if cell_flag c = Exclusive then (Panic, (c, g))
     else (let (x, g') = f (cell_map c) g in
           (x, (case x of Panic \<Rightarrow> c\<lparr>cell_flag := Shared\<rparr> | _ \<Rightarrow> c, g'))))"

text \<open>\<open>store.borrow_mut()\<close>: a panic inside leaves the exclusive borrow open.\<close>

definition cell_borrow_mut ::
  "((u32, 'v) fmap \<times> 'g \<Rightarrow> ('e, 'a) outcome \<times> ((u32, 'v) fmap \<times> 'g)) \<Rightarrow>
   'v cell \<times> 'g \<Rightarrow> ('e, 'a) outcome \<times> ('v cell \<times> 'g)"
where
  "cell_borrow_mut f = (\<lambda>(c, g).
     if cell_flag c \<noteq> Unborrowed then (Panic, (c, g))
     else (let (x, (m', g')) = f (cell_map c, g) in
           (x, (\<lparr>cell_map = m', cell_flag = (case x of Panic \<Rightarrow> Exclusive | _ \<Rightarrow> Unborrowed)\<rparr>, g'))))"

section \<open>What the module does with its cells\<close>

text \<open>The error of a call that names a handle the store does not hold.\<close>

definition not_found :: "string \<Rightarrow> u32 \<Rightarrow> string" where
  "not_found noun h = noun @ '' handle '' @ show_nat (unat h) @ '' not found''"

text \<open>\<open>store.borrow_mut().insert(handle, v)\<close>\<close>

definition cell_insert :: "u32 \<Rightarrow> 'v \<Rightarrow> 'v cell \<times> 'g \<Rightarrow> (string, unit) outcome \<times> ('v cell \<times> 'g)" where
  "cell_insert h v = cell_borrow_mut (\<lambda>(m, g). (Ok (), (fmupd h v m, g)))"

text \<open>\<open>let map = store.borrow(); map.get(&h).ok_or_else(..)?\<close> and a computation on the value.\<close>

definition cell_read ::
  "string \<Rightarrow> u32 \<Rightarrow> ('v \<Rightarrow> 'g \<Rightarrow> (string, 'a) outcome \<times> 'g) \<Rightarrow> 'v cell \<times> 'g \<Rightarrow> (string, 'a) outcome \<times> ('v cell \<times> 'g)"
where
  "cell_read noun h f = cell_borrow (\<lambda>m g.
     and_then_st (ok_or (not_found noun h) (fmlookup m h), g) f)"

text \<open>\<open>let mut map = store.borrow_mut(); map.get_mut(&h).ok_or_else(..)?\<close> and a call on the entry.\<close>

definition cell_modify ::
  "string \<Rightarrow> u32 \<Rightarrow> ('v \<times> 'g \<Rightarrow> (string, 'a) outcome \<times> ('v \<times> 'g)) \<Rightarrow>
   'v cell \<times> 'g \<Rightarrow> (string, 'a) outcome \<times> ('v cell \<times> 'g)"
where
  "cell_modify noun h f = cell_borrow_mut (\<lambda>(m, g).
     case fmlookup m h of
       None \<Rightarrow> (Err (not_found noun h), (m, g))
     | Some v \<Rightarrow> (let (x, (v', g')) = f (v, g) in (x, (fmupd h v' m, g'))))"

text \<open>\<open>store.borrow_mut().remove(&h).is_some()\<close>\<close>

definition cell_remove :: "u32 \<Rightarrow> 'v cell \<times> 'g \<Rightarrow> (string, bool) outcome \<times> ('v cell \<times> 'g)" where
  "cell_remove h = cell_borrow_mut (\<lambda>(m, g). (Ok (fmlookup m h \<noteq> None), (fmdrop h m, g)))"

section \<open>The laws of the maps\<close>

definition cell_entry :: "u32 \<Rightarrow> 'v cell \<Rightarrow> 'v option" where
  "cell_entry h c = fmlookup (cell_map c) h"

definition cell_put :: "u32 \<Rightarrow> 'v \<Rightarrow> 'v cell \<Rightarrow> 'v cell" where
  "cell_put h v c = c\<lparr>cell_map := fmupd h v (cell_map c)\<rparr>"

definition cell_drop :: "u32 \<Rightarrow> 'v cell \<Rightarrow> 'v cell" where
  "cell_drop h c = c\<lparr>cell_map := fmdrop h (cell_map c)\<rparr>"

lemma cell_entry_simps [simp]:
  "cell_entry h (c\<lparr>cell_flag := f\<rparr>) = cell_entry h c"
  "cell_entry h (cell_put k v c) = (if h = k then Some v else cell_entry h c)"
  "cell_entry h (cell_drop k c) = (if h = k then None else cell_entry h c)"
  "cell_flag (cell_put k v c) = cell_flag c" "cell_flag (cell_drop k c) = cell_flag c"
  "cell_entry h cell_new = None" "cell_flag cell_new = Unborrowed"
  by (simp_all add: cell_entry_def cell_put_def cell_drop_def cell_new_def fmlookup_drop)

text \<open>A cell with the counter of the module is a store of values under handles.\<close>

interpretation cell: handle_store
  "\<lambda>v (c, n). (n, (cell_put n v c, n + 1))" "\<lambda>h (c, n). cell_entry h c"
  "\<lambda>h v (c, n). (cell_put h v c, n)" "\<lambda>h (c, n). (cell_drop h c, n)"
  "\<lambda>(c, n). cell_entry n c \<noteq> None"
  by unfold_locales (auto split: if_splits)

text \<open>The operations on a cell none of whose borrows is open.\<close>

lemma cell_insert_free:
  "cell_flag c = Unborrowed \<Longrightarrow> cell_insert h v (c, g) = (Ok (), (cell_put h v c, g))"
  by (simp add: cell_insert_def cell_borrow_mut_def cell_put_def)

lemma cell_insert_taken:
  "cell_flag c \<noteq> Unborrowed \<Longrightarrow> cell_insert h v (c, g) = (Panic, (c, g))"
  by (simp add: cell_insert_def cell_borrow_mut_def)

lemma cell_read_found:
  assumes "cell_flag c \<noteq> Exclusive" "cell_entry h c = Some v"
  shows "cell_read noun h f (c, g) =
    (let (x, g') = f v g in (x, (case x of Panic \<Rightarrow> c\<lparr>cell_flag := Shared\<rparr> | _ \<Rightarrow> c, g')))"
  using assms by (simp add: cell_read_def cell_borrow_def cell_entry_def)

lemma cell_read_missing:
  "cell_flag c \<noteq> Exclusive \<Longrightarrow> cell_entry h c = None \<Longrightarrow>
     cell_read noun h f (c, g) = (Err (not_found noun h), (c, g))"
  by (simp add: cell_read_def cell_borrow_def cell_entry_def)

lemma cell_read_taken:
  "cell_flag c = Exclusive \<Longrightarrow> cell_read noun h f (c, g) = (Panic, (c, g))"
  by (simp add: cell_read_def cell_borrow_def)

lemma cell_modify_found:
  assumes "cell_flag c = Unborrowed" "cell_entry h c = Some v" "f (v, g) = (x, (v', g'))"
  shows "cell_modify noun h f (c, g) =
    (x, (case x of Panic \<Rightarrow> (cell_put h v' c)\<lparr>cell_flag := Exclusive\<rparr> | _ \<Rightarrow> cell_put h v' c, g'))"
  using assms
  by (cases x) (simp_all add: cell_modify_def cell_borrow_mut_def cell_entry_def cell_put_def)

lemma cell_modify_missing:
  "cell_flag c = Unborrowed \<Longrightarrow> cell_entry h c = None \<Longrightarrow>
     cell_modify noun h f (c, g) = (Err (not_found noun h), (c, g))"
  by (simp add: cell_modify_def cell_borrow_mut_def cell_entry_def)

lemma cell_modify_taken:
  "cell_flag c \<noteq> Unborrowed \<Longrightarrow> cell_modify noun h f (c, g) = (Panic, (c, g))"
  by (simp add: cell_modify_def cell_borrow_mut_def)

lemma cell_remove_cases:
  "cell_remove h (c, g) =
     (if cell_flag c = Unborrowed then (Ok (cell_entry h c \<noteq> None), (cell_drop h c, g))
      else (Panic, (c, g)))"
  by (simp add: cell_remove_def cell_borrow_mut_def cell_entry_def cell_drop_def)

lemma cell_read_frame:
  assumes "cell_read noun h f (c, g) = (x, (c', g'))"
  shows "cell_map c' = cell_map c"
  using assms
  by (auto simp: cell_read_def cell_borrow_def Let_def split: if_splits prod.splits outcome.splits)

lemma cell_read_Ok:
  assumes "cell_read noun h f (c, g) = (Ok a, (c', g'))"
  obtains v where "cell_entry h c = Some v" "f v g = (Ok a, g')" "c' = c"
proof (cases "cell_flag c = Exclusive")
  case True
  with assms show thesis by (simp add: cell_read_taken)
next
  case False
  show thesis
  proof (cases "cell_entry h c")
    case None
    with False assms show thesis by (simp add: cell_read_missing)
  next
    case (Some v)
    obtain x u where f: "f v g = (x, u)" by fastforce
    from assms have "x = Ok a" "c' = c" "u = g'"
      by (cases x; simp add: cell_read_found [where f = f and g = g, OF False Some] f; fail)+
    with f that [OF Some] show thesis by simp
  qed
qed

lemma cell_read_rest:
  assumes "cell_read noun h f (c, g) = (x, (c', g'))" "\<And>v y u. f v g = (y, u) \<Longrightarrow> R u" "R g"
  shows "R g'"
proof (cases "cell_flag c = Exclusive \<or> cell_entry h c = None")
  case True
  with assms(1,3) show ?thesis
    by (cases "cell_flag c = Exclusive") (auto simp: cell_read_taken cell_read_missing)
next
  case False
  then obtain v where v: "cell_flag c \<noteq> Exclusive" "cell_entry h c = Some v" by auto
  obtain y u where f: "f v g = (y, u)" by fastforce
  with assms(1,2) show ?thesis
    by (auto simp: cell_read_found [where f = f and g = g, OF v])
qed

lemma cell_modify_frame:
  assumes "cell_modify noun h f (c, g) = (x, (c', g'))"
  shows "cell_entry j c' = None \<longleftrightarrow> cell_entry j c = None" "j \<noteq> h \<Longrightarrow> cell_entry j c' = cell_entry j c"
  using assms
  by (auto simp: cell_modify_def cell_borrow_mut_def cell_entry_def Let_def
      split: if_splits prod.splits option.splits)

end
