(* ===== verification/Js_Lib.thy ===== *)
theory Js_Lib
  imports Mls_Demo
begin

text \<open>
  What \<open>src/wasm.rs\<close> uses of the crates \<open>base64\<close> and \<open>serde_json\<close>, as a parameter: the standard
  base64 engine, the type of JSON values with the constructors that the macro \<open>json!\<close> expands
  to, and the accessors. The laws are the documented behaviour the module relies on; a concrete
  library that satisfies them follows, for the witnesses.
\<close>

section \<open>The library\<close>

text \<open>
  \<open>enc64\<close> and \<open>dec64\<close> are \<open>STANDARD.encode\<close> and \<open>decode\<close>, the error being the \<open>Display\<close> text;
  \<open>json_index v k\<close> is \<open>v[k]\<close>, which is \<open>Value::Null\<close> where there is no such field; a \<open>u32\<close> or
  \<open>u64\<close> in \<open>json!\<close> becomes the number of that value.
\<close>

record 'j js_lib =
  enc64 :: "bytes \<Rightarrow> string"
  dec64 :: "string \<Rightarrow> (string, bytes) outcome"
  json_parse :: "string \<Rightarrow> (string, 'j) outcome"
  json_print :: "'j \<Rightarrow> (string, string) outcome"
  json_null :: 'j
  json_string :: "string \<Rightarrow> 'j"
  json_number :: "u64 \<Rightarrow> 'j"
  json_object :: "(string \<times> 'j) list \<Rightarrow> 'j"
  json_array :: "'j list \<Rightarrow> 'j"
  json_index :: "'j \<Rightarrow> string \<Rightarrow> 'j"
  json_as_str :: "'j \<Rightarrow> string option"
  json_as_u64 :: "'j \<Rightarrow> u64 option"

section \<open>The laws\<close>

definition b64_laws :: "'j js_lib \<Rightarrow> bool" where
  "b64_laws J \<longleftrightarrow> (\<forall>b. dec64 J (enc64 J b) = Ok b) \<and> (\<forall>s. dec64 J s \<noteq> Panic)"

text \<open>
  The documents of the module: objects of strings, numbers, and objects of strings and numbers.
  Printing a value never fails, and these are read back as they were.
\<close>

definition leaf :: "'j js_lib \<Rightarrow> 'j \<Rightarrow> bool" where
  "leaf J v \<longleftrightarrow> (\<exists>s. v = json_string J s) \<or> (\<exists>n. v = json_number J n)"

definition branch :: "'j js_lib \<Rightarrow> 'j \<Rightarrow> bool" where
  "branch J v \<longleftrightarrow> leaf J v \<or> (\<exists>fs. v = json_object J fs \<and> list_all (\<lambda>(k, x). leaf J x) fs)"

definition document :: "'j js_lib \<Rightarrow> 'j \<Rightarrow> bool" where
  "document J v \<longleftrightarrow> (\<exists>fs. v = json_object J fs \<and> list_all (\<lambda>(k, x). branch J x) fs)"

definition text_laws :: "'j js_lib \<Rightarrow> bool" where
  "text_laws J \<longleftrightarrow>
     (\<forall>v. \<exists>s. json_print J v = Ok s) \<and>
     (\<forall>v s. document J v \<longrightarrow> json_print J v = Ok s \<longrightarrow> json_parse J s = Ok v) \<and>
     (\<forall>s. json_parse J s \<noteq> Panic)"

definition value_laws :: "'j js_lib \<Rightarrow> bool" where
  "value_laws J \<longleftrightarrow>
     (\<forall>fs k. distinct (map fst fs) \<longrightarrow>
        json_index J (json_object J fs) k = (case map_of fs k of Some v \<Rightarrow> v | None \<Rightarrow> json_null J)) \<and>
     (\<forall>s. json_as_str J (json_string J s) = Some s) \<and> (\<forall>n. json_as_u64 J (json_number J n) = Some n) \<and>
     json_as_str J (json_null J) = None"

definition js_laws :: "'j js_lib \<Rightarrow> bool" where
  "js_laws J \<longleftrightarrow> b64_laws J \<and> text_laws J \<and> value_laws J"

named_theorems json_simps \<open>reading back what was put into JSON and base64\<close>

lemma js_lawsD:
  assumes "js_laws J"
  shows "dec64 J (enc64 J b) = Ok b" "dec64 J s \<noteq> Panic" "json_parse J s \<noteq> Panic"
    "document J v \<Longrightarrow> json_print J v = Ok s \<Longrightarrow> json_parse J s = Ok v"
    "distinct (map fst fs) \<Longrightarrow>
       json_index J (json_object J fs) k = (case map_of fs k of Some v \<Rightarrow> v | None \<Rightarrow> json_null J)"
    "json_as_str J (json_string J t) = Some t" "json_as_u64 J (json_number J n) = Some n"
    "json_as_str J (json_null J) = None"
  using assms by (auto simp: js_laws_def b64_laws_def text_laws_def value_laws_def)

lemma print_total:
  assumes "js_laws J"
  obtains s where "json_print J v = Ok s"
  using assms that unfolding js_laws_def text_laws_def by blast

lemma documentI:
  "list_all (\<lambda>(k, x). branch J x) fs \<Longrightarrow> document J (json_object J fs)"
  "branch J (json_string J s)" "branch J (json_number J n)"
  "leaf J (json_string J s)" "leaf J (json_number J n)"
  "list_all (\<lambda>(k, x). leaf J x) fs \<Longrightarrow> branch J (json_object J fs)"
  by (auto simp: document_def branch_def leaf_def)

section \<open>A concrete library\<close>

text \<open>A value is its own text: a tag and the content, objects and arrays as frames.\<close>

definition tagged_fields :: "string \<Rightarrow> (string \<times> string) list" where
  "tagged_fields v = (case v of
     t # s \<Rightarrow> if t = CHR ''o'' then pair_up (get_frames (unchars s)) else []
   | [] \<Rightarrow> [])"

definition demo_js :: "string js_lib" where
  "demo_js = \<lparr>
     enc64 = chars, dec64 = (\<lambda>s. Ok (unchars s)),
     json_parse = (\<lambda>s. Ok s), json_print = (\<lambda>v. Ok v),
     json_null = ''n'',
     json_string = (\<lambda>s. CHR ''s'' # s),
     json_number = (\<lambda>n. CHR ''d'' # show_nat (unat n)),
     json_object = (\<lambda>fs. CHR ''o'' # chars (put_frames (flat_pairs fs))),
     json_array = (\<lambda>vs. CHR ''a'' # chars (put_frames (map unchars vs))),
     json_index = (\<lambda>v k. case map_of (tagged_fields v) k of Some x \<Rightarrow> x | None \<Rightarrow> ''n''),
     json_as_str = (\<lambda>v. case v of t # s \<Rightarrow> if t = CHR ''s'' then Some s else None | [] \<Rightarrow> None),
     json_as_u64 = (\<lambda>v. case v of t # s \<Rightarrow> if t = CHR ''d'' then Some (of_nat (read_nat s)) else None
                              | [] \<Rightarrow> None)\<rparr>"

lemma demo_js_laws: "js_laws demo_js"
  by (simp add: js_laws_def b64_laws_def text_laws_def value_laws_def demo_js_def tagged_fields_def
      get_put_frames read_show_nat split: option.split)

end
