(* ===== verification/Wasm.thy ===== *)
theory Wasm
  imports Ref_Cell Js_Lib Api_Sessions
begin

text \<open>
  The interface of \<open>src/wasm.rs\<close>: keys, sessions and MLS states live in four thread-local maps
  and are named by handles from one counter; data crosses as JSON text with base64 strings. The
  state of a call is the module's thread-local state and the entropy source. An error is the text
  of the \<open>JsError\<close>; a panic aborts the call (see \<open>Ref_Cell\<close>).
\<close>

section \<open>State\<close>

record wasm =
  identity_keys :: "IdentityKeyPair cell"
  spk_keys :: "SignedPreKey cell"
  session_cell :: "Session cell"
  mls_cell :: "bytes cell"
  next_handle :: u32

type_synonym wasm_state = "wasm \<times> rng"

definition wasm_init :: wasm where
  "wasm_init = \<lparr>identity_keys = cell_new, spk_keys = cell_new, session_cell = cell_new,
     mls_cell = cell_new, next_handle = 1\<rparr>"

text \<open>\<open>current + 1\<close> on the \<open>u32\<close> of \<open>NEXT_ID\<close>: the release profile does not check for overflow.\<close>

definition next_id :: "wasm \<Rightarrow> u32 \<times> wasm" where
  "next_id w = (next_handle w, w\<lparr>next_handle := next_handle w + 1\<rparr>)"

text \<open>\<open>IDENTITY_KEYS.with(..)\<close> and its three siblings.\<close>

definition with_identity_keys ::
  "(IdentityKeyPair cell \<times> rng \<Rightarrow> 'a \<times> (IdentityKeyPair cell \<times> rng)) \<Rightarrow> wasm_state \<Rightarrow> 'a \<times> wasm_state"
where
  "with_identity_keys f = (\<lambda>(w, r).
     let (x, (c, r')) = f (identity_keys w, r) in (x, (w\<lparr>identity_keys := c\<rparr>, r')))"

definition with_spk_keys ::
  "(SignedPreKey cell \<times> rng \<Rightarrow> 'a \<times> (SignedPreKey cell \<times> rng)) \<Rightarrow> wasm_state \<Rightarrow> 'a \<times> wasm_state"
where
  "with_spk_keys f = (\<lambda>(w, r).
     let (x, (c, r')) = f (spk_keys w, r) in (x, (w\<lparr>spk_keys := c\<rparr>, r')))"

definition with_sessions ::
  "(Session cell \<times> rng \<Rightarrow> 'a \<times> (Session cell \<times> rng)) \<Rightarrow> wasm_state \<Rightarrow> 'a \<times> wasm_state"
where
  "with_sessions f = (\<lambda>(w, r).
     let (x, (c, r')) = f (session_cell w, r) in (x, (w\<lparr>session_cell := c\<rparr>, r')))"

definition with_mls_states ::
  "(bytes cell \<times> rng \<Rightarrow> 'a \<times> (bytes cell \<times> rng)) \<Rightarrow> wasm_state \<Rightarrow> 'a \<times> wasm_state"
where
  "with_mls_states f = (\<lambda>(w, r).
     let (x, (c, r')) = f (mls_cell w, r) in (x, (w\<lparr>mls_cell := c\<rparr>, r')))"

section \<open>Arguments and replies\<close>

text \<open>\<open>BASE64.decode(s).map_err(|e| JsError::new(..))?\<close> on the argument or field \<open>name\<close>.\<close>

definition arg64 :: "'j js_lib \<Rightarrow> string \<Rightarrow> string \<Rightarrow> bytes api_result" where
  "arg64 J name s = map_err (\<lambda>e. ''Invalid '' @ name @ '' base64: '' @ e) (dec64 J s)"

definition key32 :: "string \<Rightarrow> bytes \<Rightarrow> bytes api_result" where
  "key32 name b = (if length b \<noteq> 32 then Err (name @ '' must be 32 bytes'') else Ok b)"

text \<open>\<open>v[key].as_str().ok_or_else(..)?\<close> and \<open>v[key].as_u64().ok_or_else(..)? as u32\<close>.\<close>

definition str_field :: "'j js_lib \<Rightarrow> string \<Rightarrow> 'j \<Rightarrow> string \<Rightarrow> string api_result" where
  "str_field J obj v key =
     ok_or (obj @ ''.'' @ key @ '' missing or not a string'') (json_as_str J (json_index J v key))"

definition u32_field :: "'j js_lib \<Rightarrow> string \<Rightarrow> 'j \<Rightarrow> string \<Rightarrow> u32 api_result" where
  "u32_field J obj v key =
     and_then (ok_or (obj @ ''.'' @ key @ '' missing or not a number'') (json_as_u64 J (json_index J v key)))
       (\<lambda>n. Ok (ucast n))"

text \<open>\<open>.map_err(|e| JsError::new(&format!("..: {}", e)))\<close> on an error of the crate.\<close>

definition js_err :: "string \<Rightarrow> 'a result \<Rightarrow> 'a api_result" where
  "js_err label = map_err (\<lambda>e. label @ error_display e)"

definition js_reply :: "'j js_lib \<Rightarrow> (string \<times> 'j) list \<Rightarrow> 's \<Rightarrow> string api_result \<times> 's" where
  "js_reply J fs s =
     (map_err (\<lambda>e. ''Serialization failed: '' @ e) (json_print J (json_object J fs)), s)"

abbreviation json64 :: "'j js_lib \<Rightarrow> bytes \<Rightarrow> 'j" where
  "json64 J b \<equiv> json_string J (enc64 J b)"

abbreviation json_u32 :: "'j js_lib \<Rightarrow> u32 \<Rightarrow> 'j" where
  "json_u32 J n \<equiv> json_number J (ucast n)"

section \<open>Keys\<close>

definition js_generate_identity_keypair ::
  "provider \<Rightarrow> 'j js_lib \<Rightarrow> wasm_state \<Rightarrow> string api_result \<times> wasm_state"
where
  "js_generate_identity_keypair P J = (\<lambda>(w, r).
     let (kp, r) = ik_generate P r;
         (h, w) = next_id w
     in and_then_st (with_identity_keys (cell_insert h kp) (w, r)) (\<lambda>_.
        js_reply J [(''handle'', json_u32 J h),
                    (''public_key'', json64 J (ik_x25519_public kp)),
                    (''signing_key_public'', json64 J (ik_verifying_key P kp))]))"

definition js_generate_signed_pre_key ::
  "provider \<Rightarrow> 'j js_lib \<Rightarrow> u32 \<Rightarrow> wasm_state \<Rightarrow> string api_result \<times> wasm_state"
where
  "js_generate_signed_pre_key P J identity_handle s =
     and_then_st (with_identity_keys (cell_read ''Identity'' identity_handle (\<lambda>identity r.
         let (spk, r') = spk_generate P identity r in (Ok spk, r'))) s) (\<lambda>spk (w, r).
     let (h, w) = next_id w in
     and_then_st (with_spk_keys (cell_insert h spk) (w, r)) (\<lambda>_.
       js_reply J [(''handle'', json_u32 J h),
                   (''public_key'', json64 J (spk_x25519_public spk)),
                   (''signature'', json64 J (spk_signature spk))]))"

definition js_generate_one_time_pre_keys ::
  "provider \<Rightarrow> 'j js_lib \<Rightarrow> u32 \<Rightarrow> wasm_state \<Rightarrow> string api_result \<times> wasm_state"
where
  "js_generate_one_time_pre_keys P J num = (\<lambda>(w, r).
     let (otpks, r) = opk_generate_batch P (unat num) r;
         items = map (\<lambda>k. json_object J [(''id'', json_u32 J (opk_id k)),
                                         (''public_key'', json64 J (opk_x25519_public k))]) otpks
     in (map_err (\<lambda>e. ''Serialization failed: '' @ e) (json_print J (json_array J items)), (w, r)))"

section \<open>X3DH\<close>

text \<open>Bob's bundle out of its JSON: every check of \<open>x3dh_initiate\<close> before the handle is looked up.\<close>

definition js_parse_bundle :: "provider \<Rightarrow> 'j js_lib \<Rightarrow> string \<Rightarrow> PreKeyBundle api_result" where
  "js_parse_bundle P J bob_bundle_json =
     and_then (map_err (\<lambda>e. ''Invalid bundle JSON: '' @ e) (json_parse J bob_bundle_json)) (\<lambda>v.
     and_then (str_field J ''bundle'' v ''identity_key'') (\<lambda>identity_key_b64.
     and_then (str_field J ''bundle'' v ''signed_pre_key'') (\<lambda>signed_pre_key_b64.
     and_then (str_field J ''bundle'' v ''signature'') (\<lambda>signature_b64.
     and_then (str_field J ''bundle'' v ''identity_verifying_key'') (\<lambda>identity_verifying_key_b64.
     let one_time_pre_key_b64 = json_as_str J (json_index J v ''one_time_pre_key'') in
     and_then (arg64 J ''identity_key'' identity_key_b64) (\<lambda>ik.
     and_then (arg64 J ''signed_pre_key'' signed_pre_key_b64) (\<lambda>spk.
     and_then (arg64 J ''signature'' signature_b64) (\<lambda>sig.
     and_then (arg64 J ''identity_verifying_key'' identity_verifying_key_b64) (\<lambda>vk.
     and_then (key32 ''identity_key'' ik) (\<lambda>ik.
     and_then (key32 ''signed_pre_key'' spk) (\<lambda>spk.
     and_then (key32 ''identity_verifying_key'' vk) (\<lambda>vk.
     and_then (case ed_vk_error P vk of Some e \<Rightarrow> Err (''Invalid identity_verifying_key: '' @ e)
                                      | None \<Rightarrow> Ok vk) (\<lambda>vk.
     and_then (case one_time_pre_key_b64 of None \<Rightarrow> Ok None
               | Some s \<Rightarrow> and_then (arg64 J ''one_time_pre_key'' s) (\<lambda>b.
                           and_then (key32 ''one_time_pre_key'' b) (\<lambda>b. Ok (Some b)))) (\<lambda>opk.
     Ok \<lparr>pb_identity_key = ik, pb_identity_verifying_key = vk, pb_signed_pre_key = spk,
         pb_signature = sig, pb_one_time_pre_key = opk\<rparr>))))))))))))))"

definition js_x3dh_initiate ::
  "provider \<Rightarrow> 'j js_lib \<Rightarrow> u32 \<Rightarrow> string \<Rightarrow> wasm_state \<Rightarrow> string api_result \<times> wasm_state"
where
  "js_x3dh_initiate P J identity_handle bob_bundle_json s =
     and_then_st (js_parse_bundle P J bob_bundle_json, s) (\<lambda>bundle s.
     and_then_st (with_identity_keys (cell_read ''Identity'' identity_handle (\<lambda>identity r.
         let (x, r') = x3dh_initiate P identity bundle r in (js_err ''X3DH initiate failed: '' x, r'))) s)
       (\<lambda>res.
     js_reply J [(''shared_secret'', json64 J (xr_shared_secret res)),
                 (''ephemeral_key'', json64 J (xr_ephemeral_key res))]))"

text \<open>The closure over \<open>IDENTITY_KEYS\<close> opens \<open>SPK_KEYS\<close> inside: both cells are borrowed at once.\<close>

definition js_x3dh_respond ::
  "provider \<Rightarrow> 'j js_lib \<Rightarrow> u32 \<Rightarrow> u32 \<Rightarrow> string \<Rightarrow> string \<Rightarrow> wasm_state \<Rightarrow> string api_result \<times> wasm_state"
where
  "js_x3dh_respond P J identity_handle spk_handle alice_identity_key_b64 alice_ephemeral_key_b64 s =
     and_then_st (arg64 J ''alice_identity_key'' alice_identity_key_b64, s) (\<lambda>ik s.
     and_then_st (arg64 J ''alice_ephemeral_key'' alice_ephemeral_key_b64, s) (\<lambda>ek s.
     and_then_st (key32 ''alice_identity_key'' ik, s) (\<lambda>alice_ik s.
     and_then_st (key32 ''alice_ephemeral_key'' ek, s) (\<lambda>alice_ek (w, r).
     let (x, (ci, cs)) = cell_read ''Identity'' identity_handle (\<lambda>identity cs.
           let (x, (cs, _)) = cell_read ''SPK'' spk_handle (\<lambda>spk u.
                 (js_err ''X3DH respond failed: '' (x3dh_respond P identity spk None alice_ik alice_ek), u))
                 (cs, ())
           in (x, cs)) (identity_keys w, spk_keys w)
     in and_then_st (x, (w\<lparr>identity_keys := ci, spk_keys := cs\<rparr>, r)) (\<lambda>res.
        js_reply J [(''shared_secret'', json64 J (xr_shared_secret res))])))))"

section \<open>Sessions\<close>

definition js_create_session_alice ::
  "provider \<Rightarrow> 'j js_lib \<Rightarrow> string \<Rightarrow> string \<Rightarrow> wasm_state \<Rightarrow> u32 api_result \<times> wasm_state"
where
  "js_create_session_alice P J shared_secret_b64 bob_spk_public_b64 s =
     and_then_st (arg64 J ''shared_secret'' shared_secret_b64, s) (\<lambda>shared_secret s.
     and_then_st (arg64 J ''bob_spk_public'' bob_spk_public_b64, s) (\<lambda>b s.
     and_then_st (key32 ''Bob's SPK public key'' b, s) (\<lambda>bob_spk_public (w, r).
     let (session, r) = init_alice P shared_secret bob_spk_public r in
     and_then_st (session, (w, r)) (\<lambda>session (w, r).
     let (h, w) = next_id w in
     and_then_st (with_sessions (cell_insert h session) (w, r)) (\<lambda>_ s. (Ok h, s))))))"

definition js_create_session_bob ::
  "'j js_lib \<Rightarrow> string \<Rightarrow> u32 \<Rightarrow> wasm_state \<Rightarrow> u32 api_result \<times> wasm_state"
where
  "js_create_session_bob J shared_secret_b64 spk_handle s =
     and_then_st (arg64 J ''shared_secret'' shared_secret_b64, s) (\<lambda>shared_secret s.
     and_then_st (with_spk_keys (cell_read ''SPK'' spk_handle (\<lambda>spk r.
         (Ok (init_bob shared_secret spk), r))) s) (\<lambda>session (w, r).
     let (h, w) = next_id w in
     and_then_st (with_sessions (cell_insert h session) (w, r)) (\<lambda>_ s. (Ok h, s))))"

text \<open>The fields of the reply of \<open>session_encrypt\<close>.\<close>

definition header_fields :: "'j js_lib \<Rightarrow> MessageHeader \<Rightarrow> (string \<times> 'j) list" where
  "header_fields J header =
     [(''dh_public_key'', json64 J (mh_dh_public_key header)),
      (''message_number'', json_u32 J (mh_message_number header)),
      (''previous_chain_length'', json_u32 J (mh_previous_chain_length header))]"

definition js_session_encrypt ::
  "provider \<Rightarrow> 'j js_lib \<Rightarrow> u32 \<Rightarrow> string \<Rightarrow> wasm_state \<Rightarrow> string api_result \<times> wasm_state"
where
  "js_session_encrypt P J session_handle plaintext_b64 s =
     and_then_st (arg64 J ''plaintext'' plaintext_b64, s) (\<lambda>plaintext s.
     and_then_st (with_sessions (cell_modify ''Session'' session_handle (\<lambda>session.
         let (x, session') = ratchet_encrypt P plaintext session in
         (js_err ''Encryption failed: '' x, session'))) s) (\<lambda>(header, enc).
     js_reply J [(''header'', json_object J (header_fields J header)),
                 (''ciphertext'', json64 J (ciphertext enc)),
                 (''nonce'', json64 J (nonce enc))]))"

text \<open>The header out of its JSON; both numbers are read as \<open>u64\<close> and cut to 32 bits.\<close>

definition js_parse_header :: "'j js_lib \<Rightarrow> string \<Rightarrow> MessageHeader api_result" where
  "js_parse_header J header_json =
     and_then (map_err (\<lambda>e. ''Invalid header JSON: '' @ e) (json_parse J header_json)) (\<lambda>v.
     and_then (str_field J ''header'' v ''dh_public_key'') (\<lambda>s.
     and_then (arg64 J ''dh_public_key'' s) (\<lambda>dh_public_key.
     and_then (u32_field J ''header'' v ''message_number'') (\<lambda>message_number.
     and_then (u32_field J ''header'' v ''previous_chain_length'') (\<lambda>previous_chain_length.
     Ok \<lparr>mh_dh_public_key = dh_public_key, mh_message_number = message_number,
         mh_previous_chain_length = previous_chain_length\<rparr>)))))"

definition js_session_decrypt ::
  "provider \<Rightarrow> 'j js_lib \<Rightarrow> u32 \<Rightarrow> string \<Rightarrow> string \<Rightarrow> string \<Rightarrow> wasm_state \<Rightarrow> string api_result \<times> wasm_state"
where
  "js_session_decrypt P J session_handle header_json ciphertext_b64 nonce_b64 s =
     and_then_st (js_parse_header J header_json, s) (\<lambda>header s.
     and_then_st (arg64 J ''ciphertext'' ciphertext_b64, s) (\<lambda>ct s.
     and_then_st (arg64 J ''nonce'' nonce_b64, s) (\<lambda>n s.
     and_then_st (with_sessions (cell_modify ''Session'' session_handle (\<lambda>session.
         let (x, session') = ratchet_decrypt P header \<lparr>nonce = n, ciphertext = ct\<rparr> session in
         (js_err ''Decryption failed: '' x, session'))) s) (\<lambda>plaintext s.
     (Ok (enc64 J plaintext), s)))))"

end
