(* ===== verification/Wasm_Mls.thy ===== *)
theory Wasm_Mls
  imports Wasm
begin

text \<open>
  The MLS calls of \<open>src/wasm.rs\<close>, sections 10 to 18: each reads the state behind a handle, runs
  the wrapper on it with no cell borrowed, and puts the new state under a new handle of the
  counter that all stores of the module share.
\<close>

section \<open>The calls\<close>

text \<open>\<open>map.get(&h).cloned().ok_or_else(..)\<close> under \<open>MLS_STATES.with\<close>\<close>

definition js_mls_read :: "u32 \<Rightarrow> wasm_state \<Rightarrow> bytes api_result \<times> wasm_state" where
  "js_mls_read h = with_mls_states (cell_read ''MLS group'' h (\<lambda>state r. (Ok state, r)))"

text \<open>\<open>mls::op(..).map_err(..)?\<close> on an operation that draws from the random source.\<close>

definition js_mls_run :: "string \<Rightarrow> (rng \<Rightarrow> 'a result \<times> rng) \<Rightarrow> wasm_state \<Rightarrow> 'a api_result \<times> wasm_state" where
  "js_mls_run label f = (\<lambda>(w, r). let (x, r') = f r in (js_err label x, (w, r')))"

text \<open>The end every call shares: the new state under a fresh handle, and the reply around it.\<close>

definition js_mls_store ::
  "'j js_lib \<Rightarrow> bytes \<Rightarrow> (string \<times> 'j) list \<Rightarrow> wasm_state \<Rightarrow> string api_result \<times> wasm_state"
where
  "js_mls_store J group_state fs = (\<lambda>(w, r).
     let (h, w) = next_id w in
     and_then_st (with_mls_states (cell_insert h group_state) (w, r)) (\<lambda>_.
       js_reply J ((''handle'', json_u32 J h) # fs)))"

definition js_mls_generate_key_package ::
  "('g, 'k, 'c, 'i, 'o) openmls \<Rightarrow> 'j js_lib \<Rightarrow> string \<Rightarrow> wasm_state \<Rightarrow> string api_result \<times> wasm_state"
where
  "js_mls_generate_key_package L J identity_b64 s =
     and_then_st (arg64 J ''identity'' identity_b64, s) (\<lambda>identity s.
     and_then_st (js_mls_run ''MLS key package generation failed: '' (mls_generate_key_package L identity) s)
       (\<lambda>res.
     js_reply J [(''key_package'', json64 J (kpr_key_package res)),
                 (''secret_bundle'', json64 J (kpr_secret_bundle res))]))"

definition js_mls_create_group ::
  "('g, 'k, 'c, 'i, 'o) openmls \<Rightarrow> 'j js_lib \<Rightarrow> string \<Rightarrow> wasm_state \<Rightarrow> string api_result \<times> wasm_state"
where
  "js_mls_create_group L J identity_b64 s =
     and_then_st (arg64 J ''identity'' identity_b64, s) (\<lambda>identity s.
     and_then_st (js_mls_run ''MLS create group failed: '' (mls_create_group L identity) s) (\<lambda>res.
     js_mls_store J (cgr_group_state res)
       [(''group_id'', json64 J (cgr_group_id res)), (''epoch'', json_number J (cgr_epoch res))]))"

definition js_mls_add_member ::
  "('g, 'k, 'c, 'i, 'o) openmls \<Rightarrow> 'j js_lib \<Rightarrow> u32 \<Rightarrow> string \<Rightarrow> wasm_state \<Rightarrow> string api_result \<times> wasm_state"
where
  "js_mls_add_member L J group_handle key_package_b64 s =
     and_then_st (arg64 J ''key_package'' key_package_b64, s) (\<lambda>key_package s.
     and_then_st (js_mls_read group_handle s) (\<lambda>state s.
     and_then_st (js_mls_run ''MLS add member failed: '' (mls_add_member L state key_package) s) (\<lambda>res.
     js_mls_store J (amr_group_state res)
       [(''commit'', json64 J (amr_commit res)), (''welcome'', json64 J (amr_welcome res)),
        (''epoch'', json_number J (amr_epoch res))])))"

definition js_mls_remove_member ::
  "('g, 'k, 'c, 'i, 'o) openmls \<Rightarrow> 'j js_lib \<Rightarrow> u32 \<Rightarrow> u32 \<Rightarrow> wasm_state \<Rightarrow> string api_result \<times> wasm_state"
where
  "js_mls_remove_member L J group_handle leaf_index s =
     and_then_st (js_mls_read group_handle s) (\<lambda>state s.
     and_then_st (js_mls_run ''MLS remove member failed: '' (mls_remove_member L state leaf_index) s) (\<lambda>res.
     js_mls_store J (rmr_group_state res)
       [(''commit'', json64 J (rmr_commit res)), (''epoch'', json_number J (rmr_epoch res))]))"

definition js_mls_encrypt_message ::
  "('g, 'k, 'c, 'i, 'o) openmls \<Rightarrow> 'j js_lib \<Rightarrow> u32 \<Rightarrow> string \<Rightarrow> wasm_state \<Rightarrow> string api_result \<times> wasm_state"
where
  "js_mls_encrypt_message L J group_handle plaintext_b64 s =
     and_then_st (arg64 J ''plaintext'' plaintext_b64, s) (\<lambda>plaintext s.
     and_then_st (js_mls_read group_handle s) (\<lambda>state s.
     and_then_st (js_mls_run ''MLS encrypt failed: '' (mls_encrypt_message L state plaintext) s) (\<lambda>res.
     js_mls_store J (mer_group_state res)
       [(''mls_ciphertext'', json64 J (mer_mls_ciphertext res)), (''epoch'', json_number J (mer_epoch res))])))"

definition js_mls_decrypt_message ::
  "('g, 'k, 'c, 'i, 'o) openmls \<Rightarrow> 'j js_lib \<Rightarrow> u32 \<Rightarrow> string \<Rightarrow> wasm_state \<Rightarrow> string api_result \<times> wasm_state"
where
  "js_mls_decrypt_message L J group_handle mls_message_b64 s =
     and_then_st (arg64 J ''mls_message'' mls_message_b64, s) (\<lambda>mls_message s.
     and_then_st (js_mls_read group_handle s) (\<lambda>state s.
     and_then_st (js_mls_run ''MLS decrypt failed: '' (mls_decrypt_message L state mls_message) s) (\<lambda>res.
     js_mls_store J (dcr_group_state res) [(''plaintext'', json64 J (dcr_plaintext res))])))"

definition js_mls_process_welcome ::
  "('g, 'k, 'c, 'i, 'o) openmls \<Rightarrow> 'j js_lib \<Rightarrow> string \<Rightarrow> string \<Rightarrow> wasm_state \<Rightarrow> string api_result \<times> wasm_state"
where
  "js_mls_process_welcome L J welcome_b64 secret_bundle_b64 s =
     and_then_st (arg64 J ''welcome'' welcome_b64, s) (\<lambda>welcome s.
     and_then_st (arg64 J ''secret_bundle'' secret_bundle_b64, s) (\<lambda>secret_bundle s.
     and_then_st (js_mls_run ''MLS process welcome failed: '' (mls_process_welcome L welcome secret_bundle) s)
       (\<lambda>res.
     js_mls_store J (pwr_group_state res)
       [(''group_id'', json64 J (pwr_group_id res)), (''epoch'', json_number J (pwr_epoch res))])))"

definition js_mls_process_commit ::
  "('g, 'k, 'c, 'i, 'o) openmls \<Rightarrow> 'j js_lib \<Rightarrow> u32 \<Rightarrow> string \<Rightarrow> wasm_state \<Rightarrow> string api_result \<times> wasm_state"
where
  "js_mls_process_commit L J group_handle commit_b64 s =
     and_then_st (arg64 J ''commit'' commit_b64, s) (\<lambda>commit s.
     and_then_st (js_mls_read group_handle s) (\<lambda>state s.
     and_then_st (js_mls_run ''MLS process commit failed: '' (mls_process_commit L state commit) s) (\<lambda>res.
     js_mls_store J (pcr_group_state res) [(''epoch'', json_number J (pcr_epoch res))])))"

definition js_mls_destroy_state :: "u32 \<Rightarrow> wasm_state \<Rightarrow> bool api_result \<times> wasm_state" where
  "js_mls_destroy_state group_handle = with_mls_states (cell_remove group_handle)"

section \<open>The whole interface as one component\<close>

datatype wasm_op =
    GenIdentity
  | GenSignedPreKey u32
  | GenOneTimeKeys u32
  | Initiate u32 string
  | Respond u32 u32 string string
  | CreateAlice string string
  | CreateBob string u32
  | SessionEncrypt u32 string
  | SessionDecrypt u32 string string string
  | KeyPackage string
  | GroupCreate string
  | GroupAdd u32 string
  | GroupRemove u32 u32
  | GroupEncrypt u32 string
  | GroupDecrypt u32 string
  | GroupWelcome string string
  | GroupCommit u32 string
  | GroupDestroy u32

datatype wasm_reply = Text "string api_result" | NewHandle "u32 api_result" | Removed "bool api_result"

fun wasm_call ::
  "provider \<Rightarrow> ('g, 'k, 'c, 'i, 'o) openmls \<Rightarrow> 'j js_lib \<Rightarrow> wasm_op \<Rightarrow> wasm_state \<Rightarrow> wasm_reply \<times> wasm_state"
where
  "wasm_call P L J GenIdentity s = apfst Text (js_generate_identity_keypair P J s)"
| "wasm_call P L J (GenSignedPreKey h) s = apfst Text (js_generate_signed_pre_key P J h s)"
| "wasm_call P L J (GenOneTimeKeys n) s = apfst Text (js_generate_one_time_pre_keys P J n s)"
| "wasm_call P L J (Initiate h b) s = apfst Text (js_x3dh_initiate P J h b s)"
| "wasm_call P L J (Respond h k i e) s = apfst Text (js_x3dh_respond P J h k i e s)"
| "wasm_call P L J (CreateAlice ss b) s = apfst NewHandle (js_create_session_alice P J ss b s)"
| "wasm_call P L J (CreateBob ss h) s = apfst NewHandle (js_create_session_bob J ss h s)"
| "wasm_call P L J (SessionEncrypt h m) s = apfst Text (js_session_encrypt P J h m s)"
| "wasm_call P L J (SessionDecrypt h hdr c n) s = apfst Text (js_session_decrypt P J h hdr c n s)"
| "wasm_call P L J (KeyPackage i) s = apfst Text (js_mls_generate_key_package L J i s)"
| "wasm_call P L J (GroupCreate i) s = apfst Text (js_mls_create_group L J i s)"
| "wasm_call P L J (GroupAdd h kp) s = apfst Text (js_mls_add_member L J h kp s)"
| "wasm_call P L J (GroupRemove h i) s = apfst Text (js_mls_remove_member L J h i s)"
| "wasm_call P L J (GroupEncrypt h m) s = apfst Text (js_mls_encrypt_message L J h m s)"
| "wasm_call P L J (GroupDecrypt h m) s = apfst Text (js_mls_decrypt_message L J h m s)"
| "wasm_call P L J (GroupWelcome w b) s = apfst Text (js_mls_process_welcome L J w b s)"
| "wasm_call P L J (GroupCommit h m) s = apfst Text (js_mls_process_commit L J h m s)"
| "wasm_call P L J (GroupDestroy h) s = apfst Removed (js_mls_destroy_state h s)"

end
