(* ===== verification/Wasm_Facts.thy ===== *)
theory Wasm_Facts
  imports Wasm_Mls
begin

text \<open>
  What each call into the WebAssembly module can do to its state, as one of six effects on the
  four maps, and the facts about the stores that follow for every sequence of calls.
\<close>

section \<open>Effects\<close>

datatype wasm_effect =
    Keeps
  | AddsIdentity IdentityKeyPair
  | AddsPreKey SignedPreKey
  | AddsSession Session
  | AddsGroup bytes
  | SetsSession u32 Session
  | DropsGroup u32

abbreviation maps_of where
  "maps_of w \<equiv> (cell_map (identity_keys w), cell_map (spk_keys w), cell_map (session_cell w), cell_map (mls_cell w))"

text \<open>A handle is spent, and nothing stored, when the map it was meant for cannot be borrowed.\<close>

fun effect_of :: "wasm_effect \<Rightarrow> wasm \<Rightarrow> wasm \<Rightarrow> bool" where
  "effect_of Keeps w w' \<longleftrightarrow> maps_of w' = maps_of w \<and>
     (next_handle w' = next_handle w \<or> next_handle w' = next_handle w + 1)"
| "effect_of (AddsIdentity k) w w' \<longleftrightarrow> (case maps_of w of (i, p, s, m) \<Rightarrow>
     maps_of w' = (fmupd (next_handle w) k i, p, s, m)) \<and> next_handle w' = next_handle w + 1"
| "effect_of (AddsPreKey k) w w' \<longleftrightarrow> (case maps_of w of (i, p, s, m) \<Rightarrow>
     maps_of w' = (i, fmupd (next_handle w) k p, s, m)) \<and> next_handle w' = next_handle w + 1"
| "effect_of (AddsSession k) w w' \<longleftrightarrow> (case maps_of w of (i, p, s, m) \<Rightarrow>
     maps_of w' = (i, p, fmupd (next_handle w) k s, m)) \<and> next_handle w' = next_handle w + 1"
| "effect_of (AddsGroup b) w w' \<longleftrightarrow> (case maps_of w of (i, p, s, m) \<Rightarrow>
     maps_of w' = (i, p, s, fmupd (next_handle w) b m)) \<and> next_handle w' = next_handle w + 1"
| "effect_of (SetsSession h k) w w' \<longleftrightarrow> (case maps_of w of (i, p, s, m) \<Rightarrow>
     fmlookup s h \<noteq> None \<and> maps_of w' = (i, p, fmupd h k s, m)) \<and> next_handle w' = next_handle w"
| "effect_of (DropsGroup h) w w' \<longleftrightarrow> (case maps_of w of (i, p, s, m) \<Rightarrow>
     maps_of w' = (i, p, s, fmdrop h m)) \<and> next_handle w' = next_handle w"

text \<open>Everything in the stores is well-formed.\<close>

definition wasm_wf :: "provider \<Rightarrow> wasm \<Rightarrow> bool" where
  "wasm_wf P w \<longleftrightarrow>
     (\<forall>h k. cell_entry h (identity_keys w) = Some k \<longrightarrow> ik_wf P k) \<and>
     (\<forall>h k. cell_entry h (spk_keys w) = Some k \<longrightarrow> spk_wf P k) \<and>
     (\<forall>h s. cell_entry h (session_cell w) = Some s \<longrightarrow> session_wf s)"

fun effect_wf :: "provider \<Rightarrow> wasm_effect \<Rightarrow> bool" where
  "effect_wf P (AddsIdentity k) \<longleftrightarrow> ik_wf P k"
| "effect_wf P (AddsPreKey k) \<longleftrightarrow> spk_wf P k"
| "effect_wf P (AddsSession s) \<longleftrightarrow> session_wf s"
| "effect_wf P (SetsSession h s) \<longleftrightarrow> session_wf s"
| "effect_wf P _ \<longleftrightarrow> True"

text \<open>The session a call works on, and the two effects that only the calls on that handle have.\<close>

fun works_on :: "wasm_op \<Rightarrow> u32 option" where
  "works_on (SessionEncrypt h m) = Some h"
| "works_on (SessionDecrypt h hdr c n) = Some h"
| "works_on _ = None"

fun may_have :: "wasm_op \<Rightarrow> wasm_effect \<Rightarrow> bool" where
  "may_have op (SetsSession h s) \<longleftrightarrow> works_on op = Some h"
| "may_have op (DropsGroup h) \<longleftrightarrow> op = GroupDestroy h"
| "may_have op _ \<longleftrightarrow> True"

text \<open>
  \<open>kept\<close> says that a part of a call left all maps and the counter alone, \<open>effective\<close> that a whole
  call had one of the effects, and one that it may have.
\<close>

definition kept :: "wasm_state \<Rightarrow> wasm_state \<Rightarrow> bool" where
  "kept s s' \<longleftrightarrow> maps_of (fst s') = maps_of (fst s) \<and> next_handle (fst s') = next_handle (fst s)"

definition effective :: "provider \<Rightarrow> wasm_op \<Rightarrow> wasm_state \<Rightarrow> wasm_state \<Rightarrow> bool" where
  "effective P op s s' \<longleftrightarrow> (\<exists>e. effect_of e (fst s) (fst s') \<and> may_have op e \<and>
     (ratchet_laws P \<and> wasm_wf P (fst s) \<longrightarrow> effect_wf P e))"

lemma kept_refl [simp]: "kept s s"
  by (simp add: kept_def)

lemma kept_wf: "kept s s' \<Longrightarrow> wasm_wf P (fst s') = wasm_wf P (fst s)"
  by (simp add: kept_def wasm_wf_def cell_entry_def)

lemma kept_effective: "kept s s' \<Longrightarrow> effective P op s s'"
  by (auto simp: kept_def effective_def intro!: exI [of _ Keeps])

lemma effect_of_cong:
  "maps_of v = maps_of w \<Longrightarrow> next_handle v = next_handle w \<Longrightarrow> effect_of e v w' = effect_of e w w'"
  by (cases e) simp_all

lemma kept_then_effective:
  assumes "kept s t" "effective P op t s'"
  shows "effective P op s s'"
proof -
  from assms(2) obtain e where "effect_of e (fst t) (fst s')" "may_have op e"
    "ratchet_laws P \<and> wasm_wf P (fst t) \<longrightarrow> effect_wf P e"
    by (auto simp: effective_def)
  with effect_of_cong [of "fst t" "fst s" e "fst s'"] kept_wf [OF assms(1), of P] assms(1) show ?thesis
    by (auto simp: effective_def kept_def)
qed

text \<open>The \<open>?\<close> operator after a part that keeps the state.\<close>

lemma effective_then:
  assumes "and_then_st p g = (x, s')"
    and "\<And>y t. p = (y, t) \<Longrightarrow> kept s t"
    and "\<And>a t. p = (Ok a, t) \<Longrightarrow> kept s t \<Longrightarrow> g a t = (x, s') \<Longrightarrow> effective P op t s'"
  shows "effective P op s s'"
proof -
  obtain y t where p: "p = (y, t)" by (cases p)
  with assms(2) have kept: "kept s t" .
  show ?thesis
  proof (cases y)
    case (Ok a)
    with assms(1,3) p kept have "effective P op t s'" by simp
    with kept show ?thesis by (rule kept_then_effective)
  qed (use assms(1) p kept kept_effective in auto)
qed

text \<open>The \<open>?\<close> operator on an argument check.\<close>

lemma effective_pure:
  assumes "and_then_st (y, s) g = (x, s')" "\<And>a. y = Ok a \<Longrightarrow> g a s = (x, s') \<Longrightarrow> effective P op s s'"
  shows "effective P op s s'"
  using assms by (cases y) (auto simp: kept_effective)

section \<open>The parts\<close>

lemma js_reply_state: "js_reply J fs s = (x, s') \<Longrightarrow> s' = s"
  by (simp add: js_reply_def)

lemma with_read_kept:
  "with_identity_keys (cell_read noun h f) s = (x, s') \<Longrightarrow> kept s s'"
  "with_spk_keys (cell_read noun h g) s = (y, s') \<Longrightarrow> kept s s'"
  "with_mls_states (cell_read noun h k) s = (z, s') \<Longrightarrow> kept s s'"
  by (auto simp: with_identity_keys_def with_spk_keys_def with_mls_states_def kept_def
      dest!: cell_read_frame split: prod.splits)

lemma with_read_Ok:
  "with_identity_keys (cell_read noun h f) s = (Ok a, s') \<Longrightarrow>
     (\<And>k. cell_entry h (identity_keys (fst s)) = Some k \<Longrightarrow> f k (snd s) = (Ok a, snd s') \<Longrightarrow> thesis) \<Longrightarrow> thesis"
  "with_spk_keys (cell_read noun h f2) s = (Ok b, s') \<Longrightarrow>
     (\<And>k. cell_entry h (spk_keys (fst s)) = Some k \<Longrightarrow> f2 k (snd s) = (Ok b, snd s') \<Longrightarrow> thesis) \<Longrightarrow> thesis"
  by (auto simp: with_identity_keys_def with_spk_keys_def elim!: cell_read_Ok split: prod.splits)

lemma js_mls_read_kept: "js_mls_read h s = (x, s') \<Longrightarrow> kept s s'"
  unfolding js_mls_read_def by (rule with_read_kept(3))

lemma js_mls_run_kept: "js_mls_run label f s = (x, s') \<Longrightarrow> kept s s'"
  by (auto simp: js_mls_run_def kept_def split: prod.splits)

text \<open>The end of a call that stores something: a fresh handle, the insertion, the reply.\<close>


lemma insert_identity_effective:
  assumes "and_then_st (with_identity_keys (cell_insert (next_handle w) v) (w\<lparr>next_handle := next_handle w + 1\<rparr>, r)) F = (x, s')"
    and "\<And>a t. snd (F a t) = t" and "ratchet_laws P \<Longrightarrow> wasm_wf P w \<Longrightarrow> ik_wf P v"
  shows "effective P op (w, r) s'"
proof (cases "cell_flag (identity_keys w) = Unborrowed")
  case True
  with assms(1) have "s' = snd (F () (w\<lparr>next_handle := next_handle w + 1,
      identity_keys := cell_put (next_handle w) v (identity_keys w)\<rparr>, r))"
    by (simp add: with_identity_keys_def cell_insert_free)
  with assms(2,3) show ?thesis
    by (auto simp: effective_def cell_put_def intro!: exI [of _ "AddsIdentity v"])
next
  case False
  with assms(1) show ?thesis
    by (auto simp: with_identity_keys_def cell_insert_taken effective_def intro!: exI [of _ Keeps])
qed

lemma insert_pre_key_effective:
  assumes "and_then_st (with_spk_keys (cell_insert (next_handle w) v) (w\<lparr>next_handle := next_handle w + 1\<rparr>, r)) F = (x, s')"
    and "\<And>a t. snd (F a t) = t" and "ratchet_laws P \<Longrightarrow> wasm_wf P w \<Longrightarrow> spk_wf P v"
  shows "effective P op (w, r) s'"
proof (cases "cell_flag (spk_keys w) = Unborrowed")
  case True
  with assms(1) have "s' = snd (F () (w\<lparr>next_handle := next_handle w + 1,
      spk_keys := cell_put (next_handle w) v (spk_keys w)\<rparr>, r))"
    by (simp add: with_spk_keys_def cell_insert_free)
  with assms(2,3) show ?thesis
    by (auto simp: effective_def cell_put_def intro!: exI [of _ "AddsPreKey v"])
next
  case False
  with assms(1) show ?thesis
    by (auto simp: with_spk_keys_def cell_insert_taken effective_def intro!: exI [of _ Keeps])
qed

lemma js_mls_store_effective:
  assumes "js_mls_store J b fs (w, r) = (x, s')"
  shows "effective P op (w, r) s'"
proof (cases "cell_flag (mls_cell w) = Unborrowed")
  case True
  with assms have "s' = (w\<lparr>next_handle := next_handle w + 1,
      mls_cell := cell_put (next_handle w) b (mls_cell w)\<rparr>, r)"
    by (simp add: js_mls_store_def next_id_def with_mls_states_def cell_insert_free js_reply_def)
  then show ?thesis
    by (auto simp: effective_def cell_put_def intro!: exI [of _ "AddsGroup b"])
next
  case False
  with assms show ?thesis
    by (auto simp: js_mls_store_def next_id_def with_mls_states_def cell_insert_taken effective_def
        intro!: exI [of _ Keeps])
qed

lemma insert_session_effective:
  assumes "and_then_st (with_sessions (cell_insert (next_handle w) v) (w\<lparr>next_handle := next_handle w + 1\<rparr>, r)) F = (x, s')"
    and "\<And>a t. snd (F a t) = t" and "ratchet_laws P \<Longrightarrow> wasm_wf P w \<Longrightarrow> session_wf v"
  shows "effective P op (w, r) s'"
proof (cases "cell_flag (session_cell w) = Unborrowed")
  case True
  with assms(1) have "s' = snd (F () (w\<lparr>next_handle := next_handle w + 1,
      session_cell := cell_put (next_handle w) v (session_cell w)\<rparr>, r))"
    by (simp add: with_sessions_def cell_insert_free)
  with assms(2,3) show ?thesis
    by (auto simp: effective_def cell_put_def intro!: exI [of _ "AddsSession v"])
next
  case False
  with assms(1) show ?thesis
    by (auto simp: with_sessions_def cell_insert_taken effective_def intro!: exI [of _ Keeps])
qed

lemma modify_session_effective:
  assumes "and_then_st (with_sessions (cell_modify noun h f) (w, r)) F = (x, s')" "works_on op = Some h"
    and "\<And>a t. snd (F a t) = t"
    and "\<And>v y v' g. ratchet_laws P \<Longrightarrow> session_wf v \<Longrightarrow> f (v, r) = (y, (v', g)) \<Longrightarrow> session_wf v'"
  shows "effective P op (w, r) s'"
proof -
  obtain y t where p: "with_sessions (cell_modify noun h f) (w, r) = (y, t)"
    by (cases "with_sessions (cell_modify noun h f) (w, r)")
  with assms(1,3) have t: "s' = t" by (cases y) (auto simp: prod_eq_iff)
  show ?thesis
  proof (cases "cell_flag (session_cell w) = Unborrowed \<and> cell_entry h (session_cell w) \<noteq> None")
    case False
    with p have "kept (w, r) t"
      by (auto simp: with_sessions_def cell_modify_def cell_borrow_mut_def cell_entry_def kept_def
          split: if_splits)
    with t show ?thesis by (simp add: kept_effective)
  next
    case True
    then obtain v where v: "cell_flag (session_cell w) = Unborrowed" "cell_entry h (session_cell w) = Some v"
      by auto
    obtain z v' g where f: "f (v, r) = (z, (v', g))" by (rule prod_cases3)
    from p have "t = (w\<lparr>session_cell := (case z of Panic \<Rightarrow> (cell_put h v' (session_cell w))\<lparr>cell_flag := Exclusive\<rparr>
        | _ \<Rightarrow> cell_put h v' (session_cell w))\<rparr>, g)"
      by (simp add: with_sessions_def cell_modify_found [where f = f and g = r, OF v f] eq_commute)
    moreover have "ratchet_laws P \<Longrightarrow> wasm_wf P w \<Longrightarrow> session_wf v'"
      using assms(4) [OF _ _ f] v(2) by (auto simp: wasm_wf_def)
    ultimately show ?thesis
      using v(2) t assms(2)
      by (cases z) (auto simp: effective_def cell_put_def cell_entry_def intro!: exI [of _ "SetsSession h v'"])
  qed
qed

lemma remove_group_effective:
  assumes "js_mls_destroy_state h s = (x, s')"
  shows "effective P (GroupDestroy h) s s'"
proof -
  obtain w r where s: "s = (w, r)" by (cases s)
  show ?thesis
  proof (cases "cell_flag (mls_cell w) = Unborrowed")
    case True
    with assms s show ?thesis
      by (auto simp: js_mls_destroy_state_def with_mls_states_def cell_remove_cases effective_def cell_drop_def
          intro!: exI [of _ "DropsGroup h"])
  next
    case False
    with assms s show ?thesis
      by (auto simp: js_mls_destroy_state_def with_mls_states_def cell_remove_cases effective_def
          intro!: exI [of _ Keeps])
  qed
qed

lemma snd_js_reply [simp]: "snd (js_reply J fs t) = t"
  by (simp add: js_reply_def)

section \<open>Each call has one of the effects\<close>

lemma identity_effective:
  assumes "js_generate_identity_keypair P J (w, r) = (x, s')"
  shows "effective P op (w, r) s'"
proof -
  obtain kp g where k: "ik_generate P r = (kp, g)" by fastforce
  from assms have "and_then_st (with_identity_keys (cell_insert (next_handle w) kp)
      (w\<lparr>next_handle := next_handle w + 1\<rparr>, g)) (\<lambda>_. js_reply J [(''handle'', json_u32 J (next_handle w)),
        (''public_key'', json64 J (ik_x25519_public kp)),
        (''signing_key_public'', json64 J (ik_verifying_key P kp))]) = (x, s')"
    by (simp add: js_generate_identity_keypair_def k next_id_def)
  from insert_identity_effective [OF this, of P] k have "effective P op (w, g) s'"
    by (simp add: ik_generate_wf)
  then show ?thesis by (simp add: effective_def)
qed

lemma signed_pre_key_effective:
  assumes "js_generate_signed_pre_key P J h s = (x, s')"
  shows "effective P op s s'"
  using assms unfolding js_generate_signed_pre_key_def
proof (rule effective_then)
  fix spk t
  assume g: "with_identity_keys (cell_read ''Identity'' h (\<lambda>identity r.
      let (spk, r') = spk_generate P identity r in (Ok spk, r'))) s = (Ok spk :: SignedPreKey api_result, t)"
    and run: "(case t of (w, r) \<Rightarrow> let (h, w) = next_id w in
      and_then_st (with_spk_keys (cell_insert h spk) (w, r)) (\<lambda>_.
        js_reply J [(''handle'', json_u32 J h), (''public_key'', json64 J (spk_x25519_public spk)),
                    (''signature'', json64 J (spk_signature spk))])) = (x, s')"
  obtain w r where t: "t = (w, r)" by (cases t)
  from g have "spk_wf P spk"
    by (rule with_read_Ok(1)) (auto intro: spk_generate_wf split: prod.splits)
  note ins = insert_pre_key_effective [where w = w and v = spk and r = r and P = P]
  from run have "effective P op (w, r) s'"
    unfolding t next_id_def by simp (rule ins, assumption, simp_all add: \<open>spk_wf P spk\<close>)
  then show "effective P op t s'" by (simp add: t)
qed (rule with_read_kept(1))

lemma alice_effective:
  assumes "js_create_session_alice P J ss b s = (x, s')"
  shows "effective P op s s'"
  using assms unfolding js_create_session_alice_def
proof (elim effective_pure)
  fix secret b key
  assume key: "key32 ''Bob's SPK public key'' b = Ok key"
    and run: "(case s of (w, r) \<Rightarrow> let (session, r) = init_alice P secret key r in
      and_then_st (session, (w, r)) (\<lambda>session (w, r). let (h, w) = next_id w in
        and_then_st (with_sessions (cell_insert h session) (w, r)) (\<lambda>_ s. (Ok h, s)))) = (x, s')"
  obtain w r where s: "s = (w, r)" by (cases s)
  obtain y g where i: "init_alice P secret key r = (y :: (string, Session) outcome, g)" by fastforce
  show "effective P op s s'"
  proof (cases y)
    case (Ok session)
    with run i s have "and_then_st (with_sessions (cell_insert (next_handle w) session)
        (w\<lparr>next_handle := next_handle w + 1\<rparr>, g)) (\<lambda>_ s. (Ok (next_handle w), s)) = (x, s')"
      by (simp add: next_id_def)
    moreover have "ratchet_laws P \<Longrightarrow> session_wf session"
      using key ratchet_lawsD(2,3) i Ok by (auto simp: key32_def split: if_splits intro: init_alice_wf)
    ultimately have "effective P op (w, g) s'"
      by (intro insert_session_effective [where w = w and v = session and r = g]) auto
    with s show ?thesis by (simp add: effective_def)
  qed (use run i s in \<open>auto simp: effective_def intro!: exI [of _ Keeps]\<close>)
qed

lemma bob_effective:
  assumes "js_create_session_bob J ss h s = (x, s')"
  shows "effective P op s s'"
  using assms unfolding js_create_session_bob_def
proof (elim effective_pure effective_then [where P = P], goal_cases)
  case (2 secret session t)
  obtain w r where t: "t = (w, r)" by (cases t)
  have "ratchet_laws P \<Longrightarrow> wasm_wf P w \<Longrightarrow> session_wf session"
    using with_read_kept(2) [OF 2(2)] 2(2) ratchet_lawsD(2) [of P] t
    by (auto elim!: with_read_Ok(2) simp: wasm_wf_def kept_def cell_entry_def spk_wf_def x25519_sizes_def
        intro!: init_bob_wf)
  note ins = insert_session_effective [where w = w and v = session and r = r, OF _ _ this]
  from 2(4) have "effective P op (w, r) s'"
    unfolding t next_id_def by simp (rule ins, assumption, simp)
  then show ?case by (simp add: t)
qed (rule with_read_kept(2))

lemma session_encrypt_effective:
  assumes "js_session_encrypt P J h m s = (x, s')"
  shows "effective P (SessionEncrypt h m) s s'"
proof -
  obtain w r where s: "s = (w, r)" by (cases s)
  from assms show ?thesis
    unfolding js_session_encrypt_def s
    by (elim effective_pure modify_session_effective) (auto split: prod.splits dest: ratchet_encrypt_wf)
qed

lemma session_decrypt_effective:
  assumes "js_session_decrypt P J h hdr c n s = (x, s')"
  shows "effective P (SessionDecrypt h hdr c n) s s'"
proof -
  obtain w r where s: "s = (w, r)" by (cases s)
  from assms show ?thesis
    unfolding js_session_decrypt_def s
    by (elim effective_pure modify_session_effective) (auto split: prod.splits dest: ratchet_decrypt_wf [OF ratchet_lawsD(3,4,2)])
qed

lemma initiate_effective:
  assumes "js_x3dh_initiate P J h b s = (x, s')"
  shows "effective P op s s'"
  using assms unfolding js_x3dh_initiate_def
  by (elim effective_pure effective_then) (auto dest: with_read_kept(1) js_reply_state simp: kept_effective)

text \<open>Both cells of \<open>x3dh_respond\<close> keep their maps.\<close>

lemma nested_read_maps:
  assumes "cell_read noun h (\<lambda>a c. let (x, (c, _)) = cell_read noun2 k (\<lambda>b u. (F a b, u)) (c, ()) in (x, c)) (c, d)
      = (x, (c', d'))"
  shows "cell_map c' = cell_map c" "cell_map d' = cell_map d"
proof -
  show "cell_map c' = cell_map c" using assms by (rule cell_read_frame)
  show "cell_map d' = cell_map d"
    by (rule cell_read_rest [OF assms]) (auto dest: cell_read_frame split: prod.splits)
qed

lemma respond_effective:
  assumes "js_x3dh_respond P J h k ik ek s = (x, s')"
  shows "effective P op s s'"
  using assms unfolding js_x3dh_respond_def
  by (elim effective_pure)
    (auto simp: kept_effective kept_def nested_read_maps dest!: js_reply_state split: prod.splits
      elim!: effective_then)

lemmas js_mls_defs = js_mls_create_group_def js_mls_process_welcome_def js_mls_add_member_def
  js_mls_remove_member_def js_mls_encrypt_message_def js_mls_decrypt_message_def
  js_mls_process_commit_def js_mls_generate_key_package_def

lemma group_effective:
  "js_mls_create_group L J i s = (x, s') \<Longrightarrow> effective P op s s'"
  "js_mls_process_welcome L J a b s = (x, s') \<Longrightarrow> effective P op s s'"
  "js_mls_add_member L J h kp s = (x, s') \<Longrightarrow> effective P op s s'"
  "js_mls_remove_member L J h n s = (x, s') \<Longrightarrow> effective P op s s'"
  "js_mls_encrypt_message L J h m s = (x, s') \<Longrightarrow> effective P op s s'"
  "js_mls_decrypt_message L J h m s = (x, s') \<Longrightarrow> effective P op s s'"
  "js_mls_process_commit L J h m s = (x, s') \<Longrightarrow> effective P op s s'"
  "js_mls_generate_key_package L J i s = (x, s') \<Longrightarrow> effective P op s s'"
  by (unfold js_mls_defs; elim effective_pure effective_then;
    auto dest: js_mls_read_kept js_mls_run_kept dest!: js_reply_state intro: js_mls_store_effective
      simp: kept_effective)+

lemma one_time_effective:
  assumes "js_generate_one_time_pre_keys P J n s = (x, s')"
  shows "effective P op s s'"
  using assms by (auto simp: js_generate_one_time_pre_keys_def Let_def effective_def
      intro!: exI [of _ Keeps] split: prod.splits)

lemmas call_effective = identity_effective signed_pre_key_effective one_time_effective
  initiate_effective respond_effective alice_effective bob_effective session_encrypt_effective
  session_decrypt_effective group_effective remove_group_effective

lemma wasm_call_effective:
  assumes "wasm_call P L J op s = (reply, s')"
  shows "effective P op s s'"
proof -
  obtain w r where s: "s = (w, r)" by (cases s)
  have apf: "\<exists>x. f s = (x, s')" if "apfst k (f s) = (reply, s')" for k :: "'x \<Rightarrow> wasm_reply" and f
    using that by (cases "f s") auto
  from assms show ?thesis
    by (cases op) (auto simp: s dest!: apf [unfolded s] intro: call_effective)
qed

end
