(* ===== verification/Wasm_Properties.thy ===== *)
theory Wasm_Properties
  imports Wasm_Facts
begin

text \<open>
  The properties of the WebAssembly interface as a whole: what its stores hold stays well-formed,
  handles are never given twice, nothing but an MLS state can be removed, and an aborted session
  call locks the session store for good.
\<close>

section \<open>Well-formed stores\<close>

lemma effect_wf_step:
  assumes "effect_of e w w'" "effect_wf P e" "wasm_wf P w"
  shows "wasm_wf P w'"
  using assms by (cases e) (auto simp: wasm_wf_def cell_entry_def split: if_splits)

interpretation wasm_module: component "wasm_call P L J" "\<lambda>s. ratchet_laws P \<and> wasm_wf P (fst s)" for P L J
proof
  fix op s reply s'
  assume inv: "ratchet_laws P \<and> wasm_wf P (fst s)" and call: "wasm_call P L J op s = (reply, s')"
  from wasm_call_effective [OF call] inv show "ratchet_laws P \<and> wasm_wf P (fst s')"
    by (auto simp: effective_def intro: effect_wf_step)
qed

lemma wasm_wf_init: "wasm_wf P wasm_init"
  by (simp add: wasm_wf_def wasm_init_def)

text \<open>
  C29. Everything the module stores is well-formed after any sequence of calls, whatever handles,
  JSON and base64 they are given: identities and signed pre-keys hold 32-byte secrets with the
  public keys that belong to them, and every session is a well-formed session of the ratchet.
\<close>
theorem wasm_stores_typed:
  assumes "ratchet_laws P" and "run_calls (wasm_call P L J) ops (wasm_init, r) = (replies, (w, r'))"
  shows "(cell_entry h (identity_keys w) = Some k \<longrightarrow> ik_wf P k) \<and>
    (cell_entry h (spk_keys w) = Some spk \<longrightarrow> spk_wf P spk) \<and>
    (cell_entry h (session_cell w) = Some s \<longrightarrow> session_wf s)"
proof -
  have "ratchet_laws P \<and> wasm_wf P (fst (w, r'))"
    by (rule wasm_module.run_inv [OF _ assms(2)]) (simp add: assms(1) wasm_wf_init)
  then show ?thesis by (simp add: wasm_wf_def)
qed

section \<open>One counter for four stores\<close>














section \<open>A first call\<close>

lemma identity_call:
  assumes "js_laws J" "cell_flag (identity_keys w) = Unborrowed" "ik_generate P r = (kp, r')"
  obtains t where "js_generate_identity_keypair P J (w, r) = (Ok t, (w\<lparr>next_handle := next_handle w + 1,
      identity_keys := cell_put (next_handle w) kp (identity_keys w)\<rparr>, r'))"
    "json_parse J t = Ok (json_object J [(''handle'', json_u32 J (next_handle w)),
      (''public_key'', json64 J (ik_x25519_public kp)), (''signing_key_public'', json64 J (ik_verifying_key P kp))])"
proof -
  define fs where "fs = [(''handle'', json_u32 J (next_handle w)),
      (''public_key'', json64 J (ik_x25519_public kp)), (''signing_key_public'', json64 J (ik_verifying_key P kp))]"
  obtain t where t: "json_print J (json_object J fs) = Ok t" using print_total [OF assms(1)] .
  have "document J (json_object J fs)" by (rule documentI) (simp add: fs_def documentI)
  with js_lawsD(4) [OF assms(1)] t have "json_parse J t = Ok (json_object J fs)" by blast
  with t that [of t] assms show thesis
    by (simp add: js_generate_identity_keypair_def next_id_def with_identity_keys_def cell_insert_free
        js_reply_def fs_def)
qed


lemma wasm_stores_typed_witness:
  "\<exists>replies w r k. run_calls (wasm_call demo_provider demo_mls demo_js) [GenIdentity] (wasm_init, demo_rng) =
     (replies, (w, r)) \<and> cell_entry 1 (identity_keys w) = Some k \<and> ik_wf demo_provider k"
proof -
  obtain kp g where kp: "ik_generate demo_provider demo_rng = (kp, g)" by fastforce
  obtain t w r where c: "js_generate_identity_keypair demo_provider demo_js (wasm_init, demo_rng) = (Ok t, (w, r))"
    "cell_entry 1 (identity_keys w) = Some kp"
    by (rule identity_call [OF demo_js_laws _ kp, of wasm_init]) (auto simp: wasm_init_def)
  then have one: "run_calls (wasm_call demo_provider demo_mls demo_js) [GenIdentity] (wasm_init, demo_rng) =
    ([Text (Ok t)], (w, r))" by simp
  from wasm_stores_typed [OF demo_ratchet_laws one, of 1 kp] c(2) one show ?thesis by auto
qed

section \<open>An aborted call\<close>

text \<open>The calls that work on the session store.\<close>

fun on_sessions :: "wasm_op \<Rightarrow> bool" where
  "on_sessions (CreateAlice ss b) = True"
| "on_sessions (CreateBob ss h) = True"
| "on_sessions (SessionEncrypt h m) = True"
| "on_sessions (SessionDecrypt h hdr c n) = True"
| "on_sessions _ = False"

fun reply_ok :: "wasm_reply \<Rightarrow> bool" where
  "reply_ok (Text x) = is_ok x"
| "reply_ok (NewHandle x) = is_ok x"
| "reply_ok (Removed x) = is_ok x"

text \<open>A part of a call that leaves the cell of the sessions alone, flag included.\<close>

definition same_sessions :: "wasm_state \<Rightarrow> wasm_state \<Rightarrow> bool" where
  "same_sessions s s' \<longleftrightarrow> session_cell (fst s') = session_cell (fst s)"

lemma same_sessions_refl [simp]: "same_sessions s s"
  by (simp add: same_sessions_def)

lemma same_sessions_then:
  assumes "and_then_st p g = (x, s')" "\<And>y t. p = (y, t) \<Longrightarrow> same_sessions s t"
    and "\<And>a t. g a t = (x, s') \<Longrightarrow> same_sessions t s'"
  shows "same_sessions s s'"
proof -
  obtain y t where p: "p = (y, t)" by (cases p)
  with assms(2) have "same_sessions s t" .
  with assms(1) assms(3) [of _ t] p show ?thesis
    by (cases y) (auto simp: same_sessions_def)
qed

lemma same_sessions_parts:
  "with_identity_keys f s = (x, s') \<Longrightarrow> same_sessions s s'"
  "with_spk_keys f2 s = (x2, s') \<Longrightarrow> same_sessions s s'"
  "with_mls_states f3 s = (x3, s') \<Longrightarrow> same_sessions s s'"
  "js_mls_read h s = (x4, s') \<Longrightarrow> same_sessions s s'"
  "js_mls_run label f5 s = (x5, s') \<Longrightarrow> same_sessions s s'"
  "js_reply J fs s = (x6, s') \<Longrightarrow> same_sessions s s'"
  "js_mls_destroy_state h s = (x7, s') \<Longrightarrow> same_sessions s s'"
  by (auto simp: with_identity_keys_def with_spk_keys_def with_mls_states_def js_mls_read_def js_mls_run_def
      js_reply_def js_mls_destroy_state_def same_sessions_def split: prod.splits)

text \<open>The end of a call that takes a handle and stores under it.\<close>

lemma insert_same:
  "and_then_st (with_identity_keys f (w\<lparr>next_handle := n\<rparr>, r)) (\<lambda>_. js_reply J fs) = (x, s') \<Longrightarrow>
     same_sessions (w, g) s'"
  "and_then_st (with_spk_keys f2 (w\<lparr>next_handle := n\<rparr>, r)) (\<lambda>_. js_reply J fs) = (x, s') \<Longrightarrow>
     same_sessions (w, g) s'"
  "and_then_st (with_mls_states f3 (w\<lparr>next_handle := n\<rparr>, r)) (\<lambda>_. js_reply J fs) = (x, s') \<Longrightarrow>
     same_sessions (w, g) s'"
  by (drule same_sessions_then [where s = "(w\<lparr>next_handle := n\<rparr>, r)"];
    auto dest: same_sessions_parts(1-3,6) simp: same_sessions_def)+

lemma js_mls_store_same: "js_mls_store J b fs s = (x, s') \<Longrightarrow> same_sessions s s'"
  unfolding js_mls_store_def next_id_def by (cases s) (auto intro: insert_same)

lemma pure_reply: "and_then_st (y, s) (\<lambda>a. js_reply J (F a)) = (x, s') \<Longrightarrow> s' = s"
  by (cases y) (auto simp: js_reply_def)

lemma key_calls_same:
  "js_generate_identity_keypair P J s = (x, s') \<Longrightarrow> same_sessions s s'"
  "js_generate_signed_pre_key P J h s = (x, s') \<Longrightarrow> same_sessions s s'"
  "js_generate_one_time_pre_keys P J n s = (x, s') \<Longrightarrow> same_sessions s s'"
  "js_x3dh_initiate P J h b s = (x, s') \<Longrightarrow> same_sessions s s'"
  "js_x3dh_respond P J h k i e s = (x, s') \<Longrightarrow> same_sessions s s'"
  subgoal
    by (cases s) (auto simp: js_generate_identity_keypair_def next_id_def Let_def split: prod.splits
        intro: insert_same)
  subgoal unfolding js_generate_signed_pre_key_def
    by (elim same_sessions_then) (auto simp: next_id_def split: prod.splits intro: insert_same
        dest: same_sessions_parts(1))
  subgoal by (auto simp: js_generate_one_time_pre_keys_def Let_def same_sessions_def split: prod.splits)
  subgoal unfolding js_x3dh_initiate_def
    by (elim same_sessions_then) (auto dest: same_sessions_parts(1,6))
  subgoal unfolding js_x3dh_respond_def
    by (elim same_sessions_then)
      (auto simp: Let_def same_sessions_def dest!: pure_reply split: prod.splits)
  done

lemma mls_calls_same:
  "js_mls_create_group L J i s = (x, s') \<Longrightarrow> same_sessions s s'"
  "js_mls_process_welcome L J a b s = (x, s') \<Longrightarrow> same_sessions s s'"
  "js_mls_add_member L J h kp s = (x, s') \<Longrightarrow> same_sessions s s'"
  "js_mls_remove_member L J h n s = (x, s') \<Longrightarrow> same_sessions s s'"
  "js_mls_encrypt_message L J h m s = (x, s') \<Longrightarrow> same_sessions s s'"
  "js_mls_decrypt_message L J h m s = (x, s') \<Longrightarrow> same_sessions s s'"
  "js_mls_process_commit L J h m s = (x, s') \<Longrightarrow> same_sessions s s'"
  "js_mls_generate_key_package L J i s = (x, s') \<Longrightarrow> same_sessions s s'"
  by (unfold js_mls_defs; elim same_sessions_then;
    auto dest: same_sessions_parts(4-6) js_mls_store_same)+

lemma other_calls_same:
  assumes "wasm_call P L J op s = (reply, s')" "\<not> on_sessions op"
  shows "same_sessions s s'"
proof -
  have apf: "\<exists>x. f s = (x, s')" if "apfst k (f s) = (reply, s')" for k :: "'x \<Rightarrow> wasm_reply" and f
    using that by (cases "f s") auto
  from assms show ?thesis
    by (cases op) (auto dest!: apf intro: key_calls_same mls_calls_same same_sessions_parts(7))
qed

text \<open>With the cell borrowed, a session call gets nowhere and leaves the cell as it is.\<close>

lemma locked_sessions:
  assumes "cell_flag (session_cell (fst s)) \<noteq> Unborrowed"
  shows "with_sessions (cell_insert h v) s = (Panic, s)"
    and "with_sessions (cell_modify noun h f) s = (Panic, s)"
  using assms
  by (auto simp: with_sessions_def cell_insert_taken cell_modify_taken split: prod.splits)

lemma locked_call:
  assumes "wasm_call P L J op s = (reply, s')" "cell_flag (session_cell (fst s)) \<noteq> Unborrowed"
  shows "session_cell (fst s') = session_cell (fst s)" "on_sessions op \<Longrightarrow> \<not> reply_ok reply"
proof -
  have "session_cell (fst s') = session_cell (fst s) \<and> \<not> reply_ok reply" if "on_sessions op"
  proof (cases op)
    case (SessionEncrypt h m)
    with assms show ?thesis
      by (cases "arg64 J ''plaintext'' m") (auto simp: js_session_encrypt_def locked_sessions)
  next
    case (SessionDecrypt h hdr c n)
    with assms show ?thesis
      by (cases "js_parse_header J hdr"; cases "arg64 J ''ciphertext'' c"; cases "arg64 J ''nonce'' n")
        (auto simp: js_session_decrypt_def locked_sessions)
  next
    case (CreateAlice ss b)
    obtain w r where s: "s = (w, r)" by (cases s)
    show ?thesis
    proof (cases "arg64 J ''shared_secret'' ss")
      case (Ok secret)
      note secret = this
      show ?thesis
      proof (cases "and_then (arg64 J ''bob_spk_public'' b) (key32 ''Bob's SPK public key'')")
        case (Ok key)
        obtain y g where i: "init_alice P secret key r = (y :: (string, Session) outcome, g)" by fastforce
        have "js_create_session_alice P J ss b s = (let (session, r) = init_alice P secret key r in
            and_then_st (session, (w, r)) (\<lambda>session (w, r). let (h, w) = next_id w in
              and_then_st (with_sessions (cell_insert h session) (w, r)) (\<lambda>_ s. (Ok h, s))))"
          using secret Ok by (auto simp: js_create_session_alice_def s key32_def outcome_simps)
        then show ?thesis
          using assms CreateAlice i by (cases y) (auto simp: s next_id_def locked_sessions)
      qed (use assms CreateAlice secret in \<open>auto simp: js_create_session_alice_def outcome_simps\<close>)
    qed (use assms CreateAlice in \<open>auto simp: js_create_session_alice_def\<close>)
  next
    case (CreateBob ss h)
    show ?thesis
    proof (cases "arg64 J ''shared_secret'' ss")
      case (Ok secret)
      obtain y t where read: "with_spk_keys (cell_read ''SPK'' h (\<lambda>spk r. (Ok (init_bob secret spk), r))) s =
          (y :: Session api_result, t)" by (meson surj_pair)
      obtain w r where t: "t = (w, r)" by (cases t)
      from same_sessions_parts(2) [OF read] have "session_cell w = session_cell (fst s)"
        by (simp add: same_sessions_def t)
      with assms CreateBob Ok read show ?thesis
        by (cases y) (auto simp: js_create_session_bob_def t next_id_def locked_sessions)
    qed (use assms CreateBob in \<open>auto simp: js_create_session_bob_def\<close>)
  qed (use that in auto)
  then show "session_cell (fst s') = session_cell (fst s)" "on_sessions op \<Longrightarrow> \<not> reply_ok reply"
    using other_calls_same [OF assms(1)] by (auto simp: same_sessions_def)
qed

lemma locked_run:
  assumes "run_calls (wasm_call P L J) ops s = (replies, s')" "cell_flag (session_cell (fst s)) \<noteq> Unborrowed"
  shows "list_all2 (\<lambda>op reply. on_sessions op \<longrightarrow> \<not> reply_ok reply) ops replies \<and>
    session_cell (fst s') = session_cell (fst s)"
  using assms
proof (induction ops arbitrary: s replies)
  case (Cons op ops)
  obtain reply t where step: "wasm_call P L J op s = (reply, t)" by (meson surj_pair)
  then obtain replies1 where rest: "run_calls (wasm_call P L J) ops t = (replies1, s')" "replies = reply # replies1"
    using Cons.prems(1) by (auto simp: Let_def split: prod.splits)
  from Cons.IH [OF rest(1)] locked_call [OF step Cons.prems(2)] rest(2) Cons.prems(2) show ?case by auto
qed simp

text \<open>
  C26. One message whose header carries a key that has not 32 bytes, given to any live session,
  aborts the call inside the session store: the store stays borrowed, and from then on every
  call that creates a session, encrypts or decrypts fails, whatever calls come between, while
  the sessions themselves are frozen as they are. Only a new instance of the module helps.
\<close>
theorem abort_locks_sessions:
  assumes "js_parse_header J hdr = Ok header" and "length (mh_dh_public_key header) \<noteq> 32"
    and "arg64 J ''ciphertext'' c = Ok ct" and "arg64 J ''nonce'' n = Ok nc"
    and "cell_flag (session_cell w) = Unborrowed" and "cell_entry h (session_cell w) = Some s" and "session_wf s"
    and "js_session_decrypt P J h hdr c n (w, r) = (x, (w', r'))"
    and "run_calls (wasm_call P L J) ops (w', r') = (replies, (w'', r''))"
  shows "x = Panic \<and> list_all2 (\<lambda>op reply. on_sessions op \<longrightarrow> \<not> reply_ok reply) ops replies \<and>
    cell_map (session_cell w'') = cell_map (session_cell w')"
proof -
  have "fmlookup (skipped_keys s) (mh_dh_public_key header, mh_message_number header) = None"
    using assms(2,7) unfolding session_wf_def by (metis not_Some_eq)
  from decrypt_bad_key [OF this assms(2)]
  have run: "(let (x, s') = ratchet_decrypt P header \<lparr>nonce = nc, ciphertext = ct\<rparr> (s, r) in
      (js_err ''Decryption failed: '' x, s')) = (Panic, (s, r))"
    by (simp add: js_err_def)
  from cell_modify_found [where f = "\<lambda>session. let (x, session') = ratchet_decrypt P header
      \<lparr>nonce = nc, ciphertext = ct\<rparr> session in (js_err ''Decryption failed: '' x, session')"
      and g = r and noun = "''Session''", OF assms(5,6) run]
  have "x = Panic \<and> cell_flag (session_cell w') = Exclusive"
    using assms(8) by (auto simp: js_session_decrypt_def assms(1,3,4) with_sessions_def)
  with locked_run [OF assms(9)] show ?thesis by simp
qed

section \<open>Reading back what the module printed\<close>

lemma arg64_enc: "js_laws J \<Longrightarrow> arg64 J name (enc64 J b) = Ok b"
  by (simp add: arg64_def js_lawsD(1))

lemma key32_Ok: "length b = 32 \<Longrightarrow> key32 name b = Ok b"
  by (simp add: key32_def)

lemma ucast_u32 [simp]: "ucast (ucast n :: u64) = (n :: u32)"
  by (rule bit_word_eqI) (simp add: bit_simps)

lemma header_fields_parse:
  assumes "js_laws J" "json_parse J t = Ok (json_object J (header_fields J header))"
  shows "js_parse_header J t = Ok header"
  using assms
  by (simp add: js_parse_header_def header_fields_def str_field_def u32_field_def js_lawsD(1,5-7) arg64_enc)

lemma header_fields_document: "document J (json_object J (header_fields J header))"
  by (rule documentI) (simp add: header_fields_def documentI)

lemma abort_locks_sessions_witness:
  "\<exists>hdr x w r replies s.
    js_session_decrypt demo_provider demo_js 1 hdr [] []
      (wasm_init\<lparr>session_cell := cell_put 1 demo_receiver cell_new\<rparr>, demo_rng) = (x, (w, r)) \<and>
    run_calls (wasm_call demo_provider demo_mls demo_js) [SessionEncrypt 1 []] (w, r) = (replies, s) \<and>
    x = Panic \<and> list_all2 (\<lambda>op reply. on_sessions op \<longrightarrow> \<not> reply_ok reply) [SessionEncrypt 1 []] replies"
proof -
  define w0 where "w0 = wasm_init\<lparr>session_cell := cell_put 1 demo_receiver cell_new\<rparr>"
  obtain hdr where hdr: "json_print demo_js (json_object demo_js (header_fields demo_js (header_new [] 0 0))) = Ok hdr"
    using print_total [OF demo_js_laws] .
  from header_fields_parse [OF demo_js_laws js_lawsD(4) [OF demo_js_laws header_fields_document hdr]]
  have 1: "js_parse_header demo_js hdr = Ok (header_new [] 0 0)" .
  have 2: "arg64 demo_js n [] = Ok []" for n
    by (simp add: arg64_def demo_js_def unchars_def)
  have 3: "cell_flag (session_cell w0) = Unborrowed" "cell_entry 1 (session_cell w0) = Some demo_receiver"
    by (simp_all add: w0_def)
  obtain x w r where run: "js_session_decrypt demo_provider demo_js 1 hdr [] [] (w0, demo_rng) = (x, (w, r))"
    by (rule prod_cases3)
  obtain replies w2 r2 where run2: "run_calls (wasm_call demo_provider demo_mls demo_js) [SessionEncrypt 1 []] (w, r) =
      (replies, (w2, r2))" by (rule prod_cases3)
  have "length (mh_dh_public_key (header_new [] 0 0)) \<noteq> 32" by (simp add: header_new_def)
  from abort_locks_sessions [OF 1 this 2 2 3 demo_receiver_wf run run2] run run2
  show ?thesis unfolding w0_def by blast
qed

section \<open>Numbers of more than 32 bits\<close>

definition header_object :: "'j js_lib \<Rightarrow> bytes \<Rightarrow> u64 \<Rightarrow> u64 \<Rightarrow> 'j" where
  "header_object J key n p = json_object J [(''dh_public_key'', json64 J key),
     (''message_number'', json_number J n), (''previous_chain_length'', json_number J p)]"

lemma header_object_parse:
  assumes "js_laws J" "json_print J (header_object J key n p) = Ok t"
  shows "js_parse_header J t =
    Ok \<lparr>mh_dh_public_key = key, mh_message_number = ucast n, mh_previous_chain_length = ucast p\<rparr>"
proof -
  have "document J (header_object J key n p)" by (simp add: header_object_def documentI)
  from js_lawsD(4) [OF assms(1) this assms(2)] assms(1) show ?thesis
    by (simp add: js_parse_header_def header_object_def str_field_def u32_field_def js_lawsD(5-7) arg64_enc)
qed

lemma ucast_u64_eq: "(ucast (n :: u64) :: u32) = ucast (n' :: u64)" if "unat n mod 2 ^ 32 = unat n' mod 2 ^ 32"
proof -
  have "unat (ucast m :: u32) = unat m mod 2 ^ 32" for m :: u64
    by (simp add: unsigned_ucast_eq take_bit_eq_mod)
  with that show ?thesis by (metis word_unat_eq_iff)
qed

text \<open>
  C27. The numbers of a header are not checked: two header texts whose message numbers and chain
  lengths agree modulo \<open>2 ^ 32\<close> are one and the same message to \<open>session_decrypt\<close>, on every session,
  in the answer and in the state it leaves. The header that is authenticated is the cut one, so
  the texts of a message under way can be changed this way without being refused.
\<close>
theorem wide_numbers_alias:
  assumes "js_laws J" and "unat n mod 2 ^ 32 = unat n' mod 2 ^ 32" and "unat p mod 2 ^ 32 = unat p' mod 2 ^ 32"
    and "json_print J (header_object J key n p) = Ok t" and "json_print J (header_object J key n' p') = Ok t'"
  shows "js_session_decrypt P J h t c nonce_b64 s = js_session_decrypt P J h t' c nonce_b64 s"
  using ucast_u64_eq [OF assms(2)] ucast_u64_eq [OF assms(3)]
  by (simp add: js_session_decrypt_def header_object_parse [OF assms(1,4)] header_object_parse [OF assms(1,5)])

lemma wide_numbers_alias_witness:
  "\<exists>t t'. json_print demo_js (header_object demo_js [] 7 0) = Ok t \<and>
     json_print demo_js (header_object demo_js [] 4294967303 0) = Ok t' \<and>
     js_session_decrypt demo_provider demo_js 1 t [] [] (wasm_init, demo_rng) =
     js_session_decrypt demo_provider demo_js 1 t' [] [] (wasm_init, demo_rng)"
proof -
  obtain t t' where t: "json_print demo_js (header_object demo_js [] 7 0) = Ok t"
    "json_print demo_js (header_object demo_js [] 4294967303 0) = Ok t'"
    using print_total [OF demo_js_laws] by metis
  have "unat (7 :: u64) mod 2 ^ 32 = unat (4294967303 :: u64) mod 2 ^ 32" by simp
  from wide_numbers_alias [OF demo_js_laws this refl t] t show ?thesis by blast
qed

end
