(* ===== verification/Wasm_Native.thy ===== *)
theory Wasm_Native
  imports Wasm_Properties
begin

text \<open>
  The two interfaces of the crate serve the same sessions: the session calls of \<open>src/wasm.rs\<close> on
  JSON and base64 text and those of \<open>src/api.rs\<close> on bytes are two implementations of one session
  store. The correspondence is a simulation between the two components, in lock step.
\<close>

section \<open>Corresponding calls, states and replies\<close>

text \<open>
  \<open>K\<close> is what the module holds as signed pre-keys; the native interface is handed the exported
  bytes of the pre-key instead of its handle.
\<close>

fun same_call :: "'j js_lib \<Rightarrow> (u32 \<Rightarrow> SignedPreKey option) \<Rightarrow> wasm_op \<Rightarrow> api_op \<Rightarrow> bool" where
  "same_call J K (CreateAlice a b) (CreateInitiator ss pub) \<longleftrightarrow> dec64 J a = Ok ss \<and> dec64 J b = Ok pub"
| "same_call J K (CreateBob a h) (CreateResponder ss sec pub sig) \<longleftrightarrow> dec64 J a = Ok ss \<and>
     (\<exists>k. K h = Some k \<and> sec = spk_secret_bytes k \<and> pub = spk_x25519_public k \<and> sig = spk_signature k)"
| "same_call J K (SessionEncrypt h m) (Encrypt h' p) \<longleftrightarrow> h' = h \<and> dec64 J m = Ok p"
| "same_call J K (SessionDecrypt h t c n) (Decrypt h' hdr ct nc) \<longleftrightarrow> h' = h \<and>
     js_parse_header J t = Ok hdr \<and> dec64 J c = Ok ct \<and> dec64 J n = Ok nc"
| "same_call J K _ _ \<longleftrightarrow> False"

definition importable :: "(u32 \<Rightarrow> SignedPreKey option) \<Rightarrow> bool" where
  "importable K \<longleftrightarrow> (\<forall>h k. K h = Some k \<longrightarrow>
     spk_from_bytes (spk_secret_bytes k) (spk_x25519_public k) (spk_signature k) = Ok k)"

text \<open>The lock is poisoned exactly when the cell was left borrowed by an aborted call.\<close>

definition same_state :: "'j js_lib \<Rightarrow> (u32 \<Rightarrow> SignedPreKey option) \<Rightarrow> wasm_state \<Rightarrow> api_state \<Rightarrow> bool" where
  "same_state J K = (\<lambda>(w, r) (st, g). js_laws J \<and> importable K \<and> g = r \<and>
     cell_flag (spk_keys w) \<noteq> Exclusive \<and> (\<forall>h. cell_entry h (spk_keys w) = K h) \<and>
     cell_map (session_cell w) = reg_map st \<and> next_handle w = reg_next st \<and>
     cell_flag (session_cell w) = (if reg_poisoned st then Exclusive else Unborrowed))"

text \<open>
  The same success, an error where there is an error; an aborted call of the module is a panic of
  the native call, or its report of the poisoned lock.
\<close>

fun same_outcome :: "('a \<Rightarrow> 'b \<Rightarrow> bool) \<Rightarrow> 'a api_result \<Rightarrow> 'b api_result \<Rightarrow> bool" where
  "same_outcome R (Ok a) (Ok b) \<longleftrightarrow> R a b"
| "same_outcome R (Err e) (Err e') \<longleftrightarrow> True"
| "same_outcome R Panic Panic \<longleftrightarrow> True"
| "same_outcome R Panic (Err e) \<longleftrightarrow> e = ''Session'' @ '' lock poisoned: '' @ poison_text"
| "same_outcome R _ _ \<longleftrightarrow> False"

definition encrypt_text :: "'j js_lib \<Rightarrow> string \<Rightarrow> EncryptResult \<Rightarrow> bool" where
  "encrypt_text J t e \<longleftrightarrow> json_parse J t = Ok (json_object J
     [(''header'', json_object J (header_fields J (er_header e))),
      (''ciphertext'', json64 J (er_ciphertext e)), (''nonce'', json64 J (er_nonce e))])"

fun same_reply :: "'j js_lib \<Rightarrow> wasm_reply \<Rightarrow> api_reply \<Rightarrow> bool" where
  "same_reply J (NewHandle x) (Handle y) \<longleftrightarrow> same_outcome (=) x y"
| "same_reply J (Text x) (Encrypted y) \<longleftrightarrow> same_outcome (encrypt_text J) x y"
| "same_reply J (Text x) (Decrypted y) \<longleftrightarrow> same_outcome (\<lambda>t m. t = enc64 J m) x y"
| "same_reply J _ _ \<longleftrightarrow> False"

section \<open>The parts correspond\<close>

lemma same_stateD:
  assumes "same_state J K (w, r) (st, g)"
  shows "js_laws J" "importable K" "g = r" "cell_flag (spk_keys w) \<noteq> Exclusive"
    "cell_entry h (spk_keys w) = K h" "cell_map (session_cell w) = reg_map st" "next_handle w = reg_next st"
    "cell_flag (session_cell w) = (if reg_poisoned st then Exclusive else Unborrowed)"
    "cell_entry h (session_cell w) = reg_entry h st"
  using assms by (auto simp: same_state_def cell_entry_def reg_entry_def)

text \<open>Storing a new session.\<close>

lemma store_corresponds:
  assumes "same_state J K (w, r) (st, r)"
    and "(let (h, w) = next_id w in and_then_st (with_sessions (cell_insert h s) (w, r)) (\<lambda>_ s. (Ok h, s))) = (x, (w', r'))"
    and "reg_register ''Session'' s st = (y, st')"
  shows "same_outcome (=) x y \<and> same_state J K (w', r') (st', r)"
proof (cases "reg_poisoned st")
  case True
  with same_stateD(8) [OF assms(1)] assms(2,3) show ?thesis
    using assms(1)
    by (auto simp: next_id_def with_sessions_def cell_insert_taken reg_register_poisoned same_state_def)
next
  case False
  with same_stateD(8) [OF assms(1)] assms(2,3) show ?thesis
    using assms(1)
    by (auto simp: next_id_def with_sessions_def cell_insert_free reg_register_def reg_alloc_def
        same_state_def cell_put_def)
qed

text \<open>Working on a session behind a handle.\<close>

lemma modify_corresponds:
  assumes "same_state J K (w, r) (st, r)"
    and "with_sessions (cell_modify ''Session'' h f) (w, r) = (x, (w', r1))"
    and "reg_update ''Session'' ''session'' h f' (st, r) = (y, (st', r2))"
    and "\<And>v. same_outcome R (fst (f (v, r))) (fst (f' (v, r))) \<and> snd (f (v, r)) = snd (f' (v, r)) \<and>
      (fst (f (v, r)) = Panic \<longleftrightarrow> fst (f' (v, r)) = Panic)"
  shows "same_outcome R x y \<and> same_state J K (w', r1) (st', r2)"
proof (cases "reg_poisoned st")
  case True
  with same_stateD(8) [OF assms(1)] assms(1-3) show ?thesis
    by (auto simp: with_sessions_def cell_modify_taken reg_update_poisoned)
next
  case False
  note flag = same_stateD(8) [OF assms(1)] and entry = same_stateD(9) [OF assms(1)]
  show ?thesis
  proof (cases "reg_entry h st")
    case None
    with False flag entry [of h] assms(1-3) show ?thesis
      by (auto simp: with_sessions_def cell_modify_missing reg_update_missing)
  next
    case (Some v)
    obtain p v' g where f: "f (v, r) = (p, (v', g))" by (rule prod_cases3)
    obtain q v2 g2 where f': "f' (v, r) = (q, (v2, g2))" by (rule prod_cases3)
    from assms(4) [of v] f f' have same: "same_outcome R p q" "v2 = v'" "g2 = g" "p = Panic \<longleftrightarrow> q = Panic"
      by simp_all
    have "x = p" "r1 = g" "w' = w\<lparr>session_cell := (case p of
        Panic \<Rightarrow> (cell_put h v' (session_cell w))\<lparr>cell_flag := Exclusive\<rparr> | _ \<Rightarrow> cell_put h v' (session_cell w))\<rparr>"
      using assms(2) cell_modify_found [where f = f and g = r and c = "session_cell w" and h = h, OF _ _ f]
        False flag entry [of h] Some by (auto simp: with_sessions_def)
    moreover have "y = q" "r2 = g" "st' = (case q of
        Panic \<Rightarrow> (reg_put h v' st)\<lparr>reg_poisoned := True\<rparr> | _ \<Rightarrow> reg_put h v' st)"
      using assms(3) reg_update_found [where f = f' and g = r, OF False Some f'] same(2,3) by auto
    ultimately show ?thesis
      using assms(1) False same
      by (cases p; cases q) (auto simp: same_state_def cell_put_def reg_put_def)
  qed
qed

section \<open>The calls correspond\<close>

lemma same_state_rng: "same_state J K (w, r) (st, r) \<Longrightarrow> same_state J K (w, g) (st, g)"
  by (simp add: same_state_def)

lemma same_outcome_Err [simp]: "same_outcome R (Err e) y \<longleftrightarrow> (\<exists>e'. y = Err e')"
  by (cases y) auto

lemma same_outcome_Panic: "same_outcome R Panic Panic"
  by simp

lemma alice_corresponds:
  assumes "same_state J K (w, r) (st, r)" "dec64 J a = Ok ss" "dec64 J b = Ok pub"
    and "js_create_session_alice P J a b (w, r) = (x, (w', r1))"
    and "create_session_initiator P ss pub (st, r) = (y, (st', r2))"
  shows "same_outcome (=) x y \<and> same_state J K (w', r1) (st', r2)"
proof (cases "length pub = 32")
  case False
  with assms show ?thesis
    by (auto simp: js_create_session_alice_def create_session_initiator_def arg64_def key32_def
        bytes_to_public_key_def)
next
  case True
  obtain s g where i: "init_alice P ss pub r = (s :: (string, Session) outcome, g)" by fastforce
  show ?thesis
  proof (cases s)
    case (Ok session)
    obtain z st1 where reg: "reg_register ''Session'' session st = (z, st1)" by fastforce
    from assms(4) True Ok i have "(let (h, w) = next_id w in
        and_then_st (with_sessions (cell_insert h session) (w, g)) (\<lambda>_ s. (Ok h, s))) = (x, (w', r1))"
      by (simp add: js_create_session_alice_def arg64_def assms(2,3) key32_def)
    from store_corresponds [OF same_state_rng [OF assms(1)] this reg] assms(5) True Ok i reg
    show ?thesis by (auto simp: create_session_initiator_def bytes_to_public_key_def)
  qed (use assms True i same_state_rng in
      \<open>auto simp: js_create_session_alice_def create_session_initiator_def arg64_def key32_def bytes_to_public_key_def\<close>)
qed

lemma bob_corresponds:
  assumes "same_state J K (w, r) (st, r)" "dec64 J a = Ok ss" "K h = Some k"
    and "js_create_session_bob J a h (w, r) = (x, (w', r1))"
    and "create_session_responder ss (spk_secret_bytes k) (spk_x25519_public k) (spk_signature k) (st, r) =
      (y, (st', r2))"
  shows "same_outcome (=) x y \<and> same_state J K (w', r1) (st', r2)"
proof -
  note same = same_stateD [OF assms(1)]
  obtain z st1 where reg: "reg_register ''Session'' (init_bob ss k) st = (z, st1)" by fastforce
  have "with_spk_keys (cell_read ''SPK'' h (\<lambda>spk r. (Ok (init_bob ss spk), r))) (w, r) = (Ok (init_bob ss k), (w, r))"
    using same(4,5) assms(3) by (simp add: with_spk_keys_def cell_read_found [where v = k])
  with assms(4) have "(let (h, w) = next_id w in
      and_then_st (with_sessions (cell_insert h (init_bob ss k)) (w, r)) (\<lambda>_ s. (Ok h, s))) = (x, (w', r1))"
    by (simp add: js_create_session_bob_def arg64_def assms(2))
  from store_corresponds [OF assms(1) this reg] assms(5) reg same(2) assms(3) show ?thesis
    by (auto simp: create_session_responder_def importable_def api_map_err_def)
qed

text \<open>The two ways to report an outcome of the ratchet.\<close>

lemma crate_outcome:
  "(\<And>a. R a (k a)) \<Longrightarrow> same_outcome R (js_err l x) (and_then (api_map_err x) (\<lambda>a. Ok (k a)))"
  "same_outcome (=) (js_err l z) (api_map_err z)"
  by (cases x; simp add: js_err_def api_map_err_def; fail) (cases z; simp add: js_err_def api_map_err_def)

lemma crate_panic:
  "js_err l x = Panic \<longleftrightarrow> x = Panic" "api_map_err x = Panic \<longleftrightarrow> x = Panic"
  "and_then (api_map_err x) (\<lambda>a. Ok (k a)) = Panic \<longleftrightarrow> x = Panic"
  by (cases x; simp add: js_err_def api_map_err_def)+

definition encrypt_result :: "MessageHeader \<times> encrypted \<Rightarrow> EncryptResult" where
  "encrypt_result = (\<lambda>(header, enc).
     \<lparr>er_header = header, er_ciphertext = ciphertext enc, er_nonce = nonce enc\<rparr>)"

lemma encrypt_reply:
  assumes "js_laws J"
  obtains t where "(case m of (header, enc) \<Rightarrow> js_reply J
      [(''header'', json_object J (header_fields J header)), (''ciphertext'', json64 J (ciphertext enc)),
       (''nonce'', json64 J (nonce enc))]) s = (Ok t, s)" "encrypt_text J t (encrypt_result m)"
proof -
  obtain header enc where m: "m = (header, enc)" by (cases m)
  let ?v = "json_object J [(''header'', json_object J (header_fields J header)),
      (''ciphertext'', json64 J (ciphertext enc)), (''nonce'', json64 J (nonce enc))]"
  obtain t where t: "json_print J ?v = Ok t" using print_total [OF assms] .
  have "document J ?v"
    by (rule documentI) (simp add: header_fields_def documentI)
  from js_lawsD(4) [OF assms this t] t m that [of t] show thesis
    by (simp add: js_reply_def encrypt_text_def encrypt_result_def)
qed

lemma encrypt_corresponds:
  assumes "same_state J K (w, r) (st, r)" "dec64 J m = Ok p"
    and "js_session_encrypt P J h m (w, r) = (x, (w', r1))"
    and "session_encrypt P h p (st, r) = (y, (st', r2))"
  shows "same_outcome (encrypt_text J) x y \<and> same_state J K (w', r1) (st', r2)"
proof -
  let ?f = "\<lambda>session. let (x, session') = ratchet_encrypt P p session in (js_err ''Encryption failed: '' x, session')"
  let ?g = "\<lambda>s. let (x, s') = ratchet_encrypt P p s in (and_then (api_map_err x) (\<lambda>a. Ok (encrypt_result a)), s')"
  have native: "reg_update ''Session'' ''session'' h ?g (st, r) = (y, (st', r2))"
    using assms(4) by (simp add: session_encrypt_def encrypt_result_def case_prod_unfold)
  obtain z w1 g where run: "with_sessions (cell_modify ''Session'' h ?f) (w, r) = (z, (w1, g))" by (rule prod_cases3)
  have "same_outcome (\<lambda>a b. b = encrypt_result a) z y \<and> same_state J K (w1, g) (st', r2)"
    by (rule modify_corresponds [OF assms(1) run native]) (simp add: case_prod_beta crate_outcome crate_panic Let_def)
  moreover have "and_then_st (z, (w1, g)) (\<lambda>(header, enc). js_reply J
      [(''header'', json_object J (header_fields J header)), (''ciphertext'', json64 J (ciphertext enc)),
       (''nonce'', json64 J (nonce enc))]) = (x, (w', r1))"
    using assms(3) run by (simp add: js_session_encrypt_def arg64_def assms(2))
  note z = calculation(1) and rest = this
  show ?thesis
  proof (cases z)
    case (Ok a)
    obtain t where t: "(case a of (header, enc) \<Rightarrow> js_reply J
        [(''header'', json_object J (header_fields J header)), (''ciphertext'', json64 J (ciphertext enc)),
         (''nonce'', json64 J (nonce enc))]) (w1, g) = (Ok t, (w1, g))" "encrypt_text J t (encrypt_result a)"
      by (rule encrypt_reply [OF same_stateD(1) [OF assms(1)]])
    with rest Ok have "x = Ok t" "w' = w1" "r1 = g" by simp_all
    with z Ok t(2) show ?thesis by (cases y) simp_all
  qed (use z rest in \<open>cases y; auto\<close>)+
qed

lemma decrypt_corresponds:
  assumes "same_state J K (w, r) (st, r)"
    and "js_parse_header J t = Ok hdr" "dec64 J c = Ok ct" "dec64 J n = Ok nc"
    and "js_session_decrypt P J h t c n (w, r) = (x, (w', r1))"
    and "session_decrypt P h hdr ct nc (st, r) = (y, (st', r2))"
  shows "same_outcome (\<lambda>t m. t = enc64 J m) x y \<and> same_state J K (w', r1) (st', r2)"
proof -
  let ?f = "\<lambda>session. let (x, session') = ratchet_decrypt P hdr \<lparr>nonce = nc, ciphertext = ct\<rparr> session in
    (js_err ''Decryption failed: '' x, session')"
  obtain z w1 g where run: "with_sessions (cell_modify ''Session'' h ?f) (w, r) = (z, (w1, g))" by (rule prod_cases3)
  have "same_outcome (=) z y \<and> same_state J K (w1, g) (st', r2)"
    by (rule modify_corresponds [OF assms(1) run assms(6) [unfolded session_decrypt_def]])
      (simp add: case_prod_beta crate_outcome crate_panic Let_def)
  moreover have "and_then_st (z, (w1, g)) (\<lambda>plaintext s. (Ok (enc64 J plaintext), s)) = (x, (w', r1))"
    using assms(5) run by (simp add: js_session_decrypt_def arg64_def assms(2-4))
  ultimately show ?thesis
    by (cases z; cases y) auto
qed

interpretation native: simulation "wasm_call P L J" "api_call P" "same_call J K" "same_reply J" "same_state J K"
  for P L J K
proof
  fix x y s t p s' q t'
  assume op: "same_call J K x y" and st: "same_state J K s t"
    and runs: "wasm_call P L J x s = (p, s')" "api_call P y t = (q, t')"
  obtain w r w' r1 st0 st' r2 where s: "s = (w, r)" "s' = (w', r1)" "t = (st0, r)" "t' = (st', r2)"
    using st by (metis same_stateD(3) surj_pair)
  note st = st [unfolded s]
  have apfst_eq: "apfst f u = (a, b) \<longleftrightarrow> (\<exists>c. u = (c, b) \<and> a = f c)" for f :: "'x \<Rightarrow> 'y" and u a and b :: wasm_state
    by (cases u) auto
  from op show "same_reply J p q \<and> same_state J K s' t'"
  proof (cases rule: same_call.cases [of "(J, K, x, y)"])
    case (1 J' K' a b ss pub)
    with op runs s alice_corresponds [OF st] show ?thesis by (auto simp: apfst_eq split: prod.splits)
  next
    case (2 J' K' a h ss sec pub sig)
    with op runs s bob_corresponds [OF st] show ?thesis by (auto simp: apfst_eq split: prod.splits)
  next
    case (3 J' K' h m h' p')
    with op runs s encrypt_corresponds [OF st] show ?thesis by (auto simp: apfst_eq split: prod.splits)
  next
    case (4 J' K' h t c n h' hdr ct nc)
    with op runs s decrypt_corresponds [OF st] show ?thesis by (auto simp: apfst_eq split: prod.splits)
  qed (use op in auto)
qed

text \<open>
  C12. The two interfaces are equivalent on sessions: run on the same sessions, counter and
  entropy, corresponding sequences of calls have corresponding results in lock step, the same
  handles, headers, ciphertexts and plaintexts, an error for an error, and leave the same
  sessions behind; a call the one interface aborts is a panic or a report of the poisoned lock in
  the other.
\<close>
theorem interfaces_agree:
  assumes "same_state J K (w, r) (st, r)" and "list_all2 (same_call J K) ops ops'"
    and "run_calls (wasm_call P L J) ops (w, r) = (replies, (w', r1))"
    and "run_calls (api_call P) ops' (st, r) = (replies', (st', r2))"
  shows "list_all2 (same_reply J) replies replies' \<and> r1 = r2 \<and>
    cell_map (session_cell w') = reg_map st' \<and> next_handle w' = reg_next st'"
proof -
  from native.run_simulates [OF assms(2,1,3,4)] show ?thesis
    using same_stateD(3,6,7) by blast
qed

lemma demo_importable: "importable [1 \<mapsto> demo_pre_key 5]"
proof -
  have "spk_from_bytes (spk_secret_bytes (demo_pre_key 5)) (spk_x25519_public (demo_pre_key 5))
      (spk_signature (demo_pre_key 5)) = Ok (demo_pre_key 5)"
    using demo_ratchet_laws [THEN ratchet_lawsD(2)]
    by (simp add: demo_pre_key_def spk_generate_def draw_bytes_def ik_sign_def spk_from_bytes_def
        spk_secret_bytes_def x25519_sizes_def Let_def demo_ed25519_laws) (simp add: demo_provider_def)
  then show ?thesis by (simp add: importable_def)
qed

lemma interfaces_agree_witness:
  "\<exists>replies w' r1 replies' st'.
    run_calls (wasm_call demo_provider demo_mls demo_js)
      [CreateAlice [] (enc64 demo_js (replicate 32 3)), CreateBob [] 1, SessionEncrypt 2 (enc64 demo_js [7])]
      (wasm_init\<lparr>spk_keys := cell_put 1 (demo_pre_key 5) cell_new, next_handle := 2\<rparr>, demo_rng) = (replies, (w', r1)) \<and>
    run_calls (api_call demo_provider)
      [CreateInitiator [] (replicate 32 3), CreateResponder [] (spk_secret_bytes (demo_pre_key 5))
        (spk_x25519_public (demo_pre_key 5)) (spk_signature (demo_pre_key 5)), Encrypt 2 [7]]
      (reg_empty\<lparr>reg_next := 2\<rparr>, demo_rng) = (replies', (st', r1)) \<and>
    list_all2 (same_reply demo_js) replies replies' \<and> cell_map (session_cell w') = reg_map st'"
proof -
  define w0 where "w0 = wasm_init\<lparr>spk_keys := cell_put 1 (demo_pre_key 5) cell_new, next_handle := 2\<rparr>"
  define st0 :: "Session registry" where "st0 = reg_empty\<lparr>reg_next := 2\<rparr>"
  define ops where "ops = [CreateAlice [] (enc64 demo_js (replicate 32 3)), CreateBob [] 1,
      SessionEncrypt 2 (enc64 demo_js [7])]"
  define ops' where "ops' = [CreateInitiator [] (replicate 32 3), CreateResponder []
      (spk_secret_bytes (demo_pre_key 5)) (spk_x25519_public (demo_pre_key 5)) (spk_signature (demo_pre_key 5)),
      Encrypt 2 [7]]"
  have state: "same_state demo_js [1 \<mapsto> demo_pre_key 5] (w0, demo_rng) (st0, demo_rng)"
    using demo_js_laws demo_importable
    by (auto simp: same_state_def w0_def st0_def wasm_init_def reg_empty_def cell_new_def cell_put_def cell_entry_def)
  have "dec64 demo_js [] = Ok []" by (simp add: demo_js_def unchars_def)
  then have ops: "list_all2 (same_call demo_js [1 \<mapsto> demo_pre_key 5]) ops ops'"
    by (simp add: ops_def ops'_def js_lawsD(1) [OF demo_js_laws])
  obtain replies w' r1 where 1: "run_calls (wasm_call demo_provider demo_mls demo_js) ops (w0, demo_rng) =
      (replies, (w', r1))" by (rule prod_cases3)
  obtain replies' st' r2 where 2: "run_calls (api_call demo_provider) ops' (st0, demo_rng) =
      (replies', (st', r2))" by (rule prod_cases3)
  from interfaces_agree [OF state ops 1 2] 1 2 show ?thesis
    unfolding w0_def st0_def ops_def ops'_def by blast
qed

end
