(* ===== verification/Wasm_Flow.thy ===== *)
theory Wasm_Flow
  imports Wasm_Native Api_Properties
begin

text \<open>
  The way from two fresh instances of the WebAssembly module to the first message, through the
  texts that cross the boundary: what each call returns on success, and the theorem that the
  whole sequence works.
\<close>

section \<open>The application's side\<close>

text \<open>The string at a field of a reply, and the text of an object at a field.\<close>

definition text_at :: "'j js_lib \<Rightarrow> string \<Rightarrow> string \<Rightarrow> string" where
  "text_at J t k = (case json_parse J t of
     Ok v \<Rightarrow> (case json_as_str J (json_index J v k) of Some s \<Rightarrow> s | None \<Rightarrow> [])
   | _ \<Rightarrow> [])"

definition object_at :: "'j js_lib \<Rightarrow> string \<Rightarrow> string \<Rightarrow> string api_result" where
  "object_at J t k = and_then (json_parse J t) (\<lambda>v. json_print J (json_index J v k))"

definition bundle_object :: "'j js_lib \<Rightarrow> string \<Rightarrow> string \<Rightarrow> string \<Rightarrow> string \<Rightarrow> 'j" where
  "bundle_object J ik vk spk sig = json_object J
     [(''identity_key'', json_string J ik), (''identity_verifying_key'', json_string J vk),
      (''signed_pre_key'', json_string J spk), (''signature'', json_string J sig)]"

lemma text_at_field:
  assumes "js_laws J" "json_parse J t = Ok (json_object J fs)" "distinct (map fst fs)"
    and "map_of fs k = Some (json_string J s)"
  shows "text_at J t k = s"
  using assms by (simp add: text_at_def js_lawsD(5,6))

text \<open>A reply made of leaves prints, and is read back as it was.\<close>

lemma reply_parses:
  assumes "js_laws J" "list_all (\<lambda>(k, x). branch J x) fs"
  obtains t where "js_reply J fs s = (Ok t, s)" "json_parse J t = Ok (json_object J fs)"
proof -
  obtain t where t: "json_print J (json_object J fs) = Ok t" using print_total [OF assms(1)] .
  with js_lawsD(4) [OF assms(1) documentI(1) [OF assms(2)] t] that [of t] show thesis
    by (simp add: js_reply_def)
qed

section \<open>The calls\<close>

lemma identity_texts:
  assumes "js_laws J" "ik_generate P r = (kp, r')"
  obtains t where "js_generate_identity_keypair P J (wasm_init, r) =
      (Ok t, (wasm_init\<lparr>next_handle := 2, identity_keys := cell_put 1 kp cell_new\<rparr>, r'))"
    "text_at J t ''public_key'' = enc64 J (ik_x25519_public kp)"
    "text_at J t ''signing_key_public'' = enc64 J (ik_verifying_key P kp)"
proof -
  have "cell_flag (identity_keys wasm_init) = Unborrowed" by (simp add: wasm_init_def)
  from identity_call [OF assms(1) this assms(2)] obtain t where
    t: "js_generate_identity_keypair P J (wasm_init, r) = (Ok t, (wasm_init\<lparr>next_handle := next_handle wasm_init + 1,
        identity_keys := cell_put (next_handle wasm_init) kp (identity_keys wasm_init)\<rparr>, r'))"
      "json_parse J t = Ok (json_object J [(''handle'', json_u32 J (next_handle wasm_init)),
        (''public_key'', json64 J (ik_x25519_public kp)), (''signing_key_public'', json64 J (ik_verifying_key P kp))])"
    by blast
  show thesis
    by (rule that [of t]) (use t(1) in \<open>simp_all add: wasm_init_def text_at_field [OF assms(1) t(2)]\<close>)
qed

lemma pre_key_call:
  assumes "js_laws J" "cell_flag (identity_keys w) = Unborrowed" "cell_entry ih (identity_keys w) = Some bob"
    and "cell_flag (spk_keys w) = Unborrowed" "spk_generate P bob r = (spk, r')"
  obtains t where "js_generate_signed_pre_key P J ih (w, r) = (Ok t, (w\<lparr>next_handle := next_handle w + 1,
      spk_keys := cell_put (next_handle w) spk (spk_keys w)\<rparr>, r'))"
    "text_at J t ''public_key'' = enc64 J (spk_x25519_public spk)"
    "text_at J t ''signature'' = enc64 J (spk_signature spk)"
proof -
  let ?fs = "[(''handle'', json_u32 J (next_handle w)), (''public_key'', json64 J (spk_x25519_public spk)),
      (''signature'', json64 J (spk_signature spk))]"
  have leaves: "list_all (\<lambda>(k, x). branch J x) ?fs" by (simp add: documentI)
  obtain t where t: "js_reply J ?fs (w\<lparr>next_handle := next_handle w + 1,
      spk_keys := cell_put (next_handle w) spk (spk_keys w)\<rparr>, r') = (Ok t, (w\<lparr>next_handle := next_handle w + 1,
      spk_keys := cell_put (next_handle w) spk (spk_keys w)\<rparr>, r'))" "json_parse J t = Ok (json_object J ?fs)"
    by (rule reply_parses [OF assms(1) leaves])
  have "with_identity_keys (cell_read ''Identity'' ih (\<lambda>identity r.
      let (spk, r') = spk_generate P identity r in (Ok spk, r'))) (w, r) = (Ok spk :: SignedPreKey api_result, (w, r'))"
    using assms(2,3,5) by (simp add: with_identity_keys_def cell_read_found)
  with assms(4) t(1) have "js_generate_signed_pre_key P J ih (w, r) = (Ok t, (w\<lparr>next_handle := next_handle w + 1,
      spk_keys := cell_put (next_handle w) spk (spk_keys w)\<rparr>, r'))"
    by (simp add: js_generate_signed_pre_key_def next_id_def with_spk_keys_def cell_insert_free)
  then show thesis
    by (rule that) (simp_all add: text_at_field [OF assms(1) t(2)])
qed

lemma parse_bundle_call:
  assumes "js_laws J" "x25519_sizes P" "ed25519_keys P" "ik_wf P bob" "spk_wf P spk"
    and "json_print J (bundle_object J (enc64 J (ik_x25519_public bob)) (enc64 J (ik_verifying_key P bob))
      (enc64 J (spk_x25519_public spk)) (enc64 J (spk_signature spk))) = Ok t"
  shows "js_parse_bundle P J t = Ok (publish_bundle P bob spk None)"
proof -
  have "document J (bundle_object J a b c d)" for a b c d
    by (simp add: bundle_object_def documentI)
  from js_lawsD(4) [OF assms(1) this assms(6)]
  have parse: "json_parse J t = Ok (bundle_object J (enc64 J (ik_x25519_public bob))
      (enc64 J (ik_verifying_key P bob)) (enc64 J (spk_x25519_public spk)) (enc64 J (spk_signature spk)))" .
  have "length (ik_x25519_public bob) = 32" "length (spk_x25519_public spk) = 32"
    using assms(2,4,5) by (simp_all add: ik_wf_def spk_wf_def x25519_sizes_def)
  moreover have "length (ik_verifying_key P bob) = 32" "ed_vk_error P (ik_verifying_key P bob) = None"
    using assms(3) by (simp_all add: ed25519_keys_def ik_verifying_key_def)
  ultimately show ?thesis
    using assms(1)
    by (simp add: js_parse_bundle_def parse bundle_object_def str_field_def js_lawsD(5,6,8) arg64_enc key32_def
        publish_bundle_def)
qed

lemma initiate_call:
  assumes "js_laws J" "cell_flag (identity_keys w) = Unborrowed" "cell_entry ih (identity_keys w) = Some alice"
    and "js_parse_bundle P J bj = Ok b" "x3dh_initiate P alice b r = (Ok res, r')"
  obtains t where "js_x3dh_initiate P J ih bj (w, r) = (Ok t, (w, r'))"
    "text_at J t ''shared_secret'' = enc64 J (xr_shared_secret res)"
    "text_at J t ''ephemeral_key'' = enc64 J (xr_ephemeral_key res)"
proof -
  let ?fs = "[(''shared_secret'', json64 J (xr_shared_secret res)), (''ephemeral_key'', json64 J (xr_ephemeral_key res))]"
  have leaves: "list_all (\<lambda>(k, x). branch J x) ?fs" by (simp add: documentI)
  obtain t where t: "js_reply J ?fs (w, r') = (Ok t, (w, r'))" "json_parse J t = Ok (json_object J ?fs)"
    by (rule reply_parses [OF assms(1) leaves])
  have "js_x3dh_initiate P J ih bj (w, r) = (Ok t, (w, r'))"
    using assms(2-5) t(1) by (simp add: js_x3dh_initiate_def with_identity_keys_def cell_read_found js_err_def)
  then show thesis
    by (rule that) (simp_all add: text_at_field [OF assms(1) t(2)])
qed

lemma respond_call:
  assumes "js_laws J" "cell_flag (identity_keys w) = Unborrowed" "cell_entry ih (identity_keys w) = Some bob"
    and "cell_flag (spk_keys w) = Unborrowed" "cell_entry kh (spk_keys w) = Some spk"
    and "length ik = 32" "length ek = 32" "x3dh_respond P bob spk None ik ek = Ok res"
  obtains t where "js_x3dh_respond P J ih kh (enc64 J ik) (enc64 J ek) (w, r) = (Ok t, (w, r))"
    "text_at J t ''shared_secret'' = enc64 J (xr_shared_secret res)"
proof -
  let ?fs = "[(''shared_secret'', json64 J (xr_shared_secret res))]"
  have leaves: "list_all (\<lambda>(k, x). branch J x) ?fs" by (simp add: documentI)
  obtain t where t: "js_reply J ?fs (w, r) = (Ok t, (w, r))" "json_parse J t = Ok (json_object J ?fs)"
    by (rule reply_parses [OF assms(1) leaves])
  have "js_x3dh_respond P J ih kh (enc64 J ik) (enc64 J ek) (w, r) = (Ok t, (w, r))"
    using assms(1-8) t(1) by (simp add: js_x3dh_respond_def arg64_enc key32_def cell_read_found js_err_def)
  then show thesis
    by (rule that) (simp_all add: text_at_field [OF assms(1) t(2)])
qed

lemma alice_call:
  assumes "js_laws J" "length pub = 32" "init_alice P ss pub r = (Ok s :: (string, Session) outcome, r')"
    and "cell_flag (session_cell w) = Unborrowed"
  shows "js_create_session_alice P J (enc64 J ss) (enc64 J pub) (w, r) = (Ok (next_handle w),
    (w\<lparr>next_handle := next_handle w + 1, session_cell := cell_put (next_handle w) s (session_cell w)\<rparr>, r'))"
  using assms
  by (simp add: js_create_session_alice_def arg64_enc key32_def next_id_def with_sessions_def cell_insert_free)

lemma bob_call:
  assumes "js_laws J" "cell_flag (spk_keys w) = Unborrowed" "cell_entry kh (spk_keys w) = Some spk"
    and "cell_flag (session_cell w) = Unborrowed"
  shows "js_create_session_bob J (enc64 J ss) kh (w, r) = (Ok (next_handle w),
    (w\<lparr>next_handle := next_handle w + 1,
       session_cell := cell_put (next_handle w) (init_bob ss spk) (session_cell w)\<rparr>, r))"
  using assms
  by (simp add: js_create_session_bob_def arg64_enc with_spk_keys_def cell_read_found next_id_def
      with_sessions_def cell_insert_free)

lemma encrypt_call:
  assumes "js_laws J" "cell_flag (session_cell w) = Unborrowed" "cell_entry sh (session_cell w) = Some s"
    and "ratchet_encrypt P m (s, r) = (Ok (h, e), (s', r'))"
  obtains t th where "js_session_encrypt P J sh (enc64 J m) (w, r) =
      (Ok t, (w\<lparr>session_cell := cell_put sh s' (session_cell w)\<rparr>, r'))"
    "text_at J t ''ciphertext'' = enc64 J (ciphertext e)" "text_at J t ''nonce'' = enc64 J (nonce e)"
    "object_at J t ''header'' = Ok th" "js_parse_header J th = Ok h"
proof -
  let ?fs = "[(''header'', json_object J (header_fields J h)), (''ciphertext'', json64 J (ciphertext e)),
      (''nonce'', json64 J (nonce e))]"
  let ?s = "(w\<lparr>session_cell := cell_put sh s' (session_cell w)\<rparr>, r')"
  have leaves: "list_all (\<lambda>(k, x). branch J x) ?fs" by (simp add: header_fields_def documentI)
  obtain t where t: "js_reply J ?fs ?s = (Ok t, ?s)" "json_parse J t = Ok (json_object J ?fs)"
    by (rule reply_parses [OF assms(1) leaves])
  obtain th where th: "json_print J (json_object J (header_fields J h)) = Ok th"
    using print_total [OF assms(1)] .
  let ?f = "\<lambda>session. let (x, session') = ratchet_encrypt P m session in (js_err ''Encryption failed: '' x, session')"
  have "?f (s, r) = (Ok (h, e), (s', r'))" using assms(4) by (simp add: js_err_def)
  from cell_modify_found [where f = ?f and g = r and noun = "''Session''", OF assms(2,3) this]
  have "js_session_encrypt P J sh (enc64 J m) (w, r) = (Ok t, ?s)"
    using t(1) by (simp add: js_session_encrypt_def arg64_enc [OF assms(1)] with_sessions_def)
  moreover have "js_parse_header J th = Ok h"
    using header_fields_parse [OF assms(1) js_lawsD(4) [OF assms(1) header_fields_document th]] .
  moreover have "object_at J t ''header'' = Ok th"
    using th by (simp add: object_at_def t(2) js_lawsD(5) [OF assms(1)])
  ultimately show thesis
    by (intro that) (simp_all add: text_at_field [OF assms(1) t(2)])
qed

lemma decrypt_call:
  assumes "js_laws J" "cell_flag (session_cell w) = Unborrowed" "cell_entry sh (session_cell w) = Some s"
    and "js_parse_header J th = Ok h" "fst (ratchet_decrypt P h e (s, r)) = Ok m"
  shows "fst (js_session_decrypt P J sh th (enc64 J (ciphertext e)) (enc64 J (nonce e)) (w, r)) = Ok (enc64 J m)"
proof -
  let ?f = "\<lambda>session. let (x, session') = ratchet_decrypt P h \<lparr>nonce = nonce e, ciphertext = ciphertext e\<rparr> session in
      (js_err ''Decryption failed: '' x, session')"
  have "\<lparr>nonce = nonce e, ciphertext = ciphertext e\<rparr> = e" by simp
  then obtain s' r' where "?f (s, r) = (Ok m, (s', r'))"
    using assms(5) by (cases "ratchet_decrypt P h e (s, r)") (auto simp: js_err_def)
  from cell_modify_found [where f = ?f and g = r and noun = "''Session''", OF assms(2,3) this] show ?thesis
    by (simp add: js_session_decrypt_def assms(4) arg64_enc [OF assms(1)] with_sessions_def)
qed

section \<open>From two fresh modules to the first message\<close>

text \<open>Bob's side up to the published bundle.\<close>

lemma bob_publishes:
  assumes "ratchet_laws P" "ed25519_signs P" "ed25519_keys P" "js_laws J"
  obtains bob spk tb wb r2 tk wk r3 bj where
    "js_generate_identity_keypair P J (wasm_init, r) = (Ok tb, (wb, r2))"
    "js_generate_signed_pre_key P J 1 (wb, r2) = (Ok tk, (wk, r3))"
    "json_print J (bundle_object J (text_at J tb ''public_key'') (text_at J tb ''signing_key_public'')
      (text_at J tk ''public_key'') (text_at J tk ''signature'')) = Ok bj"
    "js_parse_bundle P J bj = Ok (publish_bundle P bob spk None)" "responder_ok P (bob, spk, None)"
    "text_at J tk ''public_key'' = enc64 J (spk_x25519_public spk)"
    "wk = wasm_init\<lparr>next_handle := 3, identity_keys := cell_put 1 bob cell_new, spk_keys := cell_put 2 spk cell_new\<rparr>"
    "spk_x25519_public spk = x_public P (map r [64..<96])" "r3 = (\<lambda>i. r (96 + i))"
proof -
  obtain bob r2 where bob: "ik_generate P r = (bob, r2)" by fastforce
  obtain spk r3 where spk: "spk_generate P bob r2 = (spk, r3)" by fastforce
  have ok: "responder_ok P (bob, spk, None)"
    using generated_responder_ok [OF assms(2) bob spk, of None] by simp
  define wb where "wb = wasm_init\<lparr>next_handle := 2, identity_keys := cell_put 1 bob cell_new\<rparr>"
  have wb: "cell_flag (identity_keys wb) = Unborrowed" "cell_entry 1 (identity_keys wb) = Some bob"
    "cell_flag (spk_keys wb) = Unborrowed" by (simp_all add: wb_def wasm_init_def)
  obtain tb where tb: "js_generate_identity_keypair P J (wasm_init, r) = (Ok tb, (wb, r2))"
    "text_at J tb ''public_key'' = enc64 J (ik_x25519_public bob)"
    "text_at J tb ''signing_key_public'' = enc64 J (ik_verifying_key P bob)"
    unfolding wb_def by (rule identity_texts [OF assms(4) bob])
  obtain tk where tk: "js_generate_signed_pre_key P J 1 (wb, r2) = (Ok tk, (wb\<lparr>next_handle := next_handle wb + 1,
      spk_keys := cell_put (next_handle wb) spk (spk_keys wb)\<rparr>, r3))"
    "text_at J tk ''public_key'' = enc64 J (spk_x25519_public spk)"
    "text_at J tk ''signature'' = enc64 J (spk_signature spk)"
    by (rule pre_key_call [OF assms(4) wb spk])
  obtain bj where bj: "json_print J (bundle_object J (text_at J tb ''public_key'')
      (text_at J tb ''signing_key_public'') (text_at J tk ''public_key'') (text_at J tk ''signature'')) = Ok bj"
    using print_total [OF assms(4)] .
  have drawn: "spk_x25519_public spk = x_public P (map r [64..<96])" "r3 = (\<lambda>i. r (96 + i))"
    using bob spk map_shift_upt [of r 64 32]
    by (auto simp: ik_generate_def spk_generate_def draw_bytes_def Let_def add.assoc [symmetric])
  show thesis
    by (rule that [OF tb(1) tk(1) bj parse_bundle_call ok tk(2) _ drawn])
      (use assms ratchet_lawsD(2) [OF assms(1)] bj ik_generate_wf [OF bob] spk_generate_wf [OF spk]
       in \<open>simp_all add: tb(2,3) tk(2,3) wb_def wasm_init_def\<close>)
qed

text \<open>The calls of both sides up to the two sessions, and what the modules hold then.\<close>

lemma modules_set_up:
  assumes "ratchet_laws P" "ed25519_signs P" "ed25519_keys P" "js_laws J"
  obtains ta a1 tb b1 tk b2 bj ti a2 tr b3 a3 b4 ss spk s where
    "js_generate_identity_keypair P J (wasm_init, rA) = (Ok ta, a1)"
    "js_generate_identity_keypair P J (wasm_init, rB) = (Ok tb, b1)"
    "js_generate_signed_pre_key P J 1 b1 = (Ok tk, b2)"
    "json_print J (bundle_object J (text_at J tb ''public_key'') (text_at J tb ''signing_key_public'')
      (text_at J tk ''public_key'') (text_at J tk ''signature'')) = Ok bj"
    "js_x3dh_initiate P J 1 bj a1 = (Ok ti, a2)"
    "js_x3dh_respond P J 1 2 (text_at J ta ''public_key'') (text_at J ti ''ephemeral_key'') b2 = (Ok tr, b3)"
    "text_at J tr ''shared_secret'' = text_at J ti ''shared_secret''"
    "js_create_session_alice P J (text_at J ti ''shared_secret'') (text_at J tk ''public_key'') a2 = (Ok 2, a3)"
    "js_create_session_bob J (text_at J tr ''shared_secret'') 2 b3 = (Ok 3, b4)"
    "spk_wf P spk" "text_at J tk ''public_key'' = enc64 J (spk_x25519_public spk)"
    "init_alice P ss (spk_x25519_public spk) (\<lambda>i. rA (96 + i)) = (Ok s :: Session api_result, snd a3)"
    "cell_flag (session_cell (fst a3)) = Unborrowed" "cell_entry 2 (session_cell (fst a3)) = Some s"
    "cell_flag (session_cell (fst b4)) = Unborrowed" "cell_entry 3 (session_cell (fst b4)) = Some (init_bob ss spk)"
    "spk_x25519_public spk = x_public P (map rB [64..<96])" "snd b4 = (\<lambda>i. rB (96 + i))"
proof -
  note l = ratchet_lawsD [OF assms(1)] and J = assms(4)
  obtain alice r1 where alice: "ik_generate P rA = (alice, r1)" by fastforce
  obtain ta where ta: "js_generate_identity_keypair P J (wasm_init, rA) =
      (Ok ta, (wasm_init\<lparr>next_handle := 2, identity_keys := cell_put 1 alice cell_new\<rparr>, r1))"
    "text_at J ta ''public_key'' = enc64 J (ik_x25519_public alice)"
    by (rule identity_texts [OF J alice])
  define wa where "wa = wasm_init\<lparr>next_handle := 2, identity_keys := cell_put 1 alice cell_new\<rparr>"
  have wa: "cell_flag (identity_keys wa) = Unborrowed" "cell_entry 1 (identity_keys wa) = Some alice"
    "cell_flag (session_cell wa) = Unborrowed" "next_handle wa = 2" by (simp_all add: wa_def wasm_init_def)
  obtain bob spk tb wb r2 tk wk r3 bj where b: "js_generate_identity_keypair P J (wasm_init, rB) = (Ok tb, (wb, r2))"
    "js_generate_signed_pre_key P J 1 (wb, r2) = (Ok tk, (wk, r3))"
    "json_print J (bundle_object J (text_at J tb ''public_key'') (text_at J tb ''signing_key_public'')
      (text_at J tk ''public_key'') (text_at J tk ''signature'')) = Ok bj"
    "js_parse_bundle P J bj = Ok (publish_bundle P bob spk None)" "responder_ok P (bob, spk, None)"
    "text_at J tk ''public_key'' = enc64 J (spk_x25519_public spk)"
    "wk = wasm_init\<lparr>next_handle := 3, identity_keys := cell_put 1 bob cell_new, spk_keys := cell_put 2 spk cell_new\<rparr>"
    and drawn: "spk_x25519_public spk = x_public P (map rB [64..<96])" "r3 = (\<lambda>i. rB (96 + i))"
    by (rule bob_publishes [OF assms(1-4)])
  have wk: "cell_flag (identity_keys wk) = Unborrowed" "cell_entry 1 (identity_keys wk) = Some bob"
    "cell_flag (spk_keys wk) = Unborrowed" "cell_entry 2 (spk_keys wk) = Some spk"
    "cell_flag (session_cell wk) = Unborrowed" "next_handle wk = 3" by (simp_all add: b(7) wasm_init_def)
  have wf: "ik_wf P alice" "spk_wf P spk" using ik_generate_wf [OF alice] b(5) by (simp_all add: responder_ok_def)
  have r1: "r1 = (\<lambda>i. rA (64 + i))"
    using alice by (auto simp: ik_generate_def draw_bytes_def Let_def add.assoc [symmetric])
  obtain x where x: "x3dh_initiate P alice (publish_bundle P bob spk None) r1 = (Ok x, \<lambda>i. r1 (32 + i))"
    "x3dh_respond P bob spk None (ik_x25519_public alice) (xr_ephemeral_key x) = Ok x"
    "xr_ephemeral_key x = x_public P (map r1 [0..<32])"
    using x3dh_secret [OF l(1,3) wf(1) b(5)] by blast
  have len: "length (ik_x25519_public alice) = 32" "length (xr_ephemeral_key x) = 32" "length (spk_x25519_public spk) = 32"
    using wf l(2) x(3) by (simp_all add: ik_wf_def spk_wf_def x25519_sizes_def)
  obtain ti where ti: "js_x3dh_initiate P J 1 bj (wa, r1) = (Ok ti, (wa, \<lambda>i. r1 (32 + i)))"
    "text_at J ti ''shared_secret'' = enc64 J (xr_shared_secret x)"
    "text_at J ti ''ephemeral_key'' = enc64 J (xr_ephemeral_key x)"
    by (rule initiate_call [OF J wa(1,2) b(4) x(1)])
  obtain tr where tr: "js_x3dh_respond P J 1 2 (enc64 J (ik_x25519_public alice)) (enc64 J (xr_ephemeral_key x)) (wk, r3) =
      (Ok tr, (wk, r3))" "text_at J tr ''shared_secret'' = enc64 J (xr_shared_secret x)"
    by (rule respond_call [OF J wk(1-4) len(1,2) x(2)])
  obtain a g where a: "init_alice P (xr_shared_secret x) (spk_x25519_public spk) (\<lambda>i. r1 (32 + i)) =
      (Ok a :: (string, Session) outcome, g)"
    using init_alice_total [OF l(3), of "xr_shared_secret x" "spk_x25519_public spk" "\<lambda>i. r1 (32 + i)"]
    by (auto simp: Let_def split: prod.splits)
  note sa = alice_call [OF J len(3) a wa(3), unfolded wa(4)]
  note sb = bob_call [OF J wk(3-5), unfolded wk(6), of "xr_shared_secret x" r3]
  define wa3 where "wa3 = wa\<lparr>next_handle := 2 + 1, session_cell := cell_put 2 a (session_cell wa)\<rparr>"
  define wk3 where "wk3 = wk\<lparr>next_handle := 3 + 1,
      session_cell := cell_put 3 (init_bob (xr_shared_secret x) spk) (session_cell wk)\<rparr>"
  have live: "cell_flag (session_cell wa3) = Unborrowed" "cell_entry 2 (session_cell wa3) = Some a"
    "cell_flag (session_cell wk3) = Unborrowed"
    "cell_entry 3 (session_cell wk3) = Some (init_bob (xr_shared_secret x) spk)"
    by (simp_all add: wa3_def wk3_def wa wk)
  have "init_alice P (xr_shared_secret x) (spk_x25519_public spk) (\<lambda>i. rA (96 + i)) =
      (Ok a :: Session api_result, snd (wa3, g))"
    using a by (simp add: r1 add.assoc [symmetric])
  from that [OF ta(1) [folded wa_def] b(1-3) ti(1) _ _ _ _ wf(2) b(6) this, of tr "(wk, r3)" "(wk3, r3)"]
  show thesis
    using tr sa [folded wa3_def] sb [folded wk3_def] live drawn by (simp add: ta(2) ti(2,3) b(6))
qed

text \<open>Two sessions in place: the first message arrives.\<close>

lemma first_message_texts:
  assumes "ratchet_laws P" "js_laws J" "spk_wf P spk" "length m \<le> aes_limit"
    and "init_alice P ss (spk_x25519_public spk) r = (Ok a :: (string, Session) outcome, g)"
    and "cell_flag (session_cell wa) = Unborrowed" "cell_entry ha (session_cell wa) = Some a"
    and "cell_flag (session_cell wb) = Unborrowed" "cell_entry hb (session_cell wb) = Some (init_bob ss spk)"
  obtains te s th where "js_session_encrypt P J ha (enc64 J m) (wa, g) = (Ok te, s)"
    "object_at J te ''header'' = Ok th"
    "fst (js_session_decrypt P J hb th (text_at J te ''ciphertext'') (text_at J te ''nonce'') (wb, g')) = Ok (enc64 J m)"
proof -
  note l = ratchet_lawsD [OF assms(1)]
  have "length (spk_x25519_public spk) = 32" using assms(3) l(2) by (simp add: spk_wf_def x25519_sizes_def)
  with l(3,2) have wf: "session_wf a" using assms(5) by (rule init_alice_wf)
  obtain c where c: "sending_chain a = Some c"
    using assms(5) by (auto simp: init_alice_total [OF l(3)] Let_def split: prod.splits)
  obtain h e where enc: "ratchet_encrypt P m (a, g) =
      (Ok (h, e), (a\<lparr>sending_chain := Some (popped P c)\<rparr>, \<lambda>i. g (12 + i)))"
    using assms(1) wf c assms(4) by (rule ratchet_encrypt_total)
  note dec = first_message_opens [OF assms(1,3,5) enc]
  obtain te th where te: "js_session_encrypt P J ha (enc64 J m) (wa, g) =
      (Ok te, (wa\<lparr>session_cell := cell_put ha (a\<lparr>sending_chain := Some (popped P c)\<rparr>) (session_cell wa)\<rparr>,
        \<lambda>i. g (12 + i)))"
    "text_at J te ''ciphertext'' = enc64 J (ciphertext e)" "text_at J te ''nonce'' = enc64 J (nonce e)"
    "object_at J te ''header'' = Ok th" "js_parse_header J th = Ok h"
    by (rule encrypt_call [OF assms(2,6,7) enc])
  show thesis
  proof (rule that)
    show "fst (js_session_decrypt P J hb th (text_at J te ''ciphertext'') (text_at J te ''nonce'') (wb, g')) =
        Ok (enc64 J m)"
      unfolding te(2,3) by (rule decrypt_call [OF assms(2,8,9) te(5) dec])
  qed (rule te)+
qed

text \<open>
  C11. The whole way through the WebAssembly interface works, over nothing but the texts the
  calls return: in two freshly loaded modules both sides generate their keys, the bundle is the
  JSON object of Bob's texts, both X3DH calls return the same secret, both sessions are created
  from it, and the header, ciphertext and nonce of Alice's first message, of any length AES-GCM
  allows, decrypt at Bob to the base64 text of her plaintext.
\<close>
theorem first_message_over_wasm:
  assumes "ratchet_laws P" and "ed25519_signs P" and "ed25519_keys P" and "js_laws J"
    and "length m \<le> aes_limit"
  shows "\<exists>ta a1 tb b1 tk b2 bj ti a2 tr b3 a3 b4 te a4 th.
    js_generate_identity_keypair P J (wasm_init, rA) = (Ok ta, a1) \<and>
    js_generate_identity_keypair P J (wasm_init, rB) = (Ok tb, b1) \<and>
    js_generate_signed_pre_key P J 1 b1 = (Ok tk, b2) \<and>
    json_print J (bundle_object J (text_at J tb ''public_key'') (text_at J tb ''signing_key_public'')
      (text_at J tk ''public_key'') (text_at J tk ''signature'')) = Ok bj \<and>
    js_x3dh_initiate P J 1 bj a1 = (Ok ti, a2) \<and>
    js_x3dh_respond P J 1 2 (text_at J ta ''public_key'') (text_at J ti ''ephemeral_key'') b2 = (Ok tr, b3) \<and>
    text_at J tr ''shared_secret'' = text_at J ti ''shared_secret'' \<and>
    js_create_session_alice P J (text_at J ti ''shared_secret'') (text_at J tk ''public_key'') a2 = (Ok 2, a3) \<and>
    js_create_session_bob J (text_at J tr ''shared_secret'') 2 b3 = (Ok 3, b4) \<and>
    js_session_encrypt P J 2 (enc64 J m) a3 = (Ok te, a4) \<and> object_at J te ''header'' = Ok th \<and>
    fst (js_session_decrypt P J 3 th (text_at J te ''ciphertext'') (text_at J te ''nonce'') b4) = Ok (enc64 J m)"
proof -
  obtain ta a1 tb b1 tk b2 bj ti a2 tr b3 a3 b4 ss spk s where
    calls: "js_generate_identity_keypair P J (wasm_init, rA) = (Ok ta, a1)"
      "js_generate_identity_keypair P J (wasm_init, rB) = (Ok tb, b1)"
      "js_generate_signed_pre_key P J 1 b1 = (Ok tk, b2)"
      "json_print J (bundle_object J (text_at J tb ''public_key'') (text_at J tb ''signing_key_public'')
        (text_at J tk ''public_key'') (text_at J tk ''signature'')) = Ok bj"
      "js_x3dh_initiate P J 1 bj a1 = (Ok ti, a2)"
      "js_x3dh_respond P J 1 2 (text_at J ta ''public_key'') (text_at J ti ''ephemeral_key'') b2 = (Ok tr, b3)"
      "text_at J tr ''shared_secret'' = text_at J ti ''shared_secret''"
      "js_create_session_alice P J (text_at J ti ''shared_secret'') (text_at J tk ''public_key'') a2 = (Ok 2, a3)"
      "js_create_session_bob J (text_at J tr ''shared_secret'') 2 b3 = (Ok 3, b4)"
    and spk: "spk_wf P spk"
    and a: "init_alice P ss (spk_x25519_public spk) (\<lambda>i. rA (96 + i)) = (Ok s :: Session api_result, snd a3)"
    and live: "cell_flag (session_cell (fst a3)) = Unborrowed" "cell_entry 2 (session_cell (fst a3)) = Some s"
      "cell_flag (session_cell (fst b4)) = Unborrowed" "cell_entry 3 (session_cell (fst b4)) = Some (init_bob ss spk)"
    by (rule modules_set_up [OF assms(1-4), of rA rB]) (rule that)
  obtain te a4 th where e: "js_session_encrypt P J 2 (enc64 J m) (fst a3, snd a3) = (Ok te, a4)"
    "object_at J te ''header'' = Ok th"
    "fst (js_session_decrypt P J 3 th (text_at J te ''ciphertext'') (text_at J te ''nonce'') (fst b4, snd b4)) = Ok (enc64 J m)"
    by (rule first_message_texts [OF assms(1,4) spk assms(5) a live])
  show ?thesis using calls e unfolding prod.collapse by blast
qed

lemma first_message_over_wasm_witness:
  "\<exists>te b4 th. object_at demo_js te ''header'' = Ok th \<and>
    fst (js_session_decrypt demo_provider demo_js 3 th (text_at demo_js te ''ciphertext'')
      (text_at demo_js te ''nonce'') b4) = Ok (enc64 demo_js [7])"
proof -
  have "length [7 :: u8] \<le> aes_limit" by (simp add: aes_limit_def)
  from first_message_over_wasm [OF demo_ratchet_laws demo_ed25519_laws demo_js_laws this, of demo_rng demo_rng]
  show ?thesis by blast
qed

end
