(* ===== verification/Wasm_Channel.thy ===== *)
theory Wasm_Channel
  imports Endpoint Wasm_Flow
begin

text \<open>
  The WebAssembly module as the interface of two devices that talk: what a sealing call returns is
  a JSON text, which the application sends as it is; the other side takes the header, the
  ciphertext and the nonce out of it and hands them, as texts, to its own module.
\<close>

section \<open>The interface\<close>

text \<open>The application's bytes go in as base64, and come out as base64.\<close>

definition bytes_of :: "'j js_lib \<Rightarrow> string api_result \<Rightarrow> bytes api_result" where
  "bytes_of J x = and_then x (dec64 J)"

definition text_open ::
  "provider \<Rightarrow> 'j js_lib \<Rightarrow> u32 \<Rightarrow> string \<Rightarrow> wasm_state \<Rightarrow> bytes api_result \<times> wasm_state"
where
  "text_open P J h w s = apfst (bytes_of J) (and_then_st (object_at J w ''header'', s) (\<lambda>th.
     js_session_decrypt P J h th (text_at J w ''ciphertext'') (text_at J w ''nonce'')))"

definition text_content :: "'j js_lib \<Rightarrow> string \<Rightarrow> (MessageHeader \<times> encrypted) option" where
  "text_content J w = (case and_then (object_at J w ''header'') (js_parse_header J) of
     Ok h \<Rightarrow> (case (dec64 J (text_at J w ''nonce''), dec64 J (text_at J w ''ciphertext'')) of
       (Ok n, Ok c) \<Rightarrow> Some (h, \<lparr>nonce = n, ciphertext = c\<rparr>) | _ \<Rightarrow> None)
   | _ \<Rightarrow> None)"

text \<open>The session a call works on, where it works on one.\<close>

fun session_handle :: "wasm_op \<Rightarrow> u32 option" where
  "session_handle (SessionEncrypt h m) = Some h"
| "session_handle (SessionDecrypt h hdr c n) = Some h"
| "session_handle _ = None"

abbreviation sessions_free :: "wasm_state \<Rightarrow> bool" where
  "sessions_free s \<equiv> cell_flag (session_cell (fst s)) = Unborrowed"

definition wasm_endpoint ::
  "provider \<Rightarrow> ('g, 'k, 'c, 'i, 'o) openmls \<Rightarrow> 'j js_lib \<Rightarrow> (wasm_state, string) endpoint"
where
  "wasm_endpoint P L J = \<lparr>
     ep_seal = (\<lambda>h m. js_session_encrypt P J h (enc64 J m)),
     ep_open = text_open P J,
     ep_other = (\<lambda>h d d'. \<exists>op reply. wasm_call P L J op d = (reply, d') \<and> session_handle op \<noteq> Some h \<and>
        next_handle (fst d) \<noteq> h \<and> sessions_free d'),
     ep_error = (\<lambda>e. ''Decryption failed: '' @ error_display e),
     ep_session = (\<lambda>h d. cell_entry h (session_cell (fst d))),
     ep_rand = snd,
     ep_content = text_content J,
     ep_ready = (\<lambda>d. sessions_free d \<and> js_laws J)\<rparr>"

lemma wasm_endpoint_simps [simp]:
  "ep_seal (wasm_endpoint P L J) h m = js_session_encrypt P J h (enc64 J m)"
  "ep_open (wasm_endpoint P L J) = text_open P J"
  "ep_other (wasm_endpoint P L J) h d d' \<longleftrightarrow> (\<exists>op reply. wasm_call P L J op d = (reply, d') \<and>
     session_handle op \<noteq> Some h \<and> next_handle (fst d) \<noteq> h \<and> sessions_free d')"
  "ep_error (wasm_endpoint P L J) e = ''Decryption failed: '' @ error_display e"
  "ep_session (wasm_endpoint P L J) h d = cell_entry h (session_cell (fst d))"
  "ep_rand (wasm_endpoint P L J) = snd"
  "ep_content (wasm_endpoint P L J) = text_content J"
  "ep_ready (wasm_endpoint P L J) d \<longleftrightarrow> sessions_free d \<and> js_laws J"
  by (simp_all add: wasm_endpoint_def)

section \<open>A call on the session is the call on the session behind the handle\<close>

lemma text_contentI:
  assumes "js_laws J" "object_at J w ''header'' = Ok th" "js_parse_header J th = Ok h"
    and "text_at J w ''ciphertext'' = enc64 J (ciphertext e)" "text_at J w ''nonce'' = enc64 J (nonce e)"
  shows "text_content J w = Some (h, e)"
  using assms by (simp add: text_content_def js_lawsD(1))

lemma text_contentD:
  assumes "text_content J w = Some (h, e)"
  obtains th where "object_at J w ''header'' = Ok th" "js_parse_header J th = Ok h"
    "arg64 J ''ciphertext'' (text_at J w ''ciphertext'') = Ok (ciphertext e)"
    "arg64 J ''nonce'' (text_at J w ''nonce'') = Ok (nonce e)"
  using assms unfolding text_content_def
  by (cases "object_at J w ''header''") (auto simp: arg64_def split: outcome.splits prod.splits)

lemma text_seals:
  assumes "js_laws J" "sessions_free d" "cell_entry h (session_cell (fst d)) = Some s"
    and run: "ratchet_encrypt P m (s, snd d) = (y, (s', r'))" "y \<noteq> Panic"
    and call: "js_session_encrypt P J h (enc64 J m) d = (x, d')"
  shows "sessions_free d'" "cell_entry h (session_cell (fst d')) = Some s'"
    and "case y of Ok he \<Rightarrow> \<exists>w. x = Ok w \<and> text_content J w = Some he | _ \<Rightarrow> \<exists>t. x = Err t"
proof -
  obtain w r where d: "d = (w, r)" by (cases d)
  let ?f = "\<lambda>session. let (x, session') = ratchet_encrypt P m session in (js_err ''Encryption failed: '' x, session')"
  have "sessions_free d' \<and> cell_entry h (session_cell (fst d')) = Some s' \<and>
    (case y of Ok he \<Rightarrow> \<exists>w. x = Ok w \<and> text_content J w = Some he | _ \<Rightarrow> \<exists>t. x = Err t)"
  proof (cases y)
    case (Ok he)
    obtain hdr e where he: "he = (hdr, e)" by (cases he)
    have free: "cell_flag (session_cell w) = Unborrowed" "cell_entry h (session_cell w) = Some s"
      "ratchet_encrypt P m (s, r) = (Ok (hdr, e), (s', r'))"
      using assms(2,3) run(1) d Ok he by simp_all
    obtain t th where t: "js_session_encrypt P J h (enc64 J m) (w, r) =
        (Ok t, (w\<lparr>session_cell := cell_put h s' (session_cell w)\<rparr>, r'))"
      "text_at J t ''ciphertext'' = enc64 J (ciphertext e)" "text_at J t ''nonce'' = enc64 J (nonce e)"
      "object_at J t ''header'' = Ok th" "js_parse_header J th = Ok hdr"
      by (rule encrypt_call [OF assms(1) free])
    with text_contentI [OF assms(1) t(4,5,2,3)] call d Ok he free(1) show ?thesis by auto
  next
    case (Err e)
    with run(1) d have "?f (s, r) = (Err (''Encryption failed: '' @ error_display e), (s', r'))"
      by (simp add: js_err_def)
    from cell_modify_found [where f = ?f and g = r and noun = "''Session''", OF _ _ this, of "session_cell w" h]
    have "js_session_encrypt P J h (enc64 J m) (w, r) =
        (Err (''Encryption failed: '' @ error_display e), (w\<lparr>session_cell := cell_put h s' (session_cell w)\<rparr>, r'))"
      using assms(2,3) d by (simp add: js_session_encrypt_def arg64_enc [OF assms(1)] with_sessions_def)
    with call d Err assms(2) show ?thesis by auto
  qed (use run(2) in simp)
  then show "sessions_free d'" "cell_entry h (session_cell (fst d')) = Some s'"
    "case y of Ok he \<Rightarrow> \<exists>w. x = Ok w \<and> text_content J w = Some he | _ \<Rightarrow> \<exists>t. x = Err t" by simp_all
qed

lemma text_opens:
  assumes "js_laws J" "sessions_free d" "cell_entry h (session_cell (fst d)) = Some s"
    and "text_content J w = Some (hdr, e)" "ratchet_decrypt P hdr e (s, snd d) = (z, (s', r'))"
    and "text_open P J h w d = (t, d')"
  shows "cell_entry h (session_cell (fst d')) = Some s'" "z \<noteq> Panic \<Longrightarrow> sessions_free d'"
    and "t = map_err (\<lambda>e. ''Decryption failed: '' @ error_display e) z"
proof -
  obtain m r where d: "d = (m, r)" by (cases d)
  obtain th where th: "object_at J w ''header'' = Ok th" "js_parse_header J th = Ok hdr"
    "arg64 J ''ciphertext'' (text_at J w ''ciphertext'') = Ok (ciphertext e)"
    "arg64 J ''nonce'' (text_at J w ''nonce'') = Ok (nonce e)"
    by (rule text_contentD [OF assms(4)])
  let ?f = "\<lambda>session. let (x, session') = ratchet_decrypt P hdr \<lparr>nonce = nonce e, ciphertext = ciphertext e\<rparr> session in
      (js_err ''Decryption failed: '' x, session')"
  have same: "\<lparr>nonce = nonce e, ciphertext = ciphertext e\<rparr> = e" by simp
  have "?f (s, r) = (js_err ''Decryption failed: '' z, (s', r'))"
    unfolding same using assms(5) d by simp
  from cell_modify_found [where f = ?f and g = r and noun = "''Session''", OF _ _ this, of "session_cell m" h]
  have run: "text_open P J h w d = (map_err (\<lambda>e. ''Decryption failed: '' @ error_display e) z,
      (m\<lparr>session_cell := (case z of Panic \<Rightarrow> (cell_put h s' (session_cell m))\<lparr>cell_flag := Exclusive\<rparr>
         | _ \<Rightarrow> cell_put h s' (session_cell m))\<rparr>, r'))"
    using assms(2,3) d th js_lawsD(1) [OF assms(1)]
    by (cases z) (simp_all add: text_open_def js_session_decrypt_def with_sessions_def js_err_def bytes_of_def)
  show "cell_entry h (session_cell (fst d')) = Some s'"
    using run assms(6) by (cases z) auto
  show "sessions_free d'" if "z \<noteq> Panic"
    using run assms(2,6) that d by (cases z) auto
  show "t = map_err (\<lambda>e. ''Decryption failed: '' @ error_display e) z"
    using run assms(6) by simp
qed

section \<open>Other calls leave the session alone\<close>

lemma insert_leaves:
  "with_sessions (cell_insert k v) s = (x, s') \<Longrightarrow> k \<noteq> h \<Longrightarrow>
     cell_entry h (session_cell (fst s')) = cell_entry h (session_cell (fst s))"
  by (cases s) (auto simp: with_sessions_def cell_insert_def cell_borrow_mut_def cell_entry_def split: if_splits)

lemma modify_leaves:
  "with_sessions (cell_modify noun k f) s = (x, s') \<Longrightarrow> k \<noteq> h \<Longrightarrow>
     cell_entry h (session_cell (fst s')) = cell_entry h (session_cell (fst s))"
  by (cases s) (auto simp: with_sessions_def cell_modify_def cell_borrow_mut_def cell_entry_def
      split: if_splits option.splits prod.splits)

lemma then_keeps:
  assumes "and_then_st p g = (x, s')" "\<And>y t. p = (y, t) \<Longrightarrow> F t = F s" "\<And>a t. p = (Ok a, t) \<Longrightarrow> g a t = (x, s') \<Longrightarrow> F s' = F t"
  shows "F s' = F s"
proof -
  obtain y t where "p = (y, t)" by (cases p)
  with assms show ?thesis by (cases y) auto
qed

lemma create_leaves:
  assumes "next_handle (fst s) \<noteq> h"
  shows "js_create_session_alice P J ss b s = (x, s') \<Longrightarrow>
      cell_entry h (session_cell (fst s')) = cell_entry h (session_cell (fst s))"
    and "js_create_session_bob J ss k s = (x, s') \<Longrightarrow>
      cell_entry h (session_cell (fst s')) = cell_entry h (session_cell (fst s))"
proof -
  let ?F = "\<lambda>s. cell_entry h (session_cell (fst s))"
  let ?store = "\<lambda>session (w, r). let (i, w) = next_id w in
     and_then_st (with_sessions (cell_insert i session) (w, r)) (\<lambda>_ s. (Ok i, s))"
  have store: "?F t' = ?F t" if "?store v t = (x, t')" "next_handle (fst t) \<noteq> h" for v t x t'
  proof -
    obtain w r where t: "t = (w, r)" by (cases t)
    let ?t = "(w\<lparr>next_handle := next_handle w + 1\<rparr>, r)"
    from that t have "and_then_st (with_sessions (cell_insert (next_handle w) v) ?t)
        (\<lambda>_ s. (Ok (next_handle w), s)) = (x, t')" "next_handle w \<noteq> h" by (simp_all add: next_id_def)
    then have "?F t' = ?F ?t"
      by (elim then_keeps) (auto dest: insert_leaves)
    then show ?thesis by (simp add: t)
  qed
  show "?F s' = ?F s" if run: "js_create_session_alice P J ss b s = (x, s')"
  proof -
    obtain w r where s: "s = (w, r)" by (cases s)
    have key: "?F s' = ?F s" if "(case s of (w, r) \<Rightarrow> let (session, r) = init_alice P secret key r in
        and_then_st (session, (w, r)) ?store) = (x, s')" for secret key
    proof -
      obtain y g where "init_alice P secret key r = (y :: (string, Session) outcome, g)" by (meson surj_pair)
      with that s store [of _ "(w, g)" x s'] assms show ?thesis by (cases y) auto
    qed
    show ?thesis
      using run unfolding js_create_session_alice_def
      by (elim then_keeps) (auto intro: key)
  qed
  show "?F s' = ?F s" if run: "js_create_session_bob J ss k s = (x, s')"
  proof (cases "arg64 J ''shared_secret'' ss")
    case (Ok secret)
    obtain y t where read: "with_spk_keys (cell_read ''SPK'' k (\<lambda>spk r. (Ok (init_bob secret spk), r))) s = (y, t)"
      by (meson surj_pair)
    then have "?F t = ?F s" "next_handle (fst t) = next_handle (fst s)"
      by (auto simp: with_spk_keys_def split: prod.splits)
    with run Ok read assms store [of _ t x s'] show ?thesis
      by (cases y) (simp_all add: js_create_session_bob_def)
  qed (use run in \<open>simp_all add: js_create_session_bob_def\<close>)
qed

lemma call_leaves:
  assumes "wasm_call P L J op s = (reply, s')" "session_handle op \<noteq> Some h" "next_handle (fst s) \<noteq> h"
  shows "cell_entry h (session_cell (fst s')) = cell_entry h (session_cell (fst s))"
proof (cases "on_sessions op")
  case False
  with other_calls_same [OF assms(1)] show ?thesis by (simp add: same_sessions_def)
next
  case True
  have apf: "\<exists>x. f s = (x, s')" if "apfst k (f s) = (reply, s')" for k :: "'x \<Rightarrow> wasm_reply" and f
    using that by (cases "f s") auto
  show ?thesis
  proof (cases op)
    case (SessionEncrypt k m)
    with assms obtain x where "js_session_encrypt P J k m s = (x, s')" "k \<noteq> h" by (auto dest!: apf)
    then show ?thesis
      unfolding js_session_encrypt_def
      by (elim then_keeps) (auto simp: js_reply_def dest: modify_leaves)
  next
    case (SessionDecrypt k hdr c n)
    with assms obtain x where "js_session_decrypt P J k hdr c n s = (x, s')" "k \<noteq> h" by (auto dest!: apf)
    then show ?thesis
      unfolding js_session_decrypt_def
      by (elim then_keeps) (auto dest: modify_leaves)
  qed (use True assms in \<open>auto dest!: apf intro: create_leaves\<close>)
qed

interpretation texts: session_endpoint P "wasm_endpoint P L J" for P L J
proof (unfold_locales, goal_cases)
  case (1 d h s m y s' r' x d')
  with text_seals(1,2) [of J d h s P m y s' r' x d'] show ?case by simp
next
  case (2 d h s m y s' r' x d')
  with text_seals(3) [of J d h s P m y s' r' x d'] show ?case by (cases y) simp_all
next
  case (3 d h s w hdr e z s' r' t d')
  with text_opens(1,2) [of J d h s w hdr e P z s' r' t d'] show ?case by simp
next
  case (4 d h s w hdr e z s' r' t d')
  with text_opens(3) [of J d h s w hdr e P z s' r' t d'] show ?case by (cases z) simp_all
next
  case (5 d h s d')
  then obtain op reply where "wasm_call P L J op d = (reply, d')" "session_handle op \<noteq> Some h" "next_handle (fst d) \<noteq> h"
    by auto
  with 5 call_leaves [of P L J op d reply d' h] show ?case by auto
qed

section \<open>The property\<close>

text \<open>
  C7. The channel holds through the texts of the WebAssembly module: each side hands its plaintext
  to \<open>session_encrypt\<close> as base64, sends the JSON text it gets, and the other side takes the
  header, the ciphertext and the nonce out of that text and hands them to \<open>session_decrypt\<close>, over
  a network that reorders and loses the texts and with any other calls into either module in
  between. The base64 that comes out is a plaintext that was sent to that side and not yet
  delivered, or the answer is the one text that says too many messages were skipped: never a
  complaint about base64, JSON, a field, a handle, and never an abort, of \<open>session_encrypt\<close> either.
  It takes that no other call aborts the module while the sessions are borrowed, that the handle
  counter has not come back to the handle, that ratchet keys are new, and that no chain is used
  past its \<open>2 ^ 32 - 1\<close> messages, where the index wraps.
\<close>
theorem texts_refine_channel:
  assumes "ratchet_laws P" and "spk_wf P spk" and "link_start P (wasm_endpoint P L J) ss spk K0"
    and "link_runs (wasm_endpoint P L J) K0 evs K"
  shows "chan_runs (\<lambda>_. {#}) (List.map_filter (seen (wasm_endpoint P L J)) evs) (under_way K)"
  using assms by (rule texts.refines_channel)

lemma demo_texts:
  "\<exists>K0. link_start demo_provider (wasm_endpoint demo_provider demo_mls demo_js) (replicate 32 1) demo_spk K0 \<and>
     way_open demo_provider (wasm_endpoint demo_provider demo_mls demo_js) K0 Alice [104, 105] \<and>
     (\<exists>K. link_runs (wasm_endpoint demo_provider demo_mls demo_js) K0
       [CSealed Alice [104, 105], COpened Bob (Ok [104, 105])] K)"
  by (rule texts.first_message_on_link [OF demo_ratchet_laws demo_spk_wf _ demo_fresh,
        where dev = "\<lambda>N a. (wasm_init\<lparr>session_cell := cell_put 1 (sess N a) cell_new\<rparr>, \<lambda>i. demo_rng (44 + i))"
          and hdl = "\<lambda>_. 1"])
    (simp_all add: aes_limit_def demo_js_laws)

lemma texts_refine_channel_witness:
  "\<exists>K0 K. link_start demo_provider (wasm_endpoint demo_provider demo_mls demo_js) (replicate 32 1) demo_spk K0 \<and>
     link_runs (wasm_endpoint demo_provider demo_mls demo_js) K0
       [CSealed Alice [104, 105], COpened Bob (Ok [104, 105])] K \<and>
     chan_runs (\<lambda>_. {#}) (List.map_filter (seen (wasm_endpoint demo_provider demo_mls demo_js))
       [CSealed Alice [104, 105], COpened Bob (Ok [104, 105])]) (under_way K)"
proof -
  obtain K0 K where run:
    "link_start demo_provider (wasm_endpoint demo_provider demo_mls demo_js) (replicate 32 1) demo_spk K0"
    "link_runs (wasm_endpoint demo_provider demo_mls demo_js) K0
       [CSealed Alice [104, 105], COpened Bob (Ok [104, 105])] K"
    using demo_texts by blast
  from texts_refine_channel [OF demo_ratchet_laws demo_spk_wf this] run show ?thesis by blast
qed

text \<open>
  C9. Neither does the JavaScript interface get stuck: in every state two conversing modules can
  reach, a module whose session has a sending chain gets a text back from \<open>session_encrypt\<close> that
  the other module's \<open>session_decrypt\<close>, given it at once, opens to exactly the plaintext, under
  the conditions of the native calls.
\<close>
theorem texts_get_through:
  assumes "ratchet_laws P" and "spk_wf P spk" and "link_start P (wasm_endpoint P L J) ss spk K0"
    and "link_runs (wasm_endpoint P L J) K0 evs K" and "way_open P (wasm_endpoint P L J) K a m"
  shows "\<exists>K'. link_runs (wasm_endpoint P L J) K0 (evs @ [CSealed a m, COpened (peer a) (Ok m)]) K'"
  using assms(1,4) link_start_inv(1) [OF assms(1-3)] assms(5) by (rule texts.gets_through)

lemma texts_get_through_witness:
  "\<exists>K0 K. link_start demo_provider (wasm_endpoint demo_provider demo_mls demo_js) (replicate 32 1) demo_spk K0 \<and>
     link_runs (wasm_endpoint demo_provider demo_mls demo_js) K0
       [CSealed Alice [104, 105], COpened Bob (Ok [104, 105])] K"
proof -
  obtain K0 where start: "link_start demo_provider (wasm_endpoint demo_provider demo_mls demo_js) (replicate 32 1) demo_spk K0"
    and way: "way_open demo_provider (wasm_endpoint demo_provider demo_mls demo_js) K0 Alice [104, 105]"
    using demo_texts by blast
  from texts_get_through [OF demo_ratchet_laws demo_spk_wf start link_runs.start way] start show ?thesis by auto
qed

end
