(* ===== verification/Wasm_Setup.thy ===== *)
theory Wasm_Setup
  imports Wasm_Channel
begin

text \<open>
  Setting up a conversation between two freshly loaded modules of \<open>src/wasm.rs\<close>, over the texts the
  calls return: the two modules are then the start of the channel of \<open>Wasm_Channel\<close>.
\<close>

section \<open>The modules after the sessions are created\<close>

definition module_link :: "wasm_state \<Rightarrow> u32 \<Rightarrow> wasm_state \<Rightarrow> u32 \<Rightarrow> bytes \<Rightarrow> (wasm_state, string) link" where
  "module_link a ha b hb pre_key = \<lparr>
     link_dev = (\<lambda>p. case p of Alice \<Rightarrow> a | Bob \<Rightarrow> b),
     link_handle = (\<lambda>p. case p of Alice \<Rightarrow> ha | Bob \<Rightarrow> hb),
     link_post = (\<lambda>_. []),
     link_used = {dh_public (the (cell_entry ha (session_cell (fst a)))), pre_key}\<rparr>"

lemma module_link_starts:
  assumes "ratchet_laws P" "js_laws J"
    and "init_alice P ss (spk_x25519_public spk) r = (Ok s :: Session api_result, g)"
    and "cell_flag (session_cell (fst a)) = Unborrowed" "cell_entry ha (session_cell (fst a)) = Some s"
    and "cell_flag (session_cell (fst b)) = Unborrowed"
    and "cell_entry hb (session_cell (fst b)) = Some (init_bob ss spk)"
  shows "link_start P (wasm_endpoint P L J) ss spk (module_link a ha b hb (spk_x25519_public spk))"
    and "link_used (module_link a ha b hb (spk_x25519_public spk)) =
      {x_public P (map r [0..<32]), spk_x25519_public spk}"
proof -
  note l = ratchet_lawsD [OF assms(1)]
  have s: "init_alice P ss (spk_x25519_public spk) r = (Ok s :: Session result, g)"
    "dh_public s = x_public P (map r [0..<32])"
    using assms(3) by (auto simp: init_alice_total [OF l(3)] Let_def split: prod.splits)
  have N: "net_init P ss ss spk r = Ok \<lparr>sess = (\<lambda>p. case p of Alice \<Rightarrow> s | Bob \<Rightarrow> init_bob ss spk),
      inbox = (\<lambda>_. []), entropy = g, used = {dh_public s, spk_x25519_public spk}\<rparr>"
    using s(1) by (simp add: net_init_def)
  show "link_start P (wasm_endpoint P L J) ss spk (module_link a ha b hb (spk_x25519_public spk))"
    unfolding link_start_def
    by (intro exI conjI, rule N) (use assms(2-7) in \<open>auto simp: module_link_def split: party.split\<close>)
  show "link_used (module_link a ha b hb (spk_x25519_public spk)) =
      {x_public P (map r [0..<32]), spk_x25519_public spk}"
    using assms(5) s(2) by (simp add: module_link_def)
qed

section \<open>The property\<close>

text \<open>
  C2. The module as a whole is an end-to-end channel over texts: in two freshly loaded modules both
  sides generate their keys, Bob's bundle is the JSON object of his texts, the X3DH calls and the
  calls that create the sessions are given each other's texts, and then the two applications
  exchange the JSON replies of \<open>session_encrypt\<close> over a network that reorders and loses them, among
  other calls. The two shared secrets are the same text, and what the applications see is a run of
  the abstract channel: the base64 that comes out is a plaintext that went in and was not yet
  delivered, or the answer is that too many messages were skipped, and neither call aborts. It
  takes that no other call aborts the module while the sessions are borrowed (a malformed header
  to any session would, and locks them for good), that the handle counter has not come back to
  the handle of the conversation, that the keys of ratchet steps are new, and that no chain is
  used past its \<open>2 ^ 32 - 1\<close> messages.
\<close>
theorem texts_from_keys:
  assumes "ratchet_laws P" and "ed25519_signs P" and "ed25519_keys P" and "js_laws J"
    and "js_generate_identity_keypair P J (wasm_init, rA) = (Ok ta, a1)"
    and "js_generate_identity_keypair P J (wasm_init, rB) = (Ok tb, b1)"
    and "js_generate_signed_pre_key P J 1 b1 = (Ok tk, b2)"
    and "json_print J (bundle_object J (text_at J tb ''public_key'') (text_at J tb ''signing_key_public'')
      (text_at J tk ''public_key'') (text_at J tk ''signature'')) = Ok bj"
    and "js_x3dh_initiate P J 1 bj a1 = (Ok ti, a2)"
    and "js_x3dh_respond P J 1 2 (text_at J ta ''public_key'') (text_at J ti ''ephemeral_key'') b2 = (Ok tr, b3)"
    and "js_create_session_alice P J (text_at J ti ''shared_secret'') (text_at J tk ''public_key'') a2 = (Ok ha, a3)"
    and "js_create_session_bob J (text_at J tr ''shared_secret'') 2 b3 = (Ok hb, b4)"
    and "dec64 J (text_at J tk ''public_key'') = Ok pre_key"
    and "link_runs (wasm_endpoint P L J) (module_link a3 ha b4 hb pre_key) evs K"
  shows "text_at J tr ''shared_secret'' = text_at J ti ''shared_secret'' \<and>
    chan_runs (\<lambda>_. {#}) (List.map_filter (seen (wasm_endpoint P L J)) evs) (under_way K)"
proof -
  obtain ta' a1' tb' b1' tk' b2' bj' ti' a2' tr' b3' a3' b4' ss spk s where
    calls: "js_generate_identity_keypair P J (wasm_init, rA) = (Ok ta', a1')"
      "js_generate_identity_keypair P J (wasm_init, rB) = (Ok tb', b1')"
      "js_generate_signed_pre_key P J 1 b1' = (Ok tk', b2')"
      "json_print J (bundle_object J (text_at J tb' ''public_key'') (text_at J tb' ''signing_key_public'')
        (text_at J tk' ''public_key'') (text_at J tk' ''signature'')) = Ok bj'"
      "js_x3dh_initiate P J 1 bj' a1' = (Ok ti', a2')"
      "js_x3dh_respond P J 1 2 (text_at J ta' ''public_key'') (text_at J ti' ''ephemeral_key'') b2' = (Ok tr', b3')"
      "js_create_session_alice P J (text_at J ti' ''shared_secret'') (text_at J tk' ''public_key'') a2' = (Ok 2, a3')"
      "js_create_session_bob J (text_at J tr' ''shared_secret'') 2 b3' = (Ok 3, b4')"
    and same: "text_at J tr' ''shared_secret'' = text_at J ti' ''shared_secret''"
    and spk: "spk_wf P spk" "text_at J tk' ''public_key'' = enc64 J (spk_x25519_public spk)"
    and start: "init_alice P ss (spk_x25519_public spk) (\<lambda>i. rA (96 + i)) = (Ok s :: Session api_result, snd a3')"
      "cell_flag (session_cell (fst a3')) = Unborrowed" "cell_entry 2 (session_cell (fst a3')) = Some s"
      "cell_flag (session_cell (fst b4')) = Unborrowed" "cell_entry 3 (session_cell (fst b4')) = Some (init_bob ss spk)"
    by (rule modules_set_up [OF assms(1-4), of rA rB]) (rule that)
  have "ta' = ta" "a1' = a1" "tb' = tb" "b1' = b1" using calls(1,2) assms(5,6) by simp_all
  moreover from this have "tk' = tk" "b2' = b2" using calls(3) assms(7) by simp_all
  moreover from calculation have "bj' = bj" using calls(4) assms(8) by simp
  moreover from calculation have "ti' = ti" "a2' = a2" using calls(5) assms(9) by simp_all
  moreover from calculation have "tr' = tr" "b3' = b3" using calls(6) assms(10) by simp_all
  ultimately have eqs: "ha = 2" "a3' = a3" "hb = 3" "b4' = b4" "pre_key = spk_x25519_public spk"
    "text_at J tr ''shared_secret'' = text_at J ti ''shared_secret''"
    using same calls(7,8) assms(11-13) spk(2) js_lawsD(1) [OF assms(4)] by simp_all
  with module_link_starts(1) [OF assms(1,4) start]
  have "link_start P (wasm_endpoint P L J) ss spk (module_link a3 ha b4 hb pre_key)" by simp
  from eqs(6) texts.refines_channel [OF assms(1) spk(1) this assms(14)] show ?thesis ..
qed

lemma demo_new_texts_key:
  "x_public demo_provider (map (\<lambda>i. demo_rng (Suc (96 + i))) [0..<32]) \<notin>
     {x_public demo_provider (map (\<lambda>i. demo_rng (96 + i)) [0..<32]),
      x_public demo_provider (map (\<lambda>i. demo_rng (Suc i)) [64..<96])}"
proof -
  have hds: "hd (x_public demo_provider (map (\<lambda>i. demo_rng (Suc (96 + i))) [0..<32])) = 97"
    "hd (x_public demo_provider (map (\<lambda>i. demo_rng (96 + i)) [0..<32])) = 96"
    "hd (x_public demo_provider (map (\<lambda>i. demo_rng (Suc i)) [64..<96])) = 65"
    by (simp_all add: demo_provider_def pad_to_def demo_rng_def hd_append hd_map hd_upt take_Cons' upt_rec)
  have "(97 :: u8) \<noteq> 96" "(97 :: u8) \<noteq> 65" by simp_all
  with hds show ?thesis by (metis insertE singletonD)
qed

lemma texts_from_keys_witness:
  "\<exists>ta a1 tb b1 tk b2 bj ti a2 tr b3 ha a3 hb b4 pre_key K.
    js_generate_identity_keypair demo_provider demo_js (wasm_init, demo_rng) = (Ok ta, a1) \<and>
    js_generate_identity_keypair demo_provider demo_js (wasm_init, \<lambda>i. demo_rng (Suc i)) = (Ok tb, b1) \<and>
    js_generate_signed_pre_key demo_provider demo_js 1 b1 = (Ok tk, b2) \<and>
    js_x3dh_initiate demo_provider demo_js 1 bj a1 = (Ok ti, a2) \<and>
    js_x3dh_respond demo_provider demo_js 1 2 (text_at demo_js ta ''public_key'')
      (text_at demo_js ti ''ephemeral_key'') b2 = (Ok tr, b3) \<and>
    js_create_session_alice demo_provider demo_js (text_at demo_js ti ''shared_secret'')
      (text_at demo_js tk ''public_key'') a2 = (Ok ha, a3) \<and>
    js_create_session_bob demo_js (text_at demo_js tr ''shared_secret'') 2 b3 = (Ok hb, b4) \<and>
    link_runs (wasm_endpoint demo_provider demo_mls demo_js) (module_link a3 ha b4 hb pre_key)
      [CSealed Alice [104, 105], COpened Bob (Ok [104, 105])] K \<and>
    chan_runs (\<lambda>_. {#}) (List.map_filter (seen (wasm_endpoint demo_provider demo_mls demo_js))
      [CSealed Alice [104, 105], COpened Bob (Ok [104, 105])]) (under_way K)"
proof -
  note laws = demo_ratchet_laws demo_ed25519_laws demo_js_laws
  let ?P = demo_provider and ?J = demo_js and ?E = "wasm_endpoint demo_provider demo_mls demo_js"
  obtain ta a1 tb b1 tk b2 bj ti a2 tr b3 a3 b4 ss spk s where
    calls: "js_generate_identity_keypair ?P ?J (wasm_init, demo_rng) = (Ok ta, a1)"
      "js_generate_identity_keypair ?P ?J (wasm_init, \<lambda>i. demo_rng (Suc i)) = (Ok tb, b1)"
      "js_generate_signed_pre_key ?P ?J 1 b1 = (Ok tk, b2)"
      "json_print ?J (bundle_object ?J (text_at ?J tb ''public_key'') (text_at ?J tb ''signing_key_public'')
        (text_at ?J tk ''public_key'') (text_at ?J tk ''signature'')) = Ok bj"
      "js_x3dh_initiate ?P ?J 1 bj a1 = (Ok ti, a2)"
      "js_x3dh_respond ?P ?J 1 2 (text_at ?J ta ''public_key'') (text_at ?J ti ''ephemeral_key'') b2 = (Ok tr, b3)"
      "js_create_session_alice ?P ?J (text_at ?J ti ''shared_secret'') (text_at ?J tk ''public_key'') a2 = (Ok 2, a3)"
      "js_create_session_bob ?J (text_at ?J tr ''shared_secret'') 2 b3 = (Ok 3, b4)"
    and spk: "spk_wf ?P spk" "text_at ?J tk ''public_key'' = enc64 ?J (spk_x25519_public spk)"
    and start: "init_alice ?P ss (spk_x25519_public spk) (\<lambda>i. demo_rng (96 + i)) = (Ok s :: Session api_result, snd a3)"
      "cell_flag (session_cell (fst a3)) = Unborrowed" "cell_entry 2 (session_cell (fst a3)) = Some s"
      "cell_flag (session_cell (fst b4)) = Unborrowed" "cell_entry 3 (session_cell (fst b4)) = Some (init_bob ss spk)"
    and drawn: "spk_x25519_public spk = x_public ?P (map (\<lambda>i. demo_rng (Suc i)) [64..<96])"
      "snd b4 = (\<lambda>i. demo_rng (Suc (96 + i)))"
    by (rule modules_set_up [OF laws, of demo_rng "\<lambda>i. demo_rng (Suc i)"]) (rule that)
  let ?K0 = "module_link a3 2 b4 3 (spk_x25519_public spk)"
  note link = module_link_starts [OF demo_ratchet_laws demo_js_laws start]
  have rand: "ep_rand ?E (link_dev ?K0 Bob) = (\<lambda>i. demo_rng (Suc (96 + i)))"
    by (simp add: module_link_def drawn(2))
  have used: "link_used ?K0 = {x_public ?P (map (\<lambda>i. demo_rng (96 + i)) [0..<32]),
      x_public ?P (map (\<lambda>i. demo_rng (Suc i)) [64..<96])}"
    unfolding link(2) by (simp only: drawn(1))
  have "x_public ?P (map (ep_rand ?E (link_dev ?K0 Bob)) [0..<32]) \<notin> link_used ?K0"
    unfolding rand used by (rule demo_new_texts_key)
  moreover have "length [104, 105 :: u8] \<le> aes_limit" by (simp add: aes_limit_def)
  ultimately obtain K where run: "link_runs ?E ?K0 [CSealed Alice [104, 105], COpened Bob (Ok [104, 105])] K"
    using texts.first_message_from [OF demo_ratchet_laws spk(1) _ link(1)] by metis
  have "dec64 ?J (text_at ?J tk ''public_key'') = Ok (spk_x25519_public spk)"
    using js_lawsD(1) [OF demo_js_laws] by (simp add: spk(2))
  from texts_from_keys [OF laws calls this run] calls run show ?thesis by blast
qed

end
