(* ===== verification/Wasm_Groups.thy ===== *)
theory Wasm_Groups
  imports Wasm_Flow Api_Groups
begin

text \<open>
  The two interfaces serve the same groups as well: the MLS calls of \<open>src/wasm.rs\<close> on base64 text,
  with JSON replies, and those of \<open>src/api.rs\<close> on bytes are related by a simulation in lock step.
\<close>

section \<open>Corresponding calls, states and replies\<close>

text \<open>The native call a call of the module stands for, once its base64 is decoded.\<close>

definition decoded :: "'j js_lib \<Rightarrow> string \<Rightarrow> (bytes \<Rightarrow> mls_op) \<Rightarrow> mls_op option" where
  "decoded J t mk = (case dec64 J t of Ok b \<Rightarrow> Some (mk b) | _ \<Rightarrow> None)"

fun native_op :: "'j js_lib \<Rightarrow> wasm_op \<Rightarrow> mls_op option" where
  "native_op J (GroupCreate t) = decoded J t MlsCreate"
| "native_op J (GroupAdd h t) = decoded J t (MlsAdd h)"
| "native_op J (GroupRemove h i) = Some (MlsRemove h i)"
| "native_op J (GroupEncrypt h t) = decoded J t (MlsEncrypt h)"
| "native_op J (GroupDecrypt h t) = decoded J t (MlsDecrypt h)"
| "native_op J (GroupWelcome t u) =
     (case dec64 J t of Ok w \<Rightarrow> decoded J u (MlsWelcome w) | _ \<Rightarrow> None)"
| "native_op J (GroupCommit h t) = decoded J t (MlsCommit h)"
| "native_op J (GroupDestroy h) = Some (MlsDestroy h)"
| "native_op J _ = None"

definition same_groups :: "'j js_lib \<Rightarrow> wasm_state \<Rightarrow> mls_state \<Rightarrow> bool" where
  "same_groups J = (\<lambda>(w, r) (st, g). js_laws J \<and> g = r \<and> cell_flag (mls_cell w) = Unborrowed \<and>
     \<not> reg_poisoned st \<and> cell_map (mls_cell w) = reg_map st \<and> next_handle w = reg_next st)"

text \<open>The text of a reply is the object of the fields of the native result.\<close>

fun same_text :: "'j js_lib \<Rightarrow> ('a \<Rightarrow> (string \<times> 'j) list) \<Rightarrow> string api_result \<Rightarrow> 'a api_result \<Rightarrow> bool" where
  "same_text J shown (Ok t) (Ok res) \<longleftrightarrow> json_parse J t = Ok (json_object J (shown res))"
| "same_text J shown (Err e) (Err e') \<longleftrightarrow> True"
| "same_text J shown Panic Panic \<longleftrightarrow> True"
| "same_text J shown _ _ \<longleftrightarrow> False"

fun same_group_reply :: "'j js_lib \<Rightarrow> wasm_reply \<Rightarrow> group_reply \<Rightarrow> bool" where
  "same_group_reply J (Text x) (RCreate y) \<longleftrightarrow> same_text J (\<lambda>res. [(''handle'', json_u32 J (acg_handle res)),
     (''group_id'', json64 J (acg_group_id res)), (''epoch'', json_number J (acg_epoch res))]) x y"
| "same_group_reply J (Text x) (RAdd y) \<longleftrightarrow> same_text J (\<lambda>res. [(''handle'', json_u32 J (aam_handle res)),
     (''commit'', json64 J (aam_commit res)), (''welcome'', json64 J (aam_welcome res)),
     (''epoch'', json_number J (aam_epoch res))]) x y"
| "same_group_reply J (Text x) (RRemove y) \<longleftrightarrow> same_text J (\<lambda>res. [(''handle'', json_u32 J (arm_handle res)),
     (''commit'', json64 J (arm_commit res)), (''epoch'', json_number J (arm_epoch res))]) x y"
| "same_group_reply J (Text x) (REncrypt y) \<longleftrightarrow> same_text J (\<lambda>res. [(''handle'', json_u32 J (aer_handle res)),
     (''mls_ciphertext'', json64 J (aer_mls_ciphertext res)), (''epoch'', json_number J (aer_epoch res))]) x y"
| "same_group_reply J (Text x) (RDecrypt y) \<longleftrightarrow> same_text J (\<lambda>res. [(''handle'', json_u32 J (adr_handle res)),
     (''plaintext'', json64 J (adr_plaintext res))]) x y"
| "same_group_reply J (Text x) (RWelcome y) \<longleftrightarrow> same_text J (\<lambda>res. [(''handle'', json_u32 J (apw_handle res)),
     (''group_id'', json64 J (apw_group_id res)), (''epoch'', json_number J (apw_epoch res))]) x y"
| "same_group_reply J (Text x) (RCommit y) \<longleftrightarrow> same_text J (\<lambda>res. [(''handle'', json_u32 J (apc_handle res)),
     (''epoch'', json_number J (apc_epoch res))]) x y"
| "same_group_reply J (Removed x) (RGone b) \<longleftrightarrow> x = Ok b"
| "same_group_reply J _ _ \<longleftrightarrow> False"

section \<open>The parts correspond\<close>

lemma same_groupsD:
  assumes "same_groups J (w, r) (st, g)"
  shows "js_laws J" "g = r" "cell_flag (mls_cell w) = Unborrowed" "\<not> reg_poisoned st"
    "cell_map (mls_cell w) = reg_map st" "next_handle w = reg_next st"
    "cell_entry h (mls_cell w) = reg_entry h st"
  using assms by (auto simp: same_groups_def cell_entry_def reg_entry_def)

lemma group_store_corresponds:
  assumes "same_groups J (w, r) (st, r)" "list_all (\<lambda>(k, x). leaf J x) fs"
    and "js_mls_store J b fs (w, r) = (x, s')" "mls_store_result b mk (st, r) = (y, t')"
    and "\<And>h. shown (mk h) = (''handle'', json_u32 J h) # fs"
  shows "same_text J shown x y \<and> same_groups J s' t'"
proof -
  note same = same_groupsD [OF assms(1)]
  define h where "h = reg_next st"
  define w' where "w' = w\<lparr>next_handle := h + 1, mls_cell := cell_put h b (mls_cell w)\<rparr>"
  have "list_all (\<lambda>(k, x). branch J x) ((''handle'', json_u32 J h) # fs)"
    using assms(2) by (auto simp: documentI branch_def list_all_iff)
  with same(1) obtain t where
    t: "js_reply J ((''handle'', json_u32 J h) # fs) (w', r) = (Ok t, (w', r))"
      "json_parse J t = Ok (json_object J ((''handle'', json_u32 J h) # fs))"
    by (rule reply_parses)
  have "x = Ok t" "s' = (w', r)"
    using assms(3) t(1) same(3,6)
    by (simp_all add: js_mls_store_def next_id_def with_mls_states_def cell_insert_free w'_def h_def)
  moreover have "y = Ok (mk h)" "t' = (st\<lparr>reg_next := h + 1, reg_map := fmupd h b (reg_map st)\<rparr>, r)"
    using assms(4) same(4) by (simp_all add: mls_store_result_def reg_register_def reg_alloc_def h_def)
  ultimately show ?thesis
    using t(2) assms(1,5) by (auto simp: same_groups_def w'_def cell_put_def)
qed

text \<open>A call that runs an operation and stores the new state.\<close>

lemma run_corresponds:
  assumes "same_groups J (w, r) (st, r)" "\<And>res. list_all (\<lambda>(k, x). leaf J x) (fs res)"
    and "and_then_st (js_mls_run l f (w, r)) (\<lambda>res. js_mls_store J (B res) (fs res)) = (x, s')"
    and "and_then_st (mls_run f (st, r)) (\<lambda>res. mls_store_result (B res) (mk res)) = (y, t')"
    and "\<And>res h. shown (mk res h) = (''handle'', json_u32 J h) # fs res"
  shows "same_text J shown x y \<and> same_groups J s' t'"
proof -
  obtain z g where f: "f r = (z, g)" by fastforce
  have moved: "same_groups J (w, g) (st, g)" using assms(1) by (simp add: same_groups_def)
  show ?thesis
  proof (cases z)
    case (Ok res)
    with f assms(3,4) have "js_mls_store J (B res) (fs res) (w, g) = (x, s')"
      "mls_store_result (B res) (mk res) (st, g) = (y, t')"
      by (simp_all add: js_mls_run_def mls_run_def js_err_def api_map_err_def)
    from moved assms(2) this assms(5) show ?thesis by (rule group_store_corresponds)
  qed (use f moved assms(3,4) in
      \<open>auto simp: js_mls_run_def mls_run_def js_err_def api_map_err_def\<close>)
qed

text \<open>The same after reading the state behind a handle.\<close>

lemma read_corresponds:
  assumes "same_groups J (w, r) (st, r)" "\<And>res. list_all (\<lambda>(k, x). leaf J x) (fs res)"
    and "and_then_st (js_mls_read h (w, r)) (\<lambda>b s. and_then_st (js_mls_run l (F b) s)
      (\<lambda>res. js_mls_store J (B res) (fs res))) = (x, s')"
    and "and_then_st (mls_read h st, (st, r)) (\<lambda>b s. and_then_st (mls_run (F b) s)
      (\<lambda>res. mls_store_result (B res) (mk res))) = (y, t')"
    and "\<And>res h. shown (mk res h) = (''handle'', json_u32 J h) # fs res"
  shows "same_text J shown x y \<and> same_groups J s' t'"
proof (cases "reg_entry h st")
  case None
  with same_groupsD [OF assms(1)] assms(1,3,4) show ?thesis
    by (auto simp: js_mls_read_def with_mls_states_def cell_read_missing mls_read_def reg_read_def reg_entry_def)
next
  case (Some b)
  note same = same_groupsD [OF assms(1)]
  have "js_mls_read h (w, r) = (Ok b, (w, r))"
    using same(3,7) Some by (simp add: js_mls_read_def with_mls_states_def cell_read_found)
  moreover have "mls_read h st = Ok b"
    using same(4) Some by (simp add: mls_read_def reg_read_def reg_entry_def)
  ultimately have "and_then_st (js_mls_run l (F b) (w, r)) (\<lambda>res. js_mls_store J (B res) (fs res)) = (x, s')"
    "and_then_st (mls_run (F b) (st, r)) (\<lambda>res. mls_store_result (B res) (mk res)) = (y, t')"
    using assms(3,4) by simp_all
  from assms(1,2) this assms(5) show ?thesis by (rule run_corresponds)
qed

lemma destroy_corresponds:
  assumes "same_groups J (w, r) (st, r)"
    and "js_mls_destroy_state h (w, r) = (x, s')" "mls_destroy_state h (st, r) = (b, t')"
  shows "x = Ok b \<and> same_groups J s' t'"
  using same_groupsD [OF assms(1)] assms
  by (auto simp: js_mls_destroy_state_def mls_destroy_state_def with_mls_states_def cell_remove_cases
      reg_remove_def same_groups_def cell_drop_def reg_entry_def)

section \<open>The calls correspond\<close>

lemma decoded_Some [simp]: "decoded J t mk = Some op \<longleftrightarrow> (\<exists>b. dec64 J t = Ok b \<and> op = mk b)"
  by (auto simp: decoded_def split: outcome.splits)

lemma decoded_twice:
  "(case dec64 J t of Ok w \<Rightarrow> decoded J u (mk w) | _ \<Rightarrow> None) = Some op \<longleftrightarrow>
     (\<exists>w b. dec64 J t = Ok w \<and> dec64 J u = Ok b \<and> op = mk w b)"
  by (auto split: outcome.splits)

lemma apfst_parts: "apfst f u = (a, b) \<longleftrightarrow> (\<exists>c. u = (c, b) \<and> a = f c)"
  by (cases u) auto

lemma arg64_Ok: "dec64 J t = Ok b \<Longrightarrow> arg64 J name t = Ok b"
  by (simp add: arg64_def)

lemmas leaves = documentI(4,5)

text \<open>One lemma for each call; the reply's fields are those of the result's struct.\<close>

lemma mls_create_group_corresponds:
  assumes "same_groups J (w, r) (st, r)" and "dec64 J t = Ok b"
    and "js_mls_create_group L J t (w, r) = (u, s')" "api_mls_create_group L b (st, r) = (v, t')"
  shows "same_group_reply J (Text u) (RCreate v) \<and> same_groups J s' t'"
  unfolding same_group_reply.simps
  by (rule run_corresponds [OF assms(1) _ assms(3) [unfolded js_mls_create_group_def arg64_Ok [OF assms(2)] and_then_st.simps]
      assms(4) [unfolded api_mls_create_group_def]])
    (simp_all add: leaves)

lemma mls_add_member_corresponds:
  assumes "same_groups J (w, r) (st, r)" and "dec64 J t = Ok b"
    and "js_mls_add_member L J h t (w, r) = (u, s')" "api_mls_add_member L h b (st, r) = (v, t')"
  shows "same_group_reply J (Text u) (RAdd v) \<and> same_groups J s' t'"
  unfolding same_group_reply.simps
  by (rule read_corresponds [OF assms(1) _ assms(3) [unfolded js_mls_add_member_def arg64_Ok [OF assms(2)] and_then_st.simps]
      assms(4) [unfolded api_mls_add_member_def prod.case]])
    (simp_all add: leaves)

lemma mls_remove_member_corresponds:
  assumes "same_groups J (w, r) (st, r)"
    and "js_mls_remove_member L J h i (w, r) = (u, s')" "api_mls_remove_member L h i (st, r) = (v, t')"
  shows "same_group_reply J (Text u) (RRemove v) \<and> same_groups J s' t'"
  unfolding same_group_reply.simps
  by (rule read_corresponds [OF assms(1) _ assms(2) [unfolded js_mls_remove_member_def]
      assms(3) [unfolded api_mls_remove_member_def prod.case]])
    (simp_all add: leaves)

lemma mls_encrypt_message_corresponds:
  assumes "same_groups J (w, r) (st, r)" and "dec64 J t = Ok b"
    and "js_mls_encrypt_message L J h t (w, r) = (u, s')" "api_mls_encrypt_message L h b (st, r) = (v, t')"
  shows "same_group_reply J (Text u) (REncrypt v) \<and> same_groups J s' t'"
  unfolding same_group_reply.simps
  by (rule read_corresponds [OF assms(1) _ assms(3) [unfolded js_mls_encrypt_message_def arg64_Ok [OF assms(2)] and_then_st.simps]
      assms(4) [unfolded api_mls_encrypt_message_def prod.case]])
    (simp_all add: leaves)

lemma mls_decrypt_message_corresponds:
  assumes "same_groups J (w, r) (st, r)" and "dec64 J t = Ok b"
    and "js_mls_decrypt_message L J h t (w, r) = (u, s')" "api_mls_decrypt_message L h b (st, r) = (v, t')"
  shows "same_group_reply J (Text u) (RDecrypt v) \<and> same_groups J s' t'"
  unfolding same_group_reply.simps
  by (rule read_corresponds [OF assms(1) _ assms(3) [unfolded js_mls_decrypt_message_def arg64_Ok [OF assms(2)] and_then_st.simps]
      assms(4) [unfolded api_mls_decrypt_message_def prod.case]])
    (simp_all add: leaves)

lemma mls_process_commit_corresponds:
  assumes "same_groups J (w, r) (st, r)" and "dec64 J t = Ok b"
    and "js_mls_process_commit L J h t (w, r) = (u, s')" "api_mls_process_commit L h b (st, r) = (v, t')"
  shows "same_group_reply J (Text u) (RCommit v) \<and> same_groups J s' t'"
  unfolding same_group_reply.simps
  by (rule read_corresponds [OF assms(1) _ assms(3) [unfolded js_mls_process_commit_def arg64_Ok [OF assms(2)] and_then_st.simps]
      assms(4) [unfolded api_mls_process_commit_def prod.case]])
    (simp_all add: leaves)

lemma mls_process_welcome_corresponds:
  assumes "same_groups J (w, r) (st, r)" "dec64 J t = Ok a" "dec64 J t2 = Ok b"
    and "js_mls_process_welcome L J t t2 (w, r) = (u, s')" "api_mls_process_welcome L a b (st, r) = (v, t')"
  shows "same_group_reply J (Text u) (RWelcome v) \<and> same_groups J s' t'"
  unfolding same_group_reply.simps
  by (rule run_corresponds [OF assms(1) _ assms(4) [unfolded js_mls_process_welcome_def arg64_Ok [OF assms(2)]
        arg64_Ok [OF assms(3)] and_then_st.simps] assms(5) [unfolded api_mls_process_welcome_def]])
    (simp_all add: leaves)

interpretation groups: simulation "wasm_call P L J" "group_call L" "\<lambda>x y. native_op J x = Some y"
    "same_group_reply J" "same_groups J" for P L J
proof
  fix x y s t p s' q t'
  assume op: "native_op J x = Some y" and st: "same_groups J s t"
    and runs: "wasm_call P L J x s = (p, s')" "group_call L y t = (q, t')"
  obtain w r st0 w' r1 st1 r2 where s: "s = (w, r)" "t = (st0, r)" "s' = (w', r1)" "t' = (st1, r2)"
    using st by (metis same_groupsD(2) surj_pair)
  note st = st [unfolded s] and runs = runs [unfolded s]
  show "same_group_reply J p q \<and> same_groups J s' t'"
  proof (cases x)
    case (GroupCreate t)
    with op runs mls_create_group_corresponds [OF st] show ?thesis by (auto simp: s apfst_parts simp del: same_group_reply.simps) blast+
  next
    case (GroupAdd h t)
    with op runs mls_add_member_corresponds [OF st] show ?thesis by (auto simp: s apfst_parts simp del: same_group_reply.simps) blast+
  next
    case (GroupRemove h i)
    with op runs mls_remove_member_corresponds [OF st] show ?thesis by (auto simp: s apfst_parts simp del: same_group_reply.simps) blast+
  next
    case (GroupEncrypt h t)
    with op runs mls_encrypt_message_corresponds [OF st] show ?thesis by (auto simp: s apfst_parts simp del: same_group_reply.simps) blast+
  next
    case (GroupDecrypt h t)
    with op runs mls_decrypt_message_corresponds [OF st] show ?thesis by (auto simp: s apfst_parts simp del: same_group_reply.simps) blast+
  next
    case (GroupCommit h t)
    with op runs mls_process_commit_corresponds [OF st] show ?thesis by (auto simp: s apfst_parts simp del: same_group_reply.simps) blast+
  next
    case (GroupWelcome t u)
    with op runs mls_process_welcome_corresponds [OF st] show ?thesis
      by (auto simp: s apfst_parts decoded_twice simp del: same_group_reply.simps) blast+
  next
    case (GroupDestroy h)
    with op runs destroy_corresponds [OF st] show ?thesis by (auto simp: s apfst_parts)
  qed (use op in simp_all)
qed

section \<open>The property\<close>

lemma same_groups_init: "js_laws J \<Longrightarrow> same_groups J (wasm_init, r) (reg_empty, r)"
  by (simp add: same_groups_def wasm_init_def reg_empty_def cell_new_def)

text \<open>
  C13. The two interfaces are equivalent on groups: from the same states, counter and entropy, any
  sequence of MLS calls on base64 text and the same sequence on bytes answer alike in lock step.
  Where the native call returns a struct the other returns the JSON text of its fields, handle,
  epoch and messages included, an error for an error and a panic for a panic, and both leave the
  same states under the same handles; neither store is ever locked, not even by a panic.
\<close>
theorem groups_agree:
  assumes "same_groups J (w, r) (st, r)" and "list_all2 (\<lambda>x y. native_op J x = Some y) ops ops'"
    and "run_calls (wasm_call P L J) ops (w, r) = (replies, (w', r1))"
    and "run_calls (group_call L) ops' (st, r) = (replies', (st', r2))"
  shows "list_all2 (same_group_reply J) replies replies' \<and> r1 = r2 \<and>
    cell_map (mls_cell w') = reg_map st' \<and> next_handle w' = reg_next st' \<and>
    cell_flag (mls_cell w') = Unborrowed \<and> \<not> reg_poisoned st'"
proof -
  from groups.run_simulates [OF assms(2,1,3,4)] same_groupsD [of J w' r1 st' r2] show ?thesis by simp
qed

lemma groups_agree_witness:
  "\<exists>replies w r1 replies' st.
    run_calls (wasm_call demo_provider demo_mls demo_js)
      [GroupCreate (enc64 demo_js [65]), GroupEncrypt 1 (enc64 demo_js [104]), GroupRemove 9 0, GroupDestroy 1]
      (wasm_init, demo_rng) = (replies, (w, r1)) \<and>
    run_calls (group_call demo_mls) [MlsCreate [65], MlsEncrypt 1 [104], MlsRemove 9 0, MlsDestroy 1]
      (reg_empty, demo_rng) = (replies', (st, r1)) \<and>
    list_all2 (same_group_reply demo_js) replies replies' \<and> cell_map (mls_cell w) = reg_map st"
proof -
  define ops where "ops = [GroupCreate (enc64 demo_js [65]), GroupEncrypt 1 (enc64 demo_js [104]), GroupRemove 9 0, GroupDestroy 1]"
  define ops' where "ops' = [MlsCreate [65], MlsEncrypt 1 [104], MlsRemove 9 0, MlsDestroy 1]"
  have ops: "list_all2 (\<lambda>x y. native_op demo_js x = Some y) ops ops'"
    by (simp add: ops_def ops'_def js_lawsD(1) [OF demo_js_laws])
  obtain replies w r1 where 1: "run_calls (wasm_call demo_provider demo_mls demo_js) ops (wasm_init, demo_rng) =
      (replies, (w, r1))" by (rule prod_cases3)
  obtain replies' st r2 where 2: "run_calls (group_call demo_mls) ops' (reg_empty, demo_rng) =
      (replies', (st, r2))" by (rule prod_cases3)
  from groups_agree [OF same_groups_init [OF demo_js_laws] ops 1 2] 1 2 show ?thesis
    unfolding ops_def ops'_def by blast
qed

end
