(* ===== verification/Spec2Isabelle.thy ===== *)
theory Spec2Isabelle
  imports Ratchet_Keys Api_Setup Api_Threads Mls_Threads Mls_Talk Hybrid_Kem Wasm_Setup Wasm_Groups
begin

text \<open>
  A verification library for the Rust crate \<open>ghostcrypt-crypto\<close>: end-to-end encryption for two
  parties (X3DH and the Double Ratchet), a hybrid post-quantum key encapsulation, MLS group
  messaging on openmls, and the two interfaces that hand it to a Flutter application
  (\<open>src/api.rs\<close>) and to JavaScript (\<open>src/wasm.rs\<close>).

  \<^bold>\<open>The program and its model.\<close> The crate is layered, and so are the theories. The primitives
  (X25519, Ed25519, AES-GCM, HKDF, HMAC, the JSON of a header) are other crates: one record of
  functions, \<open>Primitives.provider\<close>, which every definition that calls them takes as its first
  argument, with named laws of documented behaviour. \<open>ml_kem\<close> and openmls with its codecs are
  parameters in the same way (\<open>Hybrid_Kem.kem_lib\<close>, \<open>Mls_Lib.openmls\<close>), and so are base64 and the
  JSON values of the JavaScript interface (\<open>Js_Lib.js_lib\<close>). The operating system's
  random source is an unbounded stream of bytes that is passed and returned. A Rust result that
  may also panic is a value of \<open>outcome\<close> (\<open>Ok\<close>, \<open>Err\<close>, \<open>Panic\<close>); a method on \<open>&mut self\<close> returns
  the state it leaves on every path, errors and panics included. \<open>u32\<close> and \<open>u64\<close> are words that
  wrap, as in the release profile.

  \<^item> \<open>Prelude\<close>, \<open>Interfaces\<close>: vocabulary and generic lemmas; the interfaces as locales (a component
    with an invariant, one with a growing size, agreement on a secret, a codec, a store under
    handles, a simulation between two components). Each is interpreted in the theory of the component that provides it.
  \<^item> \<open>Errors\<close> (\<open>src/error.rs\<close>), \<open>Kdf\<close> (\<open>src/kdf/mod.rs\<close>), \<open>Aead\<close> (\<open>src/aead/mod.rs\<close>), \<open>Identity\<close>
    (\<open>src/identity/keys.rs\<close>), \<open>X3dh\<close> (\<open>src/x3dh\<close>): keys and key agreement. \<open>X3dh\<close> and \<open>Hybrid_Kem\<close>
    (\<open>src/pqc/hybrid_kem.rs\<close>) interpret \<open>agreement\<close>: both sides compute the same secret.
  \<^item> \<open>Ratchet_Parts\<close> (\<open>chain.rs\<close>, \<open>dh_ratchet.rs\<close>, \<open>header.rs\<close> of \<open>src/ratchet\<close>), \<open>Ratchet_Session\<close>
    (\<open>state.rs\<close>): the Double Ratchet. \<open>Ratchet_Facts\<close> has the closed form of the skipping loop and
    the branches of decryption. \<open>Ratchet_Channels\<close> and \<open>Ratchet_Network\<close> have two sessions on a
    network that reorders and loses packets, the invariant that one party is one ratchet step
    ahead, and the refinement to an abstract channel. \<open>Ratchet_Properties\<close> takes one session as
    a component fed with arbitrary input, and states what failing calls leave behind;
    \<open>Ratchet_Keys\<close> shows that such input never makes it seal at one position twice, that each message
    is sealed with the key derived for its position, and that the key of a message is gone after the call that was given the message.
  \<^item> \<open>Mls_Lib\<close>, \<open>Mls\<close>, \<open>Mls_Facts\<close>, \<open>Mls_Demo\<close>, \<open>Mls_Properties\<close> (\<open>src/mls/mod.rs\<close>): every operation
    on a serialised group, and the round trip of its state.
  \<^item> \<open>Registry\<close>, \<open>Api_Sessions\<close>, \<open>Api_Properties\<close>, \<open>Api_Mls\<close> (\<open>src/api.rs\<close>): the two global maps
    under \<open>u32\<close> handles with their counters and lock poisoning, and every call of the interface.
    \<open>Api_Threads\<close> lets several threads call at once: a call that creates a session is two steps,
    the counter and the lock, and the store still is one whose handles are never given twice.
    \<open>Api_Groups\<close> takes the MLS calls apart into reading, computing, numbering and storing, and
    \<open>Mls_Threads\<close> interleaves these: what the threads see is a history of states that only grows, and
    a thread that has its copy of a state gets its answer from that copy, whatever the others do.
    \<open>Mls_Talk\<close> has two devices in one group, from the key package to messages in turns.
  \<^item> \<open>Endpoint\<close>: what an interface has to promise so that two devices that talk through it see the
    channel, whatever other sessions they hold, as a locale over the record of its calls; the
    refinement is proved once inside it. \<open>Api_Channel\<close> interprets it with the calls of \<open>src/api.rs\<close>,
    \<open>Wasm_Channel\<close> with those of \<open>src/wasm.rs\<close>, whose JSON replies are what crosses the network;
    \<open>Api_Setup\<close> and \<open>Wasm_Setup\<close> show that the calls of key generation, X3DH and session creation
    lead there.
  \<^item> \<open>Ref_Cell\<close>, \<open>Js_Lib\<close>, \<open>Wasm\<close>, \<open>Wasm_Mls\<close> (\<open>src/wasm.rs\<close>): the thread-local maps in their
    \<open>RefCell\<close>s, whose borrows a panic leaves open because the WebAssembly targets abort, and all
    eighteen calls. \<open>Wasm_Facts\<close> has the effect of a call on the stores, \<open>Wasm_Properties\<close> what
    holds of every life of the module, \<open>Wasm_Native\<close> and \<open>Wasm_Groups\<close> the simulations with the
    session calls and the MLS calls of \<open>src/api.rs\<close>, and \<open>Wasm_Flow\<close> the way from key generation
    to the first message over texts.
  \<^item> This theory: the properties that span components.

  \<^bold>\<open>What the theorems show.\<close> Two sessions with a common secret implement a channel that delivers
  each plaintext at most once, unchanged, in any order, or stops at the limit of 100 stored keys,
  and so do two devices through either interface, from key generation on and among any calls that
  do not disable the store, as long as chains and handle counters do not come round;
  the secret comes from X3DH, and the whole way through the interface is correct. Sessions stay
  well-formed and grow by at most one key a call under arbitrary input, and well-shaped input
  never panics. A header of any number costs at most 101 turns of
  the skipping loop, and a party with a sending chain can always get a message through, by the calls of either interface. Handles
  are unique and isolated while the counter has not wrapped, also when threads interleave. MLS
  states load again with the epoch reported, and what one member of a group of two encrypts the
  other decrypts, on openmls' promise for its groups. The two interfaces agree call by call, on
  sessions and on groups. Against that, theorems record where the code falls short:
  decryption changes the session before it authenticates, a replay moves the chain, the limit
  of stored keys does not stop the store from growing, a malformed header disables all sessions
  (in both interfaces, by a poisoned lock and by a borrow left open), the JavaScript interface
  cannot remove keys or sessions and cuts the numbers of a header to 32 bits, a one-time pre-key makes the two sides of the interface disagree.

  \<^bold>\<open>Bounds.\<close> No definition of the code has fuel: the skipping loop terminates by the distance of the
  chain index to its target, and \<open>skip_upto\<close> bounds its turns by 101. Theorems about handles take the number of calls below \<open>2 ^ 32\<close>; the network theorems
  exclude the send with number \<open>2 ^ 32 - 1\<close>, after which the index wraps, and assume a new ratchet
  key for every ratchet step. Calls are atomic except in \<open>Api_Threads\<close> and
  \<open>Mls_Threads\<close>; a JavaScript module runs
  one call at a time. The witnesses instantiate every parameter with a concrete library.

  \<^bold>\<open>Not modelled.\<close> Zeroisation of memory, which no value depends on; \<open>lib.rs\<close> and the module roots,
  which only declare and re-export; the tests and benchmarks; the code of the called crates.
\<close>

section \<open>From key generation to the first message\<close>

text \<open>Two devices set up their sessions from one secret, and the initiator's first message arrives.\<close>

lemma first_message_over_api:
  assumes laws: "ratchet_laws P" and m: "length m \<le> aes_limit"
    and spk: "spk_from_bytes sec pub sig = Ok spk" "spk_wf P spk"
    and live: "\<not> reg_poisoned dA" "\<not> reg_poisoned dB"
  shows "\<exists>ha sa hb sb e sa'.
      create_session_initiator P ss pub (dA, rA) = (Ok ha, sa) \<and>
      create_session_responder ss sec pub sig (dB, rB) = (Ok hb, sb) \<and>
      session_encrypt P ha m sa = (Ok e, sa') \<and>
      fst (session_decrypt P hb (er_header e) (er_ciphertext e) (er_nonce e) sb) = Ok m"
proof -
  note l = ratchet_lawsD [OF laws]
  have pub: "spk_x25519_public spk = pub" "length pub = 32"
    using spk(1) by (auto simp: spk_from_bytes_def split: if_splits)
  obtain ha sa where A: "create_session_initiator P ss pub (dA, rA) = (Ok ha, sa)"
    using initiator_creates [OF l(3) pub(2) live(1)] by metis
  obtain hb sb where B: "create_session_responder ss sec pub sig (dB, rB) = (Ok hb, sb)"
    using responder_creates [OF spk(1) live(2)] by metis
  obtain a g st where a: "init_alice P ss pub rA = (Ok a :: Session api_result, g)" "sa = (st, g)"
    "\<not> reg_poisoned st" "reg_entry ha st = Some a"
    using A by (rule initiator_created)
  obtain st' where b: "sb = (st', rB)" "\<not> reg_poisoned st'" "reg_entry hb st' = Some (init_bob ss spk)"
    using B spk(1) by (auto elim: responder_created)
  obtain c where c: "sending_chain a = Some c"
    using a(1) by (auto simp: init_alice_total [OF l(3)] Let_def split: prod.splits)
  have wf: "session_wf a" using l(3,2) pub(2) a(1) by (rule init_alice_wf)
  obtain h e where enc: "ratchet_encrypt P m (a, g) =
      (Ok (h, e), (a\<lparr>sending_chain := Some (popped P c)\<rparr>, \<lambda>i. g (12 + i)))"
    using laws wf c m by (rule ratchet_encrypt_total)
  obtain x sa' where E: "session_encrypt P ha m sa = (x, sa')" by (meson surj_pair)
  have x: "x = Ok \<lparr>er_header = h, er_ciphertext = ciphertext e, er_nonce = nonce e\<rparr>"
    using api_seals(1) [of sa ha a P m, OF _ _ _ _ E] a enc by (simp add: api_map_err_def)
  obtain z s where dec: "ratchet_decrypt P h e (init_bob ss spk, rB) = (z, s)" by (meson surj_pair)
  have z: "z = Ok m"
    using first_message_opens [OF laws spk(2) _ enc] a(1) pub(1) dec by (metis fst_conv)
  obtain y sb' where D: "session_decrypt P hb h (ciphertext e) (nonce e) sb = (y, sb')" by (meson surj_pair)
  have same: "\<lparr>nonce = nonce e, ciphertext = ciphertext e\<rparr> = e" by simp
  have "y = Ok m"
    using api_opens(1) [of sb hb "init_bob ss spk" P h "nonce e" "ciphertext e", unfolded same, OF _ _ _ D] b dec z
    by (cases s) (simp add: api_map_err_def)
  with A B E x D show ?thesis by fastforce
qed

text \<open>
  C10. The whole way through the interface is correct: from any two generated identities and a
  pre-key signed by the responder's, the two X3DH calls return the same secret, the two session
  calls accept it on any two devices whose stores are not poisoned, and the first message the
  initiator encrypts, of any length AES-GCM allows, decrypts at the responder to itself.
\<close>
theorem keys_to_first_message:
  assumes "ratchet_laws P" and "ed25519_signs P" and "ed25519_keys P" and "length m \<le> aes_limit"
    and "api_generate_identity_keypair P r1 = (A, r1')"
    and "api_generate_identity_keypair P r2 = (B, r2')"
    and "api_generate_signed_pre_key P (ikr_identity_secret B) (ikr_signing_secret B) r3 = (Ok K, r3')"
    and "\<not> reg_poisoned dA" and "\<not> reg_poisoned dB"
  shows "\<exists>init rA ha sa hb sb e sa'.
    api_x3dh_initiate P (ikr_identity_secret A) (ikr_signing_secret A) (ikr_identity_public B)
      (ikr_signing_public B) (spr_public_key K) (spr_signature K) None r = (Ok init, rA) \<and>
    api_x3dh_respond P (ikr_identity_secret B) (ikr_signing_secret B) (spr_secret K)
      (spr_public_key K) (spr_signature K) (ikr_identity_public A) (xir_ephemeral_public init) =
      Ok (xir_shared_secret init) \<and>
    create_session_initiator P (xir_shared_secret init) (spr_public_key K) (dA, rA) = (Ok ha, sa) \<and>
    create_session_responder (xir_shared_secret init) (spr_secret K) (spr_public_key K)
      (spr_signature K) (dB, rB) = (Ok hb, sb) \<and>
    session_encrypt P ha m sa = (Ok e, sa') \<and>
    fst (session_decrypt P hb (er_header e) (er_ciphertext e) (er_nonce e) sb) = Ok m"
proof -
  obtain spk init where k: "spk_from_bytes (spr_secret K) (spr_public_key K) (spr_signature K) = Ok spk"
    "spk_wf P spk" "spr_public_key K = spk_x25519_public spk"
    "api_x3dh_initiate P (ikr_identity_secret A) (ikr_signing_secret A) (ikr_identity_public B)
      (ikr_signing_public B) (spr_public_key K) (spr_signature K) None r = (Ok init, \<lambda>i. r (32 + i))"
    "api_x3dh_respond P (ikr_identity_secret B) (ikr_signing_secret B) (spr_secret K)
      (spr_public_key K) (spr_signature K) (ikr_identity_public A) (xir_ephemeral_public init) =
      Ok (xir_shared_secret init)"
    by (rule api_agreement [OF assms(1-3,5-7)])
  from first_message_over_api [OF assms(1,4) k(1,2) assms(8,9), of "xir_shared_secret init" "\<lambda>i. r (32 + i)" rB] k(4,5)
  show ?thesis by fastforce
qed

lemma keys_to_first_message_witness:
  "\<exists>K init rA ha sa hb sb e sa'.
    fst (api_generate_signed_pre_key demo_provider (ikr_identity_secret (demo_api_identity 5))
      (ikr_signing_secret (demo_api_identity 5)) demo_rng) = Ok K \<and>
    api_x3dh_initiate demo_provider (ikr_identity_secret (demo_api_identity 3))
      (ikr_signing_secret (demo_api_identity 3)) (ikr_identity_public (demo_api_identity 5))
      (ikr_signing_public (demo_api_identity 5)) (spr_public_key K) (spr_signature K) None demo_rng = (Ok init, rA) \<and>
    create_session_initiator demo_provider (xir_shared_secret init) (spr_public_key K)
      (reg_empty, rA) = (Ok ha, sa) \<and>
    create_session_responder (xir_shared_secret init) (spr_secret K) (spr_public_key K)
      (spr_signature K) (reg_empty, demo_rng) = (Ok hb, sb) \<and>
    session_encrypt demo_provider ha [104, 105] sa = (Ok e, sa') \<and>
    fst (session_decrypt demo_provider hb (er_header e) (er_ciphertext e) (er_nonce e) sb) = Ok [104, 105]"
proof -
  obtain K r' where K: "api_generate_signed_pre_key demo_provider (ikr_identity_secret (demo_api_identity 5))
      (ikr_signing_secret (demo_api_identity 5)) demo_rng = (Ok K, r')"
    using demo_api_pre_key by blast
  have live: "\<not> reg_poisoned (reg_empty :: Session registry)" by (simp add: reg_empty_def)
  have len: "length [104, 105 :: u8] \<le> aes_limit" by (simp add: aes_limit_def)
  have gen: "api_generate_identity_keypair demo_provider (\<lambda>_. b) =
      (demo_api_identity b, snd (api_generate_identity_keypair demo_provider (\<lambda>_. b)))" for b
    by (simp add: demo_api_identity_def)
  obtain init rA ha sa hb sb e sa' where run:
    "api_x3dh_initiate demo_provider (ikr_identity_secret (demo_api_identity 3))
      (ikr_signing_secret (demo_api_identity 3)) (ikr_identity_public (demo_api_identity 5))
      (ikr_signing_public (demo_api_identity 5)) (spr_public_key K) (spr_signature K) None demo_rng = (Ok init, rA)"
    "create_session_initiator demo_provider (xir_shared_secret init) (spr_public_key K) (reg_empty, rA) = (Ok ha, sa)"
    "create_session_responder (xir_shared_secret init) (spr_secret K) (spr_public_key K)
      (spr_signature K) (reg_empty, demo_rng) = (Ok hb, sb)"
    "session_encrypt demo_provider ha [104, 105] sa = (Ok e, sa')"
    "fst (session_decrypt demo_provider hb (er_header e) (er_ciphertext e) (er_nonce e) sb) = Ok [104, 105]"
    using keys_to_first_message [OF demo_ratchet_laws demo_ed25519_laws len gen gen K live live,
        where r = demo_rng and rB = demo_rng]
    by blast
  with K show ?thesis by (metis fst_conv)
qed

section \<open>One-time pre-keys across the interface\<close>

text \<open>What the responder's and the initiator's calls derive when the bundle has a one-time key.\<close>

lemma wf_imports:
  "ik_wf P k \<Longrightarrow> ik_from_bytes P (ik_secret_bytes k) (ik_signing_secret_bytes k) = Ok k"
  by (simp add: ik_from_bytes_def ik_secret_bytes_def ik_signing_secret_bytes_def ik_wf_def)

lemma initiate_with_one_time_key:
  assumes "x25519_sizes P" "ed25519_keys P" "ik_wf P alice" "responder_ok P (bob, spk, Some opk)"
  shows "fst (api_x3dh_initiate P (ik_secret_bytes alice) (ik_signing_secret_bytes alice)
      (ik_x25519_public bob) (ik_verifying_key P bob) (spk_x25519_public spk) (spk_signature spk)
      (Some (opk_x25519_public opk)) r) =
      and_then (api_map_err (derive P (initiator_ikm P alice (publish_bundle P bob spk None) (map r [0..<32]) @
            x_dh P (map r [0..<32]) (opk_x25519_public opk)) X3DH_SALT X3DH_INFO 32))
        (\<lambda>s. Ok \<lparr>xir_shared_secret = s, xir_ephemeral_public = x_public P (map r [0..<32])\<rparr>)"
    (is "_ = and_then (api_map_err ?d) ?ok")
proof -
  define b where "b = \<lparr>pb_identity_key = ik_x25519_public bob,
    pb_identity_verifying_key = ik_verifying_key P bob, pb_signed_pre_key = spk_x25519_public spk,
    pb_signature = spk_signature spk, pb_one_time_pre_key = Some (opk_x25519_public opk)\<rparr>"
  have bob: "ik_wf P bob" "spk_wf P spk" "spk_verify_signature P spk bob" "opk_wf P opk"
    using assms(4) by (simp_all add: responder_ok_def)
  have len: "length (ik_x25519_public bob) = 32" "length (spk_x25519_public spk) = 32"
    "length (opk_x25519_public opk) = 32"
    using assms(1) bob by (simp_all add: ik_wf_def spk_wf_def opk_wf_def x25519_sizes_def)
  have "initiator_ikm P alice b (map r [0..<32]) = initiator_ikm P alice (publish_bundle P bob spk None) (map r [0..<32]) @
      x_dh P (map r [0..<32]) (opk_x25519_public opk)"
    by (simp add: initiator_ikm_def b_def publish_bundle_def)
  moreover obtain y g where run: "x3dh_initiate P alice b r = (y, g)" by fastforce
  ultimately have "y = and_then ?d (\<lambda>s. Ok \<lparr>xr_shared_secret = s, xr_ephemeral_key = x_public P (map r [0..<32])\<rparr>)"
    using initiate_derives [of P b alice r] bob(3) by (simp add: b_def spk_verify_signature_def)
  with api_initiate [OF wf_imports [OF assms(3)] len(1,2) api_verifying_key [OF assms(2)], where r = r
      and opk = "Some (opk_x25519_public opk)" and sig = "spk_signature spk"] len(3) run [unfolded b_def]
  show ?thesis by (cases ?d) (simp_all add: api_map_err_def Let_def)
qed

text \<open>
  C39. The interface takes a one-time pre-key at the initiator only: with one in the bundle the
  initiator derives its secret from 128 bytes, the responder's call from the first 96 of the
  same bytes, so the two do not compute the same function of the same input.
\<close>
theorem one_time_key_only_at_initiator:
  assumes "dh_commutes P" and "x25519_sizes P" and "ed25519_keys P" and "ik_wf P alice"
    and "responder_ok P (bob, spk, Some opk)" and "length (spk_signature spk) = 64"
  shows "\<exists>ikm. length ikm = 96 \<and>
    fst (api_x3dh_initiate P (ik_secret_bytes alice) (ik_signing_secret_bytes alice)
      (ik_x25519_public bob) (ik_verifying_key P bob) (spk_x25519_public spk) (spk_signature spk)
      (Some (opk_x25519_public opk)) r) =
      and_then (api_map_err (derive P (ikm @ x_dh P (map r [0..<32]) (opk_x25519_public opk))
          X3DH_SALT X3DH_INFO 32))
        (\<lambda>s. Ok \<lparr>xir_shared_secret = s, xir_ephemeral_public = x_public P (map r [0..<32])\<rparr>) \<and>
    api_x3dh_respond P (ik_secret_bytes bob) (ik_signing_secret_bytes bob) (spk_secret_bytes spk)
      (spk_x25519_public spk) (spk_signature spk) (ik_x25519_public alice) (x_public P (map r [0..<32])) =
      api_map_err (derive P ikm X3DH_SALT X3DH_INFO 32)"
proof -
  define ikm where "ikm = initiator_ikm P alice (publish_bundle P bob spk None) (map r [0..<32])"
  have bob: "ik_wf P bob" "spk_wf P spk" "responder_ok P (bob, spk, None)"
    using assms(5) by (simp_all add: responder_ok_def)
  have spk: "spk_from_bytes (spk_secret_bytes spk) (spk_x25519_public spk) (spk_signature spk) = Ok spk"
    using bob(2) assms(2,6) by (simp add: spk_from_bytes_def spk_secret_bytes_def spk_wf_def x25519_sizes_def)
  have len: "length (ik_x25519_public alice) = 32" "length (x_public P (map r [0..<32])) = 32" "length ikm = 96"
    using assms(2,4) by (simp_all add: ik_wf_def x25519_sizes_def ikm_def initiator_ikm_def publish_bundle_def)
  have "responder_ikm P bob spk None (ik_x25519_public alice) (x_public P (map r [0..<32])) = ikm"
    using ikm_agree [OF assms(1,4) bob(3)] by (simp add: ikm_def)
  then have "api_x3dh_respond P (ik_secret_bytes bob) (ik_signing_secret_bytes bob) (spk_secret_bytes spk)
      (spk_x25519_public spk) (spk_signature spk) (ik_x25519_public alice) (x_public P (map r [0..<32])) =
      api_map_err (derive P ikm X3DH_SALT X3DH_INFO 32)"
    using api_respond [OF wf_imports [OF bob(1)] spk len(1,2)]
    by (cases "derive P ikm X3DH_SALT X3DH_INFO 32") (simp_all add: respond_derives api_map_err_def)
  with initiate_with_one_time_key [OF assms(2-5), of r, folded ikm_def] len(3) show ?thesis by blast
qed

lemma one_time_key_only_at_initiator_witness:
  "\<exists>ikm. length ikm = 96 \<and>
    api_x3dh_respond demo_provider (ik_secret_bytes (demo_identity 5)) (ik_signing_secret_bytes (demo_identity 5))
      (spk_secret_bytes (demo_pre_key 5)) (spk_x25519_public (demo_pre_key 5))
      (spk_signature (demo_pre_key 5)) (ik_x25519_public (demo_identity 3))
      (x_public demo_provider (map demo_rng [0..<32])) =
      api_map_err (derive demo_provider ikm X3DH_SALT X3DH_INFO 32)"
proof -
  note l = ratchet_lawsD [OF demo_ratchet_laws]
  have "length (spk_signature (demo_pre_key 5)) = 64"
    by (simp add: demo_pre_key_def spk_generate_def draw_bytes_def ik_sign_def demo_provider_def Let_def)
  from one_time_key_only_at_initiator [OF l(1,2) demo_ed25519_laws(2) demo_identity_wf demo_responder_ok(2) this,
      where r = demo_rng]
  show ?thesis by blast
qed

end
